(* ===== verification/BNS_Prelude.thy ===== *)
theory BNS_Prelude
  imports Main "HOL-Library.Word" "HOL-Library.Sublist"
begin

text \<open>
  Shared ground of the development: the error values and the panic/return results of the Go
  code, the machine-integer types, the time arithmetic of package \<open>time\<close>, and the generic
  list, option and word lemmas that the component theories use.
\<close>

section \<open>Collections of facts\<close>

named_theorems ldh_chars \<open>facts about letters, digits, hyphens and dots\<close>
named_theorems lru_defs \<open>unfolding of the LRU operations\<close>
named_theorems chain_defs \<open>unfolding of the resolver stages\<close>
named_theorems frame_simps \<open>fields an operation leaves alone\<close>

section \<open>Machine integers\<close>

type_synonym u16 = "16 word"
type_synonym u32 = "32 word"

section \<open>Errors and panics\<close>

text \<open>
  A Go error value is a tree: a leaf made by \<open>errors.New\<close> or by a library, a sentinel that
  callers test with \<open>errors.Is\<close>, a wrapping by \<open>fmt.Errorf("...: %w", err)\<close>, or the
  \<open>errors.Join\<close> of several errors. The text of a message is kept as a string that names the
  place it was made; formatting verbs are not expanded.
\<close>

datatype sentinel =
    ErrCacheMiss
  | ErrNotExist
  | ErrClosed
  | ErrServerClosed
  | Canceled
  | DeadlineExceeded

datatype goerror =
    ErrNew string
  | ErrSentinel sentinel
  | ErrWrap string goerror
  | ErrJoin "goerror list"

fun errors_Is :: "goerror \<Rightarrow> sentinel \<Rightarrow> bool" where
  "errors_Is (ErrNew _) t = False"
| "errors_Is (ErrSentinel s) t = (s = t)"
| "errors_Is (ErrWrap _ e) t = errors_Is e t"
| "errors_Is (ErrJoin es) t = list_ex (\<lambda>e. errors_Is e t) es"

text \<open>A call either returns its results or panics.\<close>

datatype 'a go = Ret 'a | Panic string

section \<open>Durations and instants\<close>

text \<open>
  A \<open>time.Duration\<close> is an \<open>int64\<close> count of nanoseconds. It is an \<open>int\<close> here, and every
  product or conversion that could leave the 64-bit range is written with \<open>wrap64\<close> or
  \<open>sat64\<close>. An instant (\<open>time.Time\<close>) is an \<open>int\<close> count of nanoseconds of the monotonic
  clock.
\<close>

definition time_Second :: int where "time_Second = 1000000000"
definition time_Minute :: int where "time_Minute = 60 * time_Second"
definition time_Hour :: int where "time_Hour = 60 * time_Minute"

definition min_i64 :: int where "min_i64 = - (2 ^ 63)"
definition max_i64 :: int where "max_i64 = 2 ^ 63 - 1"

definition wrap64 :: "int \<Rightarrow> int" where
  "wrap64 i = (i + 2 ^ 63) mod 2 ^ 64 - 2 ^ 63"

definition sat64 :: "int \<Rightarrow> int" where
  "sat64 i = max min_i64 (min max_i64 i)"

text \<open>\<open>t.Sub(u)\<close> saturates; \<open>/\<close> on integers truncates towards zero.\<close>

definition time_Sub :: "int \<Rightarrow> int \<Rightarrow> int" where
  "time_Sub t u = sat64 (t - u)"

definition go_quot :: "int \<Rightarrow> int \<Rightarrow> int" where
  "go_quot a b = (let q = \<bar>a\<bar> div \<bar>b\<bar> in if (a < 0) = (b < 0) then q else - q)"

lemma wrap64_id: "min_i64 \<le> i \<Longrightarrow> i \<le> max_i64 \<Longrightarrow> wrap64 i = i"
  by (simp add: wrap64_def min_i64_def max_i64_def)

lemma sat64_id: "min_i64 \<le> i \<Longrightarrow> i \<le> max_i64 \<Longrightarrow> sat64 i = i"
  by (simp add: sat64_def)

lemma wrap64_range: "min_i64 \<le> wrap64 i \<and> wrap64 i \<le> max_i64"
proof -
  have "0 \<le> (i + 2 ^ 63) mod 2 ^ 64" and "(i + 2 ^ 63) mod 2 ^ 64 < (2::int) ^ 64"
    by simp_all
  then show ?thesis by (simp add: wrap64_def min_i64_def max_i64_def)
qed

lemma go_quot_nonneg: "0 \<le> a \<Longrightarrow> 0 < b \<Longrightarrow> go_quot a b = a div b"
  by (simp add: go_quot_def)

lemma time_Second_pos [simp]: "0 < time_Second"
  by (simp add: time_Second_def)

text \<open>A 32-bit count of seconds always fits a duration.\<close>

lemma u32_seconds_no_wrap:
  "wrap64 (uint (t :: u32) * time_Second) = uint t * time_Second"
proof -
  have "uint t < 2 ^ 32" using uint_lt2p [of t] by simp
  then have "uint t * time_Second \<le> max_i64"
    by (simp add: time_Second_def max_i64_def)
  moreover have "min_i64 \<le> uint t * time_Second"
    by (simp add: min_i64_def time_Second_def order_trans [of _ 0])
  ultimately show ?thesis by (rule wrap64_id [rotated])
qed

section \<open>Lists\<close>

lemma find_None_iff_all: "find P xs = None \<longleftrightarrow> (\<forall>x \<in> set xs. \<not> P x)"
  by (induction xs) auto

lemma find_SomeD: "find P xs = Some x \<Longrightarrow> x \<in> set xs \<and> P x"
  by (induction xs) (auto split: if_splits)

lemma distinct_remove1_set: "distinct xs \<Longrightarrow> set (remove1 x xs) = set xs - {x}"
  by (rule set_remove1_eq)

lemma distinct_butlast_notin: "distinct xs \<Longrightarrow> xs \<noteq> [] \<Longrightarrow> last xs \<notin> set (butlast xs)"
  by (metis append_butlast_last_id distinct_append disjoint_iff list.set_intros(1))

lemma set_butlast_distinct:
  "distinct xs \<Longrightarrow> xs \<noteq> [] \<Longrightarrow> set (butlast xs) = set xs - {last xs}"
  by (metis Diff_insert_absorb append_butlast_last_id distinct_butlast_notin list.set(1)
      list.set(2) set_append Un_insert_right sup_bot.right_neutral)

lemma remove1_map_inj:
  "inj_on f (insert x (set xs)) \<Longrightarrow> map f (remove1 x xs) = remove1 (f x) (map f xs)"
proof (induction xs)
  case (Cons y ys)
  have "inj_on f (insert x (set ys))" by (rule inj_on_subset [OF Cons.prems]) auto
  moreover have "f x = f y \<longleftrightarrow> x = y" using Cons.prems by (auto simp: inj_on_def)
  ultimately show ?case using Cons.IH by auto
qed simp

lemma find_unique:
  "x \<in> set xs \<Longrightarrow> P x \<Longrightarrow> (\<And>y. y \<in> set xs \<Longrightarrow> P y \<Longrightarrow> y = x) \<Longrightarrow> find P xs = Some x"
proof (induction xs)
  case (Cons y ys)
  show ?case
  proof (cases "P y")
    case True
    then show ?thesis using Cons.prems(3) [of y] by simp
  next
    case False
    then have "x \<in> set ys" using Cons.prems(1,2) by auto
    then have "find P ys = Some x" by (rule Cons.IH) (use Cons.prems(2,3) in auto)
    with False show ?thesis by simp
  qed
qed simp

lemma find_map: "find P (map f xs) = map_option f (find (\<lambda>x. P (f x)) xs)"
  by (induction xs) auto

lemma filter_remove1:
  assumes "distinct xs" and "\<And>y. y \<in> set xs \<Longrightarrow> P y \<longleftrightarrow> y \<noteq> x"
  shows "filter P xs = remove1 x xs"
proof -
  have "filter P xs = filter (\<lambda>y. y \<noteq> x) xs" using assms(2) by (auto intro: filter_cong)
  then show ?thesis
    by (simp add: distinct_remove1_removeAll [OF assms(1)] removeAll_filter_not_eq eq_commute)
qed

lemma remove1_last: "distinct xs \<Longrightarrow> xs \<noteq> [] \<Longrightarrow> remove1 (last xs) xs = butlast xs"
  by (metis append_butlast_last_id append_Nil2 distinct_butlast_notin remove1.simps
      remove1_append)

section \<open>Step relations\<close>

text \<open>A property that every step keeps is kept by every run.\<close>

locale step_invariant =
  fixes step :: "'c \<Rightarrow> 'c \<Rightarrow> bool" and inv :: "'c \<Rightarrow> bool"
  assumes step_keeps: "inv y \<Longrightarrow> step y y' \<Longrightarrow> inv y'"
begin

lemma runs_keep: "step\<^sup>*\<^sup>* y y' \<Longrightarrow> inv y \<Longrightarrow> inv y'"
  by (induction rule: rtranclp_induct) (blast intro: step_keeps)+

end

end
