(* ===== verification/Go_Strings.thy ===== *)
theory Go_Strings
  imports Go_Unicode
begin

text \<open>
  The functions of Go's \<open>strings\<close>, \<open>strconv\<close> and \<open>bufio\<close> packages that the program
  calls, as total functions on byte strings, with the lemmas the component theories need:
  how they act on strings of letters, digits, hyphens and dots.
\<close>

section \<open>Functions of package strings\<close>

definition TrimPrefix :: "string \<Rightarrow> string \<Rightarrow> string" where
  "TrimPrefix s p = (if prefix p s then drop (length p) s else s)"

definition TrimSuffix :: "string \<Rightarrow> string \<Rightarrow> string" where
  "TrimSuffix s p = (if suffix p s then take (length s - length p) s else s)"

definition CutSuffix :: "string \<Rightarrow> string \<Rightarrow> string \<times> bool" where
  "CutSuffix s p = (if suffix p s then (take (length s - length p) s, True) else (s, False))"

text \<open>Removing leading occurrences of any of the given (non-empty) byte sequences.\<close>

function trim_left :: "string list \<Rightarrow> string \<Rightarrow> string" where
  "trim_left ps s =
     (case find (\<lambda>p. p \<noteq> [] \<and> prefix p s) ps of
        None \<Rightarrow> s
      | Some p \<Rightarrow> trim_left ps (drop (length p) s))"
  by pat_completeness auto
termination
  by (relation "measure (\<lambda>(ps, s). length s)") (auto dest!: find_SomeD simp: prefix_def)

declare trim_left.simps [simp del]

definition TrimLeftSpace :: "string \<Rightarrow> string" where
  "TrimLeftSpace s = trim_left space_seqs s"

definition TrimRightSpace :: "string \<Rightarrow> string" where
  "TrimRightSpace s = rev (trim_left (map rev space_seqs) (rev s))"

definition TrimSpace :: "string \<Rightarrow> string" where
  "TrimSpace s = TrimRightSpace (TrimLeftSpace s)"

text \<open>\<open>strings.Fields\<close>: the maximal runs of bytes between white-space runes.\<close>

definition flush_field :: "string \<Rightarrow> string list" where
  "flush_field cur = (if cur = [] then [] else [cur])"

function fields_from :: "string \<Rightarrow> string \<Rightarrow> string list" where
  "fields_from cur s =
     (case s of
        [] \<Rightarrow> flush_field cur
      | c # cs \<Rightarrow>
          (case find (\<lambda>p. p \<noteq> [] \<and> prefix p s) space_seqs of
             Some p \<Rightarrow> flush_field cur @ fields_from [] (drop (length p) s)
           | None \<Rightarrow> fields_from (cur @ [c]) cs))"
  by pat_completeness auto
termination
  by (relation "measure (\<lambda>(cur, s). length s)")
    (auto dest!: find_SomeD simp: prefix_def neq_Nil_conv)

declare fields_from.simps [simp del]

definition Fields :: "string \<Rightarrow> string list" where
  "Fields s = fields_from [] s"

text \<open>\<open>strings.Split\<close> at a one-byte separator.\<close>

fun split_from :: "char \<Rightarrow> string \<Rightarrow> string \<Rightarrow> string list" where
  "split_from d cur [] = [cur]"
| "split_from d cur (c # cs) =
     (if c = d then cur # split_from d [] cs else split_from d (cur @ [c]) cs)"

definition Split :: "string \<Rightarrow> char \<Rightarrow> string list" where
  "Split s d = split_from d [] s"

text \<open>\<open>strings.IndexByte\<close> and \<open>strings.LastIndexByte\<close>; \<open>None\<close> stands for -1.\<close>

fun IndexByte :: "string \<Rightarrow> char \<Rightarrow> nat option" where
  "IndexByte [] d = None"
| "IndexByte (c # cs) d = (if c = d then Some 0 else map_option Suc (IndexByte cs d))"

definition LastIndexByte :: "string \<Rightarrow> char \<Rightarrow> nat option" where
  "LastIndexByte s d = map_option (\<lambda>i. length s - Suc i) (IndexByte (rev s) d)"

definition is_ascii :: "string \<Rightarrow> bool" where
  "is_ascii s = list_all (\<lambda>c. byte c < 128) s"

definition lower_char :: "char \<Rightarrow> char" where
  "lower_char c = char_of (ascii_lower (byte c))"

text \<open>
  \<open>strings.ToLower\<close>: bytewise on ASCII strings, \<open>strings.Map(unicode.ToLower, s)\<close> otherwise
  (where an invalid byte becomes the encoding of the replacement rune).
\<close>

definition ToLower :: "string \<Rightarrow> string" where
  "ToLower s =
     (if is_ascii s then map lower_char s
      else concat (map (\<lambda>r. EncodeRune (unicode_ToLower r)) (runes s)))"

section \<open>Decimal numbers\<close>

text \<open>\<open>strconv.FormatUint\<close> and \<open>strconv.Itoa\<close>, base 10.\<close>

definition digit_char :: "nat \<Rightarrow> char" where
  "digit_char d = char_of (48 + d)"

fun FormatUint :: "nat \<Rightarrow> string" where
  "FormatUint n =
     (if n < 10 then [digit_char n] else FormatUint (n div 10) @ [digit_char (n mod 10)])"

declare FormatUint.simps [simp del]

definition is_digit :: "char \<Rightarrow> bool" where
  "is_digit c \<longleftrightarrow> 48 \<le> byte c \<and> byte c \<le> 57"

definition digits_value :: "string \<Rightarrow> nat" where
  "digits_value s = foldl (\<lambda>n c. n * 10 + (byte c - 48)) 0 s"

section \<open>Lines\<close>

text \<open>
  \<open>bufio.ScanLines\<close>: the text up to each newline, without one trailing carriage return; a
  last line without a newline counts when it is not empty. The scanner's buffer holds at most
  \<open>limit\<close> bytes, so a line of \<open>limit\<close> or more bytes (before the newline) stops the scan
  with \<open>bufio.ErrTooLong\<close>.
\<close>

definition drop_cr :: "string \<Rightarrow> string" where
  "drop_cr s = TrimSuffix s [char_of (13::nat)]"

definition raw_lines :: "string \<Rightarrow> string list" where
  "raw_lines s =
     (let ls = Split s (char_of (10::nat)) in if last ls = [] then butlast ls else ls)"

datatype scan = ScanOK "string list" | ScanTooLong "string list"

fun scan_lines :: "nat \<Rightarrow> string list \<Rightarrow> scan" where
  "scan_lines limit [] = ScanOK []"
| "scan_lines limit (l # ls) =
     (if limit \<le> length l then ScanTooLong []
      else case scan_lines limit ls of
             ScanOK xs \<Rightarrow> ScanOK (drop_cr l # xs)
           | ScanTooLong xs \<Rightarrow> ScanTooLong (drop_cr l # xs))"

section \<open>Printable ASCII\<close>

definition graphic :: "char \<Rightarrow> bool" where
  "graphic c \<longleftrightarrow> 33 \<le> byte c \<and> byte c \<le> 126"

lemma space_seqs_not_graphic:
  "list_all (\<lambda>p. p \<noteq> [] \<and> \<not> graphic (hd p) \<and> \<not> graphic (last p)) space_seqs"
  by (simp add: space_seqs_def graphic_def)

lemma find_space_graphic:
  assumes "graphic c"
  shows "find (\<lambda>p. p \<noteq> [] \<and> prefix p (c # cs)) space_seqs = None"
proof -
  have "\<not> prefix p (c # cs)" if "p \<in> set space_seqs" for p
    using bspec [OF space_seqs_not_graphic [unfolded list_all_iff] that] assms
    by (auto simp: prefix_Cons)
  then show ?thesis by (simp add: find_None_iff_all)
qed

lemma find_rev_space_graphic:
  assumes "graphic c"
  shows "find (\<lambda>p. p \<noteq> [] \<and> prefix p (c # cs)) (map rev space_seqs) = None"
proof -
  have "\<not> prefix (rev p) (c # cs)" if "p \<in> set space_seqs" for p
    using bspec [OF space_seqs_not_graphic [unfolded list_all_iff] that] assms
    by (cases p rule: rev_cases) auto
  then show ?thesis by (auto simp: find_None_iff_all)
qed

lemma TrimLeftSpace_graphic: "graphic c \<Longrightarrow> TrimLeftSpace (c # cs) = c # cs"
  by (simp add: TrimLeftSpace_def trim_left.simps find_space_graphic)

lemma TrimRightSpace_graphic: "graphic c \<Longrightarrow> TrimRightSpace (cs @ [c]) = cs @ [c]"
  by (simp add: TrimRightSpace_def trim_left.simps find_rev_space_graphic)

lemma trim_left_Nil [simp]: "trim_left ps [] = []"
  by (subst trim_left.simps) (auto split: option.splits dest: find_SomeD)

lemma TrimSpace_Nil [simp]: "TrimSpace [] = []"
  by (simp add: TrimSpace_def TrimLeftSpace_def TrimRightSpace_def)

lemma trim_left_suffix: "suffix (trim_left ps s) s"
proof (induction ps s rule: trim_left.induct)
  case (1 ps s)
  show ?case
  proof (cases "find (\<lambda>p. p \<noteq> [] \<and> prefix p s) ps")
    case (Some p)
    with 1 have "suffix (trim_left ps (drop (length p) s)) (drop (length p) s)" by blast
    with Some show ?thesis
      by (simp add: trim_left.simps [of ps s]) (meson suffix_drop suffix_order.trans)
  qed (simp add: trim_left.simps [of ps s])
qed

lemma TrimRightSpace_prefix: "prefix (TrimRightSpace s) s"
  using trim_left_suffix [of "map rev space_seqs" "rev s"]
  by (simp add: TrimRightSpace_def suffix_to_prefix)

lemma TrimRightSpace_hd:
  "TrimRightSpace (c # cs) = [] \<or> hd (TrimRightSpace (c # cs)) = c"
  using TrimRightSpace_prefix [of "c # cs"] by (auto simp: prefix_Cons)

lemma TrimSpace_ends:
  assumes "s \<noteq> []" "graphic (hd s)" "graphic (last s)"
  shows "TrimSpace s = s"
proof -
  have "TrimLeftSpace s = s" using assms by (cases s) (auto simp: TrimLeftSpace_graphic)
  moreover have "TrimRightSpace s = s"
    using assms TrimRightSpace_graphic [of "last s" "butlast s"] by simp
  ultimately show ?thesis by (simp add: TrimSpace_def)
qed

lemma TrimSpace_graphic: "list_all graphic s \<Longrightarrow> TrimSpace s = s"
  by (cases "s = []") (auto intro!: TrimSpace_ends simp: list_all_iff)

lemma fields_from_graphic:
  "list_all graphic s \<Longrightarrow> fields_from cur (s @ t) = fields_from (cur @ s) t"
proof (induction s arbitrary: cur)
  case (Cons c s)
  then show ?case
    by (simp add: fields_from.simps [of cur "c # s @ t"] find_space_graphic)
qed simp

lemma fields_from_Nil [simp]: "fields_from cur [] = flush_field cur"
  by (simp add: fields_from.simps)

lemma fields_from_blank: "fields_from cur (CHR '' '' # t) = flush_field cur @ fields_from [] t"
  by (subst fields_from.simps) (simp add: space_seqs_def)

lemma Fields_one: "list_all graphic s \<Longrightarrow> s \<noteq> [] \<Longrightarrow> Fields s = [s]"
  using fields_from_graphic [of s "[]" "[]"] by (simp add: Fields_def flush_field_def)

lemma Fields_two:
  assumes "list_all graphic a" "a \<noteq> []" "list_all graphic b" "b \<noteq> []"
  shows "Fields (a @ CHR '' '' # b) = [a, b]"
  using assms fields_from_graphic [of b "[]" "[]"]
  by (simp add: Fields_def fields_from_graphic fields_from_blank flush_field_def)

text \<open>Evaluation of characters by the simplifier.\<close>

lemmas char_eval = char_of_def bit_0 lower_char_def ascii_lower_def

section \<open>Letters, digits and hyphens\<close>

definition ldh :: "char \<Rightarrow> bool" where
  "ldh c \<longleftrightarrow> (97 \<le> byte c \<and> byte c \<le> 122) \<or> (48 \<le> byte c \<and> byte c \<le> 57) \<or> c = CHR ''-''"

definition host_char :: "char \<Rightarrow> bool" where
  "host_char c \<longleftrightarrow> ldh c \<or> c = CHR ''.''"

lemma ldh_graphic [ldh_chars]: "ldh c \<Longrightarrow> graphic c"
  by (auto simp: ldh_def graphic_def)

lemma host_char_graphic [ldh_chars]: "host_char c \<Longrightarrow> graphic c"
  by (auto simp: host_char_def graphic_def ldh_def)

lemma ldh_not_dot [ldh_chars]: "ldh c \<Longrightarrow> c \<noteq> CHR ''.''"
  by (auto simp: ldh_def)

lemma host_char_lower [ldh_chars]: "host_char c \<Longrightarrow> lower_char c = c"
  by (auto simp: host_char_def lower_char_def ldh_def ascii_lower_def)

lemma lower_char_dot [simp]: "lower_char (CHR ''.'') = CHR ''.''"
  by code_simp

lemma byte_lower_char: "byte (lower_char c) = ascii_lower (byte c)"
proof -
  have "byte c < 256" by simp
  then have "ascii_lower (byte c) < 256" by (simp add: ascii_lower_def)
  then show ?thesis by (simp add: lower_char_def)
qed

lemma lower_char_idem [simp]: "lower_char (lower_char c) = lower_char c"
  by (simp add: lower_char_def [of "lower_char c"] byte_lower_char)
    (simp add: lower_char_def ascii_lower_def)

lemma lower_char_eq_dot [simp]: "lower_char c = CHR ''.'' \<longleftrightarrow> c = CHR ''.''"
proof
  assume "lower_char c = CHR ''.''"
  then have "byte (lower_char c) = 46" by simp
  then have "byte c = 46" by (auto simp: byte_lower_char ascii_lower_def split: if_splits)
  then have "byte c = byte (CHR ''.'')" by simp
  then show "c = CHR ''.''" by (simp only: of_char_eq_iff)
qed simp

lemma lower_char_graphic [simp]: "graphic (lower_char c) = graphic c"
  by (auto simp: graphic_def byte_lower_char ascii_lower_def)

lemma graphic_is_ascii: "list_all graphic s \<Longrightarrow> is_ascii s"
  by (auto simp: is_ascii_def graphic_def list_all_iff)

lemma ToLower_ascii: "is_ascii s \<Longrightarrow> ToLower s = map lower_char s"
  by (simp add: ToLower_def)

lemma ToLower_graphic: "list_all graphic s \<Longrightarrow> ToLower s = map lower_char s"
  by (simp add: ToLower_ascii graphic_is_ascii)

lemma ToLower_host: "list_all host_char s \<Longrightarrow> ToLower s = s"
proof -
  assume h: "list_all host_char s"
  then have "list_all graphic s" by (auto simp: list_all_iff ldh_chars)
  moreover have "map lower_char s = s"
    using h by (induction s) (auto simp: ldh_chars)
  ultimately show ?thesis by (simp add: ToLower_graphic)
qed

lemma TrimSuffix_dot: "TrimSuffix (s @ ''.'') ''.'' = s"
  by (simp add: TrimSuffix_def)

lemma TrimSuffix_no_dot: "s = [] \<or> last s \<noteq> CHR ''.'' \<Longrightarrow> TrimSuffix s ''.'' = s"
  by (auto simp: TrimSuffix_def suffix_def)

section \<open>Splitting and joining\<close>

fun join_on :: "char \<Rightarrow> string list \<Rightarrow> string" where
  "join_on d [] = []"
| "join_on d [x] = x"
| "join_on d (x # y # zs) = x @ d # join_on d (y # zs)"

lemma split_from_not_Nil [simp]: "split_from d cur s \<noteq> []"
  by (induction d cur s rule: split_from.induct) auto

lemma split_from_no_sep:
  "d \<notin> set a \<Longrightarrow> split_from d cur (a @ t) = split_from d (cur @ a) t"
  by (induction a arbitrary: cur) auto

lemma join_split_from: "join_on d (split_from d cur s) = cur @ s"
proof (induction d cur s rule: split_from.induct)
  case (2 d cur c cs)
  then show ?case by (cases "split_from d [] cs") auto
qed simp

lemma join_Split: "join_on d (Split s d) = s"
  by (simp add: Split_def join_split_from)

lemma split_from_pieces: "d \<notin> set cur \<Longrightarrow> p \<in> set (split_from d cur s) \<Longrightarrow> d \<notin> set p"
  by (induction d cur s rule: split_from.induct) (auto split: if_splits)

lemma Split_join:
  "ls \<noteq> [] \<Longrightarrow> \<forall>l \<in> set ls. d \<notin> set l \<Longrightarrow> Split (join_on d ls) d = ls"
proof (induction ls rule: join_on.induct)
  case (2 d x)
  then show ?case using split_from_no_sep [of d x "[]" "[]"] by (simp add: Split_def)
next
  case (3 d x y zs)
  then show ?case by (simp add: Split_def split_from_no_sep)
qed simp

lemma set_join_on: "set (join_on d ls) \<subseteq> insert d (\<Union> (set ` set ls))"
  by (induction d ls rule: join_on.induct) auto

lemma last_join_on:
  "ls \<noteq> [] \<Longrightarrow> last ls \<noteq> [] \<Longrightarrow> join_on d ls \<noteq> [] \<and> last (join_on d ls) = last (last ls)"
  by (induction d ls rule: join_on.induct) auto

lemma hd_join_on: "ls \<noteq> [] \<Longrightarrow> hd ls \<noteq> [] \<Longrightarrow> hd (join_on d ls) = hd (hd ls)"
  by (induction d ls rule: join_on.induct) auto

section \<open>Searching for a byte\<close>

lemma IndexByte_None: "IndexByte s d = None \<longleftrightarrow> d \<notin> set s"
  by (induction s) auto

lemma IndexByte_Some:
  "IndexByte s d = Some i \<Longrightarrow> i < length s \<and> s ! i = d \<and> d \<notin> set (take i s)"
  by (induction s arbitrary: i) (auto split: if_splits)

lemma IndexByte_split: "IndexByte s d = Some i \<Longrightarrow> s = take i s @ d # drop (Suc i) s"
  by (drule IndexByte_Some) (metis id_take_nth_drop)

lemma IndexByte_append: "d \<notin> set a \<Longrightarrow> IndexByte (a @ d # t) d = Some (length a)"
  by (induction a) auto

section \<open>Decimal round trip\<close>

lemma byte_digit_char: "d < 10 \<Longrightarrow> byte (digit_char d) = 48 + d"
  by (simp add: digit_char_def)

lemma FormatUint_digits: "list_all is_digit (FormatUint n)"
proof (induction n rule: FormatUint.induct)
  case (1 n)
  have "n mod 10 \<le> 9" by simp
  with 1 show ?case
    by (cases "n < 10") (simp_all add: FormatUint.simps [of n] is_digit_def byte_digit_char)
qed

lemma digits_value_snoc: "digits_value (s @ [c]) = digits_value s * 10 + (byte c - 48)"
  by (simp add: digits_value_def)

lemma digits_value_FormatUint: "digits_value (FormatUint n) = n"
proof (induction n rule: FormatUint.induct)
  case (1 n)
  then show ?case
    by (cases "n < 10")
      (simp_all add: FormatUint.simps [of n] digits_value_snoc byte_digit_char,
       simp add: digits_value_def byte_digit_char)
qed

lemma FormatUint_inj: "FormatUint m = FormatUint n \<longleftrightarrow> m = n"
  by (metis digits_value_FormatUint)

lemma FormatUint_not_Nil [simp]: "FormatUint n \<noteq> []"
  by (simp add: FormatUint.simps [of n])

end
