(* ===== verification/Dns_Msg.thy ===== *)
theory Dns_Msg
  imports Go_Strings
begin

text \<open>
  The values of \<open>codeberg.org/miekg/dns\<close> that the program builds and reads: messages, their
  four sections and resource records, with the fields the program touches kept at their wire
  width, and the cache key of a question (\<open>internal/cache/key.go\<close>). Header fields the
  program only carries along are one opaque component.
\<close>

section \<open>Records and messages\<close>

record soa =
  soa_Ns :: string
  soa_Mbox :: string
  soa_Serial :: u32
  soa_Refresh :: u32
  soa_Retry :: u32
  soa_Expire :: u32
  soa_Minttl :: u32

text \<open>The concrete Go type of a record decides its type code (\<open>dns.RRToType\<close>).\<close>

datatype rdata =
    RD_A string
  | RD_AAAA string
  | RD_NS string
  | RD_SOA soa
  | RD_Other u16 string

record rr =
  rr_Name :: string
  rr_Class :: u16
  rr_TTL :: u32
  rr_Data :: rdata

definition TypeA :: u16 where "TypeA = 1"
definition TypeNS :: u16 where "TypeNS = 2"
definition TypeSOA :: u16 where "TypeSOA = 6"
definition TypeAAAA :: u16 where "TypeAAAA = 28"
definition ClassINET :: u16 where "ClassINET = 1"

fun rdata_type :: "rdata \<Rightarrow> u16" where
  "rdata_type (RD_A _) = TypeA"
| "rdata_type (RD_AAAA _) = TypeAAAA"
| "rdata_type (RD_NS _) = TypeNS"
| "rdata_type (RD_SOA _) = TypeSOA"
| "rdata_type (RD_Other t _) = t"

definition RRToType :: "rr \<Rightarrow> u16" where
  "RRToType r = rdata_type (rr_Data r)"

record msg =
  msg_ID :: u16
  msg_Response :: bool
  msg_Truncated :: bool
  msg_Rcode :: u16
  msg_Rest :: string
  msg_Question :: "rr list"
  msg_Answer :: "rr list"
  msg_Ns :: "rr list"
  msg_Extra :: "rr list"
  msg_Data :: "string option"

definition RcodeSuccess :: u16 where "RcodeSuccess = 0"
definition RcodeServerFailure :: u16 where "RcodeServerFailure = 2"
definition RcodeNameError :: u16 where "RcodeNameError = 3"
definition RcodeRefused :: u16 where "RcodeRefused = 5"

text \<open>\<open>new(dns.Msg)\<close>.\<close>

definition new_Msg :: msg where
  "new_Msg = \<lparr>msg_ID = 0, msg_Response = False, msg_Truncated = False, msg_Rcode = 0,
     msg_Rest = [], msg_Question = [], msg_Answer = [], msg_Ns = [], msg_Extra = [],
     msg_Data = None\<rparr>"

section \<open>The cache key\<close>

definition Key :: "rr \<Rightarrow> string" where
  "Key q = ToLower (rr_Name q) @ ''|'' @ FormatUint (unat (RRToType q))
     @ ''|'' @ FormatUint (unat (rr_Class q))"

text \<open>Two questions are the same question up to the case of the name.\<close>

definition same_question :: "rr \<Rightarrow> rr \<Rightarrow> bool" where
  "same_question q r \<longleftrightarrow>
     ToLower (rr_Name q) = ToLower (rr_Name r) \<and> RRToType q = RRToType r
     \<and> rr_Class q = rr_Class r"

lemma append_sep_inj:
  assumes "d \<notin> set t" "d \<notin> set u"
  shows "a @ d # t = b @ d # u \<longleftrightarrow> a = b \<and> t = u"
proof
  assume eq: "a @ d # t = b @ d # u"
  then consider us where "a = b @ us" "us @ d # t = d # u" | us where "a @ us = b" "d # t = us @ d # u"
    by (auto simp: append_eq_append_conv2)
  then show "a = b \<and> t = u"
  proof cases
    case 1
    then show ?thesis using assms by (cases us) auto
  next
    case 2
    then show ?thesis using assms by (cases us) auto
  qed
qed simp

lemma FormatUint_no_bar: "CHR ''|'' \<notin> set (FormatUint n)"
  using FormatUint_digits [of n] by (auto simp: list_all_iff is_digit_def)

lemma Key_eq_iff: "Key q = Key r \<longleftrightarrow> same_question q r"
proof -
  have "Key q = Key r \<longleftrightarrow>
      (ToLower (rr_Name q) @ CHR ''|'' # FormatUint (unat (RRToType q)))
        @ CHR ''|'' # FormatUint (unat (rr_Class q))
      = (ToLower (rr_Name r) @ CHR ''|'' # FormatUint (unat (RRToType r)))
        @ CHR ''|'' # FormatUint (unat (rr_Class r))"
    by (simp add: Key_def)
  then show ?thesis
    by (simp add: append_sep_inj FormatUint_no_bar FormatUint_inj same_question_def word_unat_eq_iff
        del: append_assoc)
qed

section \<open>Properties\<close>

text \<open>Two questions share a cache (and coalescing) key exactly when their lower-cased names,
  their types and their classes agree: no two different questions collide, even when a name
  contains the separator.\<close>

theorem Key_injective: "Key q = Key r \<longleftrightarrow> same_question q r"
  by (rule Key_eq_iff)

end
