(* ===== verification/Cache_LRU.thy ===== *)
theory Cache_LRU
  imports Dns_Msg
begin

text \<open>
  The response cache (\<open>internal/cache/lru.go\<close>): a doubly linked list of elements, most
  recently used first, with a map from key to element. Elements are identified by the order of
  their allocation; \<open>l_val\<close> is the \<open>Value\<close> field of every element. The interface locale
  \<open>dns_cache\<close> holds what the cache stage relies on; the linked structure is shown to refine an
  association list ordered by recency and to satisfy the interface.
\<close>

section \<open>Messages are copied, copies are aged\<close>

text \<open>\<open>rr.Clone()\<close> is a copy of the record; as a value it is the record.\<close>

definition cloneRRs :: "rr list \<Rightarrow> rr list" where
  "cloneRRs src = map (\<lambda>r. r) src"

definition CloneMsg :: "msg \<Rightarrow> msg" where
  "CloneMsg m =
     m\<lparr>msg_Data := None, msg_Question := cloneRRs (msg_Question m),
       msg_Answer := cloneRRs (msg_Answer m), msg_Ns := cloneRRs (msg_Ns m),
       msg_Extra := cloneRRs (msg_Extra m)\<rparr>"

definition age_rr :: "u32 \<Rightarrow> rr \<Rightarrow> rr" where
  "age_rr by r = r\<lparr>rr_TTL := (if by < rr_TTL r then rr_TTL r - by else 0)\<rparr>"

definition decrementTTLs :: "msg \<Rightarrow> u32 \<Rightarrow> msg" where
  "decrementTTLs m by =
     m\<lparr>msg_Question := map (age_rr by) (msg_Question m),
       msg_Answer := map (age_rr by) (msg_Answer m),
       msg_Ns := map (age_rr by) (msg_Ns m), msg_Extra := map (age_rr by) (msg_Extra m)\<rparr>"

section \<open>The metrics observer\<close>

datatype observer = NopObserver | CacheObserver int nat

fun obs_SetEntries :: "observer \<Rightarrow> int \<Rightarrow> observer" where
  "obs_SetEntries NopObserver n = NopObserver"
| "obs_SetEntries (CacheObserver _ ev) n = CacheObserver n ev"

fun obs_IncEvictions :: "observer \<Rightarrow> observer" where
  "obs_IncEvictions NopObserver = NopObserver"
| "obs_IncEvictions (CacheObserver en ev) = CacheObserver en (Suc ev)"

section \<open>The cache\<close>

record 'm entry =
  e_key :: string
  e_response :: 'm
  e_storedAt :: int
  e_expiresAt :: int

record 'm LRU =
  l_capacity :: int
  l_list :: "nat list"
  l_val :: "nat \<Rightarrow> 'm entry"
  l_next :: nat
  l_entries :: "string \<rightharpoonup> nat"
  l_observer :: observer

text \<open>The operations of \<open>container/list\<close> that are used.\<close>

definition list_MoveToFront :: "nat \<Rightarrow> nat list \<Rightarrow> nat list" where
  "list_MoveToFront el xs = (if el \<in> set xs then el # remove1 el xs else xs)"

definition list_Remove :: "nat \<Rightarrow> nat list \<Rightarrow> nat list" where
  "list_Remove el xs = remove1 el xs"

definition list_Back :: "nat list \<Rightarrow> nat option" where
  "list_Back xs = (if xs = [] then None else Some (last xs))"

text \<open>The type of the stored response is a parameter of the list structure: a message value here,
  a pointer in the theory on aliasing.\<close>

definition zero_entry :: "'m \<Rightarrow> 'm entry" where
  "zero_entry z = \<lparr>e_key = [], e_response = z, e_storedAt = 0, e_expiresAt = 0\<rparr>"

definition new_lru :: "'m \<Rightarrow> int \<Rightarrow> 'm LRU" where
  "new_lru z capacity =
     \<lparr>l_capacity = (if capacity < 1 then 1 else capacity), l_list = [],
      l_val = (\<lambda>_. zero_entry z), l_next = 0, l_entries = Map.empty, l_observer = NopObserver\<rparr>"

definition NewLRU :: "int \<Rightarrow> msg LRU" where
  "NewLRU capacity = new_lru new_Msg capacity"

definition SetObserver :: "'m LRU \<Rightarrow> observer option \<Rightarrow> 'm LRU" where
  "SetObserver c obs =
     (case obs of None \<Rightarrow> c\<lparr>l_observer := NopObserver\<rparr> | Some o' \<Rightarrow> c\<lparr>l_observer := o'\<rparr>)"

definition Len :: "'m LRU \<Rightarrow> nat" where
  "Len c = length (l_list c)"

definition Capacity :: "'m LRU \<Rightarrow> int" where
  "Capacity c = l_capacity c"

text \<open>The eviction loop of \<open>Store\<close>.\<close>

function evict :: "'m LRU \<Rightarrow> 'm LRU" where
  "evict c =
     (if l_capacity c < int (length (l_list c)) then
        (case list_Back (l_list c) of
           None \<Rightarrow> c
         | Some oldest \<Rightarrow>
             evict (c\<lparr>l_list := list_Remove oldest (l_list c),
                      l_entries := (l_entries c)(e_key (l_val c oldest) := None),
                      l_observer := obs_IncEvictions (l_observer c)\<rparr>))
      else c)"
  by pat_completeness auto
termination
  by (relation "measure (\<lambda>c. length (l_list c))")
    (auto simp: list_Back_def list_Remove_def length_remove1 split: if_splits)

declare evict.simps [simp del]

text \<open>The part of \<open>Store\<close> after the entry has been built, under the lock.\<close>

definition lru_put :: "'m LRU \<Rightarrow> 'm entry \<Rightarrow> 'm LRU" where
  "lru_put c e =
     (case l_entries c (e_key e) of
        Some el \<Rightarrow> c\<lparr>l_list := list_MoveToFront el (l_list c), l_val := (l_val c)(el := e)\<rparr>
      | None \<Rightarrow>
          let el = l_next c;
              c1 = c\<lparr>l_next := Suc el, l_val := (l_val c)(el := e),
                     l_list := el # l_list c, l_entries := (l_entries c)(e_key e \<mapsto> el)\<rparr>;
              c2 = evict c1
          in c2\<lparr>l_observer := obs_SetEntries (l_observer c2) (int (length (l_list c2)))\<rparr>)"

definition new_entry :: "string \<Rightarrow> 'm \<Rightarrow> int \<Rightarrow> int \<Rightarrow> 'm entry" where
  "new_entry key resp ttl now =
     \<lparr>e_key = key, e_response = resp, e_storedAt = now, e_expiresAt = now + ttl\<rparr>"

definition Store :: "msg LRU \<Rightarrow> string \<Rightarrow> msg \<Rightarrow> int \<Rightarrow> int \<Rightarrow> msg LRU" where
  "Store c key m ttl now = lru_put c (new_entry key (CloneMsg m) ttl now)"

text \<open>\<open>uint32(now.Sub(e.storedAt) / time.Second)\<close>.\<close>

definition entry_age :: "int \<Rightarrow> 'm entry \<Rightarrow> u32" where
  "entry_age now e = word_of_int (go_quot (time_Sub now (e_storedAt e)) time_Second)"

text \<open>The part of \<open>Get\<close> up to the promotion of a live element.\<close>

definition lru_find :: "'m LRU \<Rightarrow> string \<Rightarrow> int \<Rightarrow> 'm entry option \<times> 'm LRU" where
  "lru_find c key now =
     (case l_entries c key of
        None \<Rightarrow> (None, c)
      | Some el \<Rightarrow>
          let e = l_val c el in
          if e_expiresAt e < now then
            let l' = list_Remove el (l_list c) in
            (None, c\<lparr>l_list := l', l_entries := (l_entries c)(key := None),
                     l_observer := obs_SetEntries (obs_IncEvictions (l_observer c))
                       (int (length l'))\<rparr>)
          else (Some e, c\<lparr>l_list := list_MoveToFront el (l_list c)\<rparr>))"

definition Get :: "msg LRU \<Rightarrow> string \<Rightarrow> int \<Rightarrow> msg option \<times> msg LRU" where
  "Get c key now =
     (case lru_find c key now of
        (None, c') \<Rightarrow> (None, c')
      | (Some e, c') \<Rightarrow>
          (Some (decrementTTLs (CloneMsg (e_response e)) (entry_age now e)), c'))"

section \<open>The abstract cache: entries by recency\<close>

definition spec_store :: "int \<Rightarrow> 'm entry \<Rightarrow> 'm entry list \<Rightarrow> 'm entry list" where
  "spec_store cap e es = take (nat cap) (e # filter (\<lambda>x. e_key x \<noteq> e_key e) es)"

definition spec_find :: "string \<Rightarrow> int \<Rightarrow> 'm entry list \<Rightarrow> 'm entry option \<times> 'm entry list" where
  "spec_find key now es =
     (case find (\<lambda>x. e_key x = key) es of
        None \<Rightarrow> (None, es)
      | Some e \<Rightarrow>
          (let rest = filter (\<lambda>x. e_key x \<noteq> key) es in
           if e_expiresAt e < now then (None, rest) else (Some e, e # rest)))"

definition served :: "int \<Rightarrow> msg entry \<Rightarrow> msg" where
  "served now e = decrementTTLs (CloneMsg (e_response e)) (entry_age now e)"

definition spec_get :: "string \<Rightarrow> int \<Rightarrow> msg entry list \<Rightarrow> msg option \<times> msg entry list" where
  "spec_get key now es =
     (case spec_find key now es of (r, es') \<Rightarrow> (map_option (served now) r, es'))"

definition lru_abs :: "'m LRU \<Rightarrow> 'm entry list" where
  "lru_abs c = map (l_val c) (l_list c)"

definition lru_inv :: "'m LRU \<Rightarrow> bool" where
  "lru_inv c \<longleftrightarrow>
     distinct (l_list c) \<and> 1 \<le> l_capacity c \<and> int (length (l_list c)) \<le> l_capacity c
     \<and> (\<forall>el \<in> set (l_list c). el < l_next c)
     \<and> (\<forall>k el. l_entries c k = Some el \<longleftrightarrow> el \<in> set (l_list c) \<and> e_key (l_val c el) = k)"

lemma lru_invI:
  assumes "distinct (l_list c)" "1 \<le> l_capacity c" "int (length (l_list c)) \<le> l_capacity c"
    and "\<And>el. el \<in> set (l_list c) \<Longrightarrow> el < l_next c"
    and "\<And>k el. l_entries c k = Some el \<longleftrightarrow> el \<in> set (l_list c) \<and> e_key (l_val c el) = k"
  shows "lru_inv c"
  using assms by (simp add: lru_inv_def)

lemma lru_invD:
  assumes "lru_inv c"
  shows "distinct (l_list c)" "1 \<le> l_capacity c" "int (length (l_list c)) \<le> l_capacity c"
    and "\<And>el. el \<in> set (l_list c) \<Longrightarrow> el < l_next c"
    and "\<And>k el. l_entries c k = Some el \<longleftrightarrow> el \<in> set (l_list c) \<and> e_key (l_val c el) = k"
  using assms by (auto simp: lru_inv_def)

lemma lru_inv_unique:
  assumes "lru_inv c" "l_entries c k = Some el" "x \<in> set (l_list c)"
  shows "e_key (l_val c x) = k \<longleftrightarrow> x = el"
proof
  assume "e_key (l_val c x) = k"
  then have "l_entries c k = Some x" using lru_invD(5) [OF assms(1)] assms(3) by simp
  then show "x = el" using assms(2) by simp
qed (use lru_invD(5) [OF assms(1), of k el] assms(2) in simp)

lemma lru_inv_absent:
  assumes "lru_inv c" "l_entries c k = None" "x \<in> set (l_list c)"
  shows "e_key (l_val c x) \<noteq> k"
  using lru_invD(5) [OF assms(1), of k x] assms(2,3) by auto

lemma lru_keys_distinct: "lru_inv c \<Longrightarrow> distinct (map e_key (lru_abs c))"
proof -
  assume inv: "lru_inv c"
  have "inj_on (\<lambda>el. e_key (l_val c el)) (set (l_list c))"
  proof (rule inj_onI)
    fix x y
    assume x: "x \<in> set (l_list c)" and y: "y \<in> set (l_list c)"
      and eq: "e_key (l_val c x) = e_key (l_val c y)"
    have "l_entries c (e_key (l_val c y)) = Some y" using lru_invD(5) [OF inv] y by simp
    from lru_inv_unique [OF inv this x] eq show "x = y" by simp
  qed
  then show ?thesis
    by (simp add: lru_abs_def distinct_map lru_invD(1) [OF inv] comp_def)
qed

lemma entries_None_iff:
  assumes "lru_inv c"
  shows "l_entries c k = None \<longleftrightarrow> k \<notin> e_key ` set (lru_abs c)"
proof
  assume "l_entries c k = None"
  then show "k \<notin> e_key ` set (lru_abs c)"
    using lru_inv_absent [OF assms] by (auto simp: lru_abs_def)
next
  assume "k \<notin> e_key ` set (lru_abs c)"
  then have "l_entries c k \<noteq> Some el" for el
    using lru_invD(5) [OF assms, of k el] by (auto simp: lru_abs_def)
  then show "l_entries c k = None" by (cases "l_entries c k") auto
qed

section \<open>Lookups see the abstract cache\<close>

lemma abs_find_Some:
  assumes "lru_inv c" "l_entries c k = Some el"
  shows "find (\<lambda>x. e_key x = k) (lru_abs c) = Some (l_val c el)"
proof -
  have "find (\<lambda>x. e_key (l_val c x) = k) (l_list c) = Some el"
    by (rule find_unique)
      (use lru_invD(5) [OF assms(1), of k el] assms(2) lru_inv_unique [OF assms] in auto)
  then show ?thesis by (simp add: lru_abs_def find_map)
qed

lemma abs_find_None:
  assumes "lru_inv c" "l_entries c k = None"
  shows "find (\<lambda>x. e_key x = k) (lru_abs c) = None"
  using lru_inv_absent [OF assms] by (auto simp: lru_abs_def find_None_iff_all)

lemma abs_filter_Some:
  assumes "lru_inv c" "l_entries c k = Some el"
  shows "filter (\<lambda>x. e_key x \<noteq> k) (lru_abs c) = map (l_val c) (remove1 el (l_list c))"
proof -
  have "filter (\<lambda>x. e_key (l_val c x) \<noteq> k) (l_list c) = remove1 el (l_list c)"
    by (rule filter_remove1 [OF lru_invD(1) [OF assms(1)]]) (simp add: lru_inv_unique [OF assms])
  then show ?thesis by (simp add: lru_abs_def filter_map comp_def)
qed

lemma abs_filter_None:
  assumes "lru_inv c" "l_entries c k = None"
  shows "filter (\<lambda>x. e_key x \<noteq> k) (lru_abs c) = lru_abs c"
  using lru_inv_absent [OF assms] by (auto simp: lru_abs_def intro!: filter_True)

lemma map_val_frame: "el \<notin> set xs \<Longrightarrow> map (v(el := e)) xs = map v xs"
  by auto

lemma set_MoveToFront [simp]: "distinct xs \<Longrightarrow> set (list_MoveToFront el xs) = set xs"
  by (auto simp: list_MoveToFront_def set_remove1_eq)

lemma distinct_MoveToFront [simp]: "distinct xs \<Longrightarrow> distinct (list_MoveToFront el xs)"
  by (auto simp: list_MoveToFront_def)

lemma length_MoveToFront [simp]: "length (list_MoveToFront el xs) = length xs"
  by (auto simp: list_MoveToFront_def length_remove1) (metis Suc_pred length_pos_if_in_set)

section \<open>Eviction\<close>

lemma evict_fits: "int (length (l_list c)) \<le> l_capacity c \<Longrightarrow> evict c = c"
  by (simp add: evict.simps [of c])

lemma evict_one:
  assumes "distinct (l_list c)" "int (length (l_list c)) = l_capacity c + 1" "0 \<le> l_capacity c"
  shows "evict c = c\<lparr>l_list := butlast (l_list c),
     l_entries := (l_entries c)(e_key (l_val c (last (l_list c))) := None),
     l_observer := obs_IncEvictions (l_observer c)\<rparr>"
proof -
  have ne: "l_list c \<noteq> []" using assms(2,3) by auto
  then have "int (length (butlast (l_list c))) = l_capacity c"
    using assms(2) by (simp add: of_nat_diff Suc_leI)
  with ne show ?thesis
    using assms by (simp add: evict.simps [of c] list_Back_def list_Remove_def remove1_last
        evict_fits)
qed

section \<open>The operations keep the invariant and refine the abstract cache\<close>

lemma new_entry_sel [simp]:
  "e_key (new_entry key m ttl now) = key"
  "e_response (new_entry key m ttl now) = m"
  "e_storedAt (new_entry key m ttl now) = now"
  "e_expiresAt (new_entry key m ttl now) = now + ttl"
  by (simp_all add: new_entry_def)

lemma new_lru_inv: "lru_inv (new_lru z cap)"
  by (simp add: lru_inv_def new_lru_def)

lemma NewLRU_inv: "lru_inv (NewLRU cap)"
  by (simp add: NewLRU_def new_lru_inv)

lemma put_hit:
  assumes "l_entries c (e_key e) = Some el"
  shows "lru_put c e =
    c\<lparr>l_list := list_MoveToFront el (l_list c),
      l_val := (l_val c)(el := e)\<rparr>"
  using assms by (simp add: lru_put_def Let_def)

lemma put_hit_inv:
  assumes inv: "lru_inv c" and k: "l_entries c (e_key e) = Some el"
  shows "lru_inv (lru_put c e)"
proof -
  have el: "el \<in> set (l_list c)" "e_key (l_val c el) = e_key e"
    using lru_invD(5) [OF inv, of "e_key e" el] k by auto
  show ?thesis
    unfolding put_hit [OF k]
    by (rule lru_invI) (use lru_invD [OF inv] el in auto)
qed

lemma put_hit_abs:
  assumes inv: "lru_inv c" and k: "l_entries c (e_key e) = Some el"
  shows "lru_abs (lru_put c e)
    = spec_store (l_capacity c) (e) (lru_abs c)"
proof -
  have el: "el \<in> set (l_list c)" using lru_invD(5) [OF inv, of "e_key e" el] k by auto
  have "el \<notin> set (remove1 el (l_list c))" using lru_invD(1) [OF inv] by (simp add: set_remove1_eq)
  then have abs: "lru_abs (lru_put c e)
      = e # filter (\<lambda>x. e_key x \<noteq> e_key e) (lru_abs c)"
    unfolding put_hit [OF k] abs_filter_Some [OF inv k]
    by (simp add: lru_abs_def list_MoveToFront_def el)
  have "length (lru_abs (lru_put c e)) = length (l_list c)"
    unfolding put_hit [OF k] by (simp add: lru_abs_def)
  then show ?thesis
    using lru_invD(3) [OF inv] by (simp add: spec_store_def abs [symmetric] take_all)
qed

text \<open>The state of the insertion path before the eviction loop.\<close>

definition pushed :: "'m LRU \<Rightarrow> 'm entry \<Rightarrow> 'm LRU" where
  "pushed c e =
     c\<lparr>l_next := Suc (l_next c), l_val := (l_val c)(l_next c := e),
       l_list := l_next c # l_list c, l_entries := (l_entries c)(e_key e \<mapsto> l_next c)\<rparr>"

lemma pushed_sel [simp]:
  "l_list (pushed c e) = l_next c # l_list c"
  "l_capacity (pushed c e) = l_capacity c"
  "l_val (pushed c e) = (l_val c)(l_next c := e)"
  "l_next (pushed c e) = Suc (l_next c)"
  "l_entries (pushed c e) = (l_entries c)(e_key e \<mapsto> l_next c)"
  "l_observer (pushed c e) = l_observer c"
  by (simp_all add: pushed_def)

lemma put_miss:
  assumes "l_entries c (e_key e) = None"
  shows "lru_put c e =
    (let c2 = evict (pushed c e)
     in c2\<lparr>l_observer := obs_SetEntries (l_observer c2) (int (length (l_list c2)))\<rparr>)"
  using assms by (simp add: lru_put_def pushed_def Let_def)

lemma lru_next_fresh: "lru_inv c \<Longrightarrow> l_next c \<notin> set (l_list c)"
  using lru_invD(4) by blast

lemma lru_abs_observer [simp]: "lru_abs (c\<lparr>l_observer := obs\<rparr>) = lru_abs c"
  by (simp add: lru_abs_def)

lemma lru_inv_observer [simp]: "lru_inv (c\<lparr>l_observer := obs\<rparr>) = lru_inv c"
  by (simp add: lru_inv_def)

lemma pushed_entries:
  assumes inv: "lru_inv c" and k: "l_entries c (e_key e) = None"
  shows "l_entries (pushed c e) k' = Some x \<longleftrightarrow>
    x \<in> set (l_list (pushed c e)) \<and> e_key (l_val (pushed c e) x) = k'"
  using lru_next_fresh [OF inv] lru_invD(5) [OF inv, of k' x] k
  by (cases "x = l_next c") auto

text \<open>Dropping one element from an index that is exact on a set.\<close>

lemma index_without:
  assumes iff: "\<And>k x. E k = Some x \<longleftrightarrow> x \<in> A \<and> f x = k" and x0: "x0 \<in> A"
  shows "(E(f x0 := None)) k = Some x \<longleftrightarrow> x \<in> A - {x0} \<and> f x = k"
proof (cases "k = f x0")
  case True
  have "E (f x0) = Some x0" using iff [of "f x0" x0] x0 by simp
  then have "\<not> (x \<in> A - {x0} \<and> f x = f x0)" using iff [of "f x0" x] by auto
  then show ?thesis using True by auto
next
  case False
  then show ?thesis using iff [of k x] by auto
qed

lemma put_miss_room:
  assumes inv: "lru_inv c" and k: "l_entries c (e_key e) = None"
    and room: "int (length (l_list c)) < l_capacity c"
  shows "lru_inv (lru_put c e)"
    and "lru_abs (lru_put c e) = e # lru_abs c"
proof -
  let ?p = "pushed c e"
  have s: "lru_put c e =
      ?p\<lparr>l_observer := obs_SetEntries (l_observer c) (int (length (l_list ?p)))\<rparr>"
    using room by (simp add: put_miss [OF k] evict_fits Let_def)
  have "lru_inv ?p"
    by (rule lru_invI) (use room lru_invD [OF inv] lru_next_fresh [OF inv]
        pushed_entries [OF inv k] in \<open>auto simp: less_SucI\<close>)
  then show "lru_inv (lru_put c e)" by (simp add: s)
  show "lru_abs (lru_put c e) = e # lru_abs c"
    using lru_next_fresh [OF inv] by (simp add: s lru_abs_def)
qed

lemma put_miss_full:
  assumes inv: "lru_inv c" and k: "l_entries c (e_key e) = None"
    and full: "int (length (l_list c)) = l_capacity c"
  shows "lru_inv (lru_put c e)"
    and "lru_abs (lru_put c e) = e # butlast (lru_abs c)"
proof -
  let ?p = "pushed c e"
  define o' where "o' = obs_SetEntries (obs_IncEvictions (l_observer c))
    (int (length (butlast (l_list ?p))))"
  let ?q = "?p\<lparr>l_list := butlast (l_list ?p),
     l_entries := (l_entries ?p)(e_key (l_val ?p (last (l_list ?p))) := None)\<rparr>"
  have ne: "l_list c \<noteq> []" using lru_invD(2) [OF inv] full by auto
  have d: "distinct (l_list ?p)" using lru_invD(1) [OF inv] lru_next_fresh [OF inv] by simp
  have s: "lru_put c e = ?q\<lparr>l_observer := o'\<rparr>"
    using evict_one [OF d] full lru_invD(2) [OF inv] by (simp add: put_miss [OF k] Let_def o'_def)
  have b: "set (butlast (l_list ?p)) = set (l_list ?p) - {last (l_list ?p)}"
    by (rule set_butlast_distinct [OF d]) simp
  have "lru_inv ?q"
  proof (rule lru_invI)
    fix k' x
    let ?f = "\<lambda>y. e_key (l_val ?p y)"
    have "((l_entries ?p)(?f (last (l_list ?p)) := None)) k' = Some x
        \<longleftrightarrow> x \<in> set (l_list ?p) - {last (l_list ?p)} \<and> ?f x = k'"
      by (rule index_without [OF pushed_entries [OF inv k]]) simp_all
    then show "l_entries ?q k' = Some x \<longleftrightarrow> x \<in> set (l_list ?q) \<and> e_key (l_val ?q x) = k'"
      unfolding b [symmetric] by (simp del: pushed_sel)
  next
    show "distinct (l_list ?q)" using distinct_butlast [OF d] by (simp del: pushed_sel)
    show "int (length (l_list ?q)) \<le> l_capacity ?q" using full by simp
    show "x < l_next ?q" if "x \<in> set (l_list ?q)" for x
      using that lru_invD(4) [OF inv, of x] by (auto dest: in_set_butlastD split: if_splits)
  qed (use lru_invD(2) [OF inv] in simp)
  then show "lru_inv (lru_put c e)" by (simp add: s)
  have "l_next c \<notin> set (butlast (l_list c))"
    using lru_next_fresh [OF inv] by (auto dest: in_set_butlastD)
  then show "lru_abs (lru_put c e) = e # butlast (lru_abs c)"
    using ne by (simp add: s lru_abs_def map_butlast [symmetric])
qed

lemma put_inv: "lru_inv c \<Longrightarrow> lru_inv (lru_put c e)"
proof -
  assume inv: "lru_inv c"
  consider el where "l_entries c (e_key e) = Some el"
    | "l_entries c (e_key e) = None" "int (length (l_list c)) < l_capacity c"
    | "l_entries c (e_key e) = None" "int (length (l_list c)) = l_capacity c"
    using lru_invD(3) [OF inv] by (cases "l_entries c (e_key e)") (auto simp: order.order_iff_strict)
  then show ?thesis
    by cases (simp_all add: put_hit_inv [OF inv] put_miss_room(1) [OF inv]
        put_miss_full(1) [OF inv])
qed

lemma length_lru_abs [simp]: "length (lru_abs c) = length (l_list c)"
  by (simp add: lru_abs_def)

lemma put_abs:
  assumes inv: "lru_inv c"
  shows "lru_abs (lru_put c e)
    = spec_store (l_capacity c) (e) (lru_abs c)"
proof (cases "l_entries c (e_key e)")
  case None
  then have f: "filter (\<lambda>x. e_key x \<noteq> e_key e) (lru_abs c) = lru_abs c"
    by (rule abs_filter_None [OF inv])
  show ?thesis
  proof (cases "int (length (l_list c)) < l_capacity c")
    case True
    then show ?thesis using put_miss_room(2) [OF inv None True] f
      by (simp add: spec_store_def)
  next
    case False
    then have full: "int (length (l_list c)) = l_capacity c" using lru_invD(3) [OF inv] by simp
    then have "nat (l_capacity c) = Suc (length (lru_abs c) - 1)"
      using lru_invD(2) [OF inv] by simp
    then show ?thesis using put_miss_full(2) [OF inv None full] f
      by (simp add: spec_store_def butlast_conv_take)
  qed
next
  case (Some el)
  then show ?thesis by (rule put_hit_abs [OF inv])
qed

lemma find_inv: "lru_inv c \<Longrightarrow> lru_inv (snd (lru_find c key now))"
proof -
  assume inv: "lru_inv c"
  show ?thesis
  proof (cases "l_entries c key")
    case None
    then show ?thesis using inv by (simp add: lru_find_def)
  next
    case (Some el)
    note u = lru_inv_unique [OF inv Some]
    have el: "el \<in> set (l_list c)" "e_key (l_val c el) = key"
      using lru_invD(5) [OF inv, of key el] Some by auto
    show ?thesis
    proof (cases "e_expiresAt (l_val c el) < now")
      case True
      have "lru_inv (c\<lparr>l_list := remove1 el (l_list c), l_entries := (l_entries c)(key := None)\<rparr>)"
        by (rule lru_invI) (use lru_invD [OF inv] el u in
            \<open>auto simp: set_remove1_eq length_remove1 split: if_splits\<close>)
      then have "lru_inv (c\<lparr>l_list := remove1 el (l_list c),
          l_entries := (l_entries c)(key := None)\<rparr>\<lparr>l_observer := obs\<rparr>)" for obs
        by (simp only: lru_inv_observer)
      then show ?thesis using True Some by (simp add: lru_find_def Let_def list_Remove_def)
    next
      case False
      have "lru_inv (c\<lparr>l_list := list_MoveToFront el (l_list c)\<rparr>)"
        by (rule lru_invI) (use lru_invD [OF inv] in auto)
      then show ?thesis using False Some by (simp add: lru_find_def Let_def)
    qed
  qed
qed

lemma find_abs:
  assumes inv: "lru_inv c"
  shows "fst (lru_find c key now) = fst (spec_find key now (lru_abs c))"
    and "lru_abs (snd (lru_find c key now)) = snd (spec_find key now (lru_abs c))"
proof -
  have "fst (lru_find c key now) = fst (spec_find key now (lru_abs c)) \<and>
    lru_abs (snd (lru_find c key now)) = snd (spec_find key now (lru_abs c))"
  proof (cases "l_entries c key")
    case None
    then show ?thesis by (simp add: lru_find_def spec_find_def abs_find_None [OF inv None])
  next
    case (Some el)
    have el: "el \<in> set (l_list c)" using lru_invD(5) [OF inv, of key el] Some by auto
    have "spec_find key now (lru_abs c) =
        (if e_expiresAt (l_val c el) < now then (None, map (l_val c) (remove1 el (l_list c)))
         else (Some (l_val c el),
               l_val c el # map (l_val c) (remove1 el (l_list c))))"
      by (simp add: spec_find_def abs_find_Some [OF inv Some] abs_filter_Some [OF inv Some])
    then show ?thesis
      using Some el
      by (simp add: lru_find_def Let_def lru_abs_def list_Remove_def list_MoveToFront_def)
  qed
  then show "fst (lru_find c key now) = fst (spec_find key now (lru_abs c))"
    and "lru_abs (snd (lru_find c key now)) = snd (spec_find key now (lru_abs c))" by auto
qed

lemma Store_inv: "lru_inv c \<Longrightarrow> lru_inv (Store c key m ttl now)"
  by (simp add: Store_def put_inv)

lemma Store_abs:
  "lru_inv c \<Longrightarrow> lru_abs (Store c key m ttl now)
    = spec_store (l_capacity c) (new_entry key (CloneMsg m) ttl now) (lru_abs c)"
  by (simp add: Store_def put_abs)

lemma snd_Get: "snd (Get c key now) = snd (lru_find c key now)"
  by (simp add: Get_def split: prod.splits option.splits)

lemma fst_Get: "fst (Get c key now) = map_option (served now) (fst (lru_find c key now))"
  by (simp add: Get_def served_def split: prod.splits option.splits)

lemma Get_inv: "lru_inv c \<Longrightarrow> lru_inv (snd (Get c key now))"
  by (simp add: snd_Get find_inv)

lemma Get_abs:
  assumes "lru_inv c"
  shows "fst (Get c key now) = fst (spec_get key now (lru_abs c))"
    and "lru_abs (snd (Get c key now)) = snd (spec_get key now (lru_abs c))"
  using find_abs [OF assms, of key now] by (auto simp: spec_get_def fst_Get snd_Get split: prod.splits)

lemma evict_capacity [simp]: "l_capacity (evict c) = l_capacity c"
  by (induction c rule: evict.induct)
    (subst evict.simps, simp add: Let_def split: option.splits)

lemma put_capacity [simp]: "l_capacity (lru_put c e) = l_capacity c"
  by (simp add: lru_put_def Let_def split: option.splits)

lemma Store_capacity [simp]: "l_capacity (Store c key m ttl now) = l_capacity c"
  by (simp add: Store_def)

lemma Get_capacity [simp]: "l_capacity (snd (Get c key now)) = l_capacity c"
  by (simp add: snd_Get lru_find_def Let_def split: option.splits)

section \<open>Ages and remaining lifetimes\<close>

lemma unat_age_rr: "unat (rr_TTL (age_rr by r)) = unat (rr_TTL r) - unat by"
  by (simp add: age_rr_def word_less_nat_alt unat_sub word_le_nat_alt)

lemma age_rr_0 [simp]: "age_rr 0 r = r"
  by (cases "rr_TTL r = 0") (simp_all add: age_rr_def word_neq_0_conv)

lemma entry_age_exact:
  assumes "e_storedAt e \<le> t" and "t - e_storedAt e < 2 ^ 32 * time_Second"
  shows "unat (entry_age t e) = nat ((t - e_storedAt e) div time_Second)"
proof -
  let ?d = "t - e_storedAt e"
  have "time_Sub t (e_storedAt e) = ?d"
    using assms by (simp add: time_Sub_def sat64_def min_i64_def max_i64_def time_Second_def)
  then have w: "entry_age t e = word_of_int (?d div time_Second)"
    using assms(1) by (simp add: entry_age_def go_quot_nonneg)
  have "0 \<le> ?d div time_Second" and "?d div time_Second < 2 ^ 32"
    using assms by (simp_all add: pos_imp_zdiv_nonneg_iff time_Second_def)
  then show ?thesis by (simp add: w unat_eq_nat_uint uint_word_of_int)
qed

section \<open>The interface of the cache\<close>

locale dns_cache =
  fixes get :: "'c \<Rightarrow> string \<Rightarrow> int \<Rightarrow> msg option \<times> 'c"
    and store :: "'c \<Rightarrow> string \<Rightarrow> msg \<Rightarrow> int \<Rightarrow> int \<Rightarrow> 'c"
    and contents :: "'c \<Rightarrow> msg entry list"
    and cap :: "'c \<Rightarrow> int"
    and inv :: "'c \<Rightarrow> bool"
  assumes inv_get: "inv c \<Longrightarrow> inv (snd (get c k t))"
    and inv_store: "inv c \<Longrightarrow> inv (store c k m ttl t)"
    and get_value: "inv c \<Longrightarrow> fst (get c k t) = fst (spec_get k t (contents c))"
    and get_contents: "inv c \<Longrightarrow> contents (snd (get c k t)) = snd (spec_get k t (contents c))"
    and store_contents: "inv c \<Longrightarrow>
      contents (store c k m ttl t) = spec_store (cap c) (new_entry k (CloneMsg m) ttl t) (contents c)"
    and cap_get: "cap (snd (get c k t)) = cap c"
    and cap_store: "cap (store c k m ttl t) = cap c"
    and cap_pos: "inv c \<Longrightarrow> 1 \<le> cap c"
    and bounded: "inv c \<Longrightarrow> int (length (contents c)) \<le> cap c"
    and keys_distinct: "inv c \<Longrightarrow> distinct (map e_key (contents c))"
begin

lemma contents_store:
  assumes "inv c"
  shows "contents (store c k m ttl t)
    = new_entry k (CloneMsg m) ttl t
      # take (nat (cap c) - 1) (filter (\<lambda>x. e_key x \<noteq> k) (contents c))"
proof -
  obtain n where "nat (cap c) = Suc n" using cap_pos [OF assms] by (metis nat_0_iff not_one_le_zero
      not_less_eq_eq not0_implies_Suc nat_eq_iff2 le_zero_eq of_nat_0 order.trans zero_le_one)
  then show ?thesis by (simp add: store_contents [OF assms] spec_store_def)
qed

lemma get_after_store:
  assumes "inv c" and "t' \<le> t + ttl"
  shows "fst (get (store c k m ttl t) k t') = Some (served t' (new_entry k (CloneMsg m) ttl t))"
  using assms
  by (simp add: get_value inv_store spec_get_def spec_find_def contents_store)

lemma get_after_expiry:
  assumes "inv c" and "t + ttl < t'"
  shows "fst (get (store c k m ttl t) k t') = None"
    and "k \<notin> e_key ` set (contents (snd (get (store c k m ttl t) k t')))"
  using assms
  by (auto simp: get_value get_contents inv_store spec_get_def spec_find_def contents_store)

lemma find_take: "find P (take n xs) = None \<or> find P (take n xs) = find P xs"
proof (induction xs arbitrary: n)
  case (Cons x xs)
  then show ?case by (cases n) auto
qed simp

lemma find_filter_other: "k' \<noteq> k \<Longrightarrow>
  find (\<lambda>x. e_key x = k') (filter (\<lambda>x. e_key x \<noteq> k) es) = find (\<lambda>x. e_key x = k') es"
  by (induction es) auto

lemma get_other_key:
  assumes "inv c" and "k' \<noteq> k"
  shows "fst (get (store c k m ttl t) k' t') \<in> {None, fst (get c k' t')}"
proof -
  let ?f = "find (\<lambda>x. e_key x = k')"
  let ?r = "take (nat (cap c) - 1) (filter (\<lambda>x. e_key x \<noteq> k) (contents c))"
  have "?f ?r = None \<or> ?f ?r = ?f (contents c)"
    using find_take [of _ "nat (cap c) - 1" "filter (\<lambda>x. e_key x \<noteq> k) (contents c)"]
      find_filter_other [OF assms(2), of "contents c"] by metis
  moreover have "?f (contents (store c k m ttl t)) = ?f ?r"
    using assms by (simp add: contents_store)
  ultimately show ?thesis
    using assms(1)
    by (auto simp: get_value inv_store spec_get_def spec_find_def Let_def split: option.splits if_splits)
qed

end

interpretation lc: dns_cache Get Store lru_abs l_capacity lru_inv
  by unfold_locales
    (simp_all add: Get_inv Store_inv Get_abs Store_abs lru_invD(2,3) lru_keys_distinct)

section \<open>Runs\<close>

datatype cache_op = OpStore string msg int int | OpGet string int

fun run_op :: "msg LRU \<Rightarrow> cache_op \<Rightarrow> msg option \<times> msg LRU" where
  "run_op c (OpStore k m ttl t) = (None, Store c k m ttl t)"
| "run_op c (OpGet k t) = Get c k t"

fun run_ops :: "msg LRU \<Rightarrow> cache_op list \<Rightarrow> msg option list \<times> msg LRU" where
  "run_ops c [] = ([], c)"
| "run_ops c (x # xs) =
     (case run_op c x of (r, c') \<Rightarrow> case run_ops c' xs of (rs, c'') \<Rightarrow> (r # rs, c''))"

text \<open>The same run on the abstract cache.\<close>

fun spec_op :: "int \<Rightarrow> msg entry list \<Rightarrow> cache_op \<Rightarrow> msg option \<times> msg entry list" where
  "spec_op cap es (OpStore k m ttl t) = (None, spec_store cap (new_entry k (CloneMsg m) ttl t) es)"
| "spec_op cap es (OpGet k t) = spec_get k t es"

fun spec_ops :: "int \<Rightarrow> msg entry list \<Rightarrow> cache_op list \<Rightarrow> msg option list \<times> msg entry list" where
  "spec_ops cap es [] = ([], es)"
| "spec_ops cap es (x # xs) =
     (case spec_op cap es x of (r, es') \<Rightarrow>
        case spec_ops cap es' xs of (rs, es'') \<Rightarrow> (r # rs, es''))"

lemma run_op_inv: "lru_inv c \<Longrightarrow> lru_inv (snd (run_op c x))"
  by (cases x) (simp_all add: Store_inv Get_inv)

lemma run_op_capacity: "l_capacity (snd (run_op c x)) = l_capacity c"
  by (cases x) simp_all

lemma run_op_refines: "lru_inv c \<Longrightarrow>
  spec_op (l_capacity c) (lru_abs c) x = (fst (run_op c x), lru_abs (snd (run_op c x)))"
  by (cases x) (simp_all add: Store_abs Get_abs)

lemma run_ops_inv: "lru_inv c \<Longrightarrow> lru_inv (snd (run_ops c xs)) \<and>
    l_capacity (snd (run_ops c xs)) = l_capacity c"
  by (induction xs arbitrary: c) (auto simp: run_op_inv run_op_capacity split: prod.splits,
      (metis run_op_inv run_op_capacity snd_conv)+)

lemma run_ops_refines: "lru_inv c \<Longrightarrow>
  spec_ops (l_capacity c) (lru_abs c) xs = (fst (run_ops c xs), lru_abs (snd (run_ops c xs)))"
proof (induction xs arbitrary: c)
  case (Cons x xs)
  obtain r c' where rc: "run_op c x = (r, c')" by fastforce
  then have "lru_inv c'" and "l_capacity c' = l_capacity c"
    using run_op_inv [OF Cons.prems, of x] run_op_capacity [of c x] by simp_all
  then show ?case
    using Cons.IH [of c'] run_op_refines [OF Cons.prems, of x] rc by (simp split: prod.splits)
qed simp

section \<open>The entries gauge\<close>

definition gauge_ok :: "'m LRU \<Rightarrow> bool" where
  "gauge_ok c = (case l_observer c of NopObserver \<Rightarrow> True | CacheObserver n _ \<Rightarrow> n = int (Len c))"

lemma gauge_ok_set: "gauge_ok (c\<lparr>l_observer := obs_SetEntries obs (int (length (l_list c)))\<rparr>)"
  by (cases obs) (simp_all add: gauge_ok_def Len_def)

lemma Store_gauge: "gauge_ok c \<Longrightarrow> gauge_ok (Store c k m ttl t)"
proof (cases "l_entries c k")
  case None
  then show ?thesis by (simp add: Store_def put_miss Let_def gauge_ok_set)
next
  case (Some el)
  then have h: "l_entries c (e_key (new_entry k (CloneMsg m) ttl t)) = Some el" by simp
  assume "gauge_ok c"
  then show ?thesis by (simp add: Store_def put_hit [OF h] gauge_ok_def Len_def cong: observer.case_cong)
qed

lemma Get_gauge: "gauge_ok c \<Longrightarrow> gauge_ok (snd (Get c k t))"
  by (cases "l_observer c") (auto simp: snd_Get lru_find_def Let_def gauge_ok_def Len_def split: option.splits)

lemma run_op_gauge: "gauge_ok c \<Longrightarrow> gauge_ok (snd (run_op c x))"
  by (cases x) (simp_all add: Store_gauge Get_gauge)

lemma run_ops_gauge: "gauge_ok c \<Longrightarrow> gauge_ok (snd (run_ops c xs))"
proof (induction xs arbitrary: c)
  case (Cons x xs)
  then show ?case
    using run_op_gauge [OF Cons.prems, of x] by (auto split: prod.splits) (metis snd_conv)
qed simp

definition aged_by :: "nat \<Rightarrow> rr \<Rightarrow> rr \<Rightarrow> bool" where
  "aged_by n r r' \<longleftrightarrow> unat (rr_TTL r') = unat (rr_TTL r) - n \<and> r'\<lparr>rr_TTL := rr_TTL r\<rparr> = r"

definition sample_rr :: rr where
  "sample_rr = \<lparr>rr_Name = ''a.example.'', rr_Class = 1, rr_TTL = 300, rr_Data = RD_A ''192.0.2.1''\<rparr>"

definition sample_msg :: msg where
  "sample_msg = new_Msg\<lparr>msg_ID := 7, msg_Response := True, msg_Question := [sample_rr],
     msg_Answer := [sample_rr]\<rparr>"

section \<open>Properties\<close>

text \<open>C8: Over any sequence of \<open>Store\<close> and \<open>Get\<close> calls, the linked list with its map behaves
  exactly like a list of entries ordered by recency that is cut to the capacity: every \<open>Get\<close>
  returns the same answer and the final contents agree.\<close>

theorem LRU_refines_recency_list:
  "spec_ops (max 1 cap) [] ops
     = (fst (run_ops (NewLRU cap) ops), lru_abs (snd (run_ops (NewLRU cap) ops)))"
proof -
  have "l_capacity (NewLRU cap) = max 1 cap" "lru_abs (NewLRU cap) = []"
    by (simp_all add: NewLRU_def new_lru_def lru_abs_def)
  then show ?thesis using run_ops_refines [OF NewLRU_inv, of cap ops] by simp
qed

text \<open>C22: After any sequence of calls the map and the list agree, no key occurs twice, the number
  of entries never exceeds the configured capacity (at least one), and the entries gauge of an
  attached observer equals the number of entries.\<close>

theorem LRU_invariant:
  "let c = snd (run_ops (SetObserver (NewLRU cap) (Some (CacheObserver 0 0))) ops)
   in lru_inv c \<and> int (Len c) \<le> Capacity c \<and> Capacity c = max 1 cap
      \<and> distinct (map e_key (lru_abs c)) \<and> gauge_ok c"
proof -
  let ?n = "SetObserver (NewLRU cap) (Some (CacheObserver 0 0))"
  have n: "lru_inv ?n" "gauge_ok ?n" "l_capacity ?n = max 1 cap"
    using NewLRU_inv [of cap]
    by (simp add: SetObserver_def, simp_all add: SetObserver_def gauge_ok_def Len_def NewLRU_def new_lru_def)
  have inv: "lru_inv (snd (run_ops ?n ops))"
    and cap: "l_capacity (snd (run_ops ?n ops)) = max 1 cap"
    using run_ops_inv [OF n(1), of ops] n(3) by simp_all
  show ?thesis
    using inv cap lru_invD(3) [OF inv] lru_keys_distinct [OF inv] run_ops_gauge [OF n(2), of ops]
    by (simp add: Let_def Len_def Capacity_def)
qed

text \<open>While an entry is fresh, \<open>Get\<close> returns a copy of the stored message without its wire
  buffer in which the TTL of every record of the answer, authority and additional sections has been
  lowered by the whole seconds the entry has been held, stopping at zero; nothing else of the
  records changes.\<close>

theorem Get_serves_aged_copy:
  assumes "lru_inv c" and "t \<le> t'" and "t' \<le> t + ttl" and "t' - t < 2 ^ 32 * time_Second"
  shows "\<exists>m'. fst (Get (Store c k m ttl t) k t') = Some m'
     \<and> list_all2 (aged_by (nat ((t' - t) div time_Second))) (msg_Answer m) (msg_Answer m')
     \<and> list_all2 (aged_by (nat ((t' - t) div time_Second))) (msg_Ns m) (msg_Ns m')
     \<and> list_all2 (aged_by (nat ((t' - t) div time_Second))) (msg_Extra m) (msg_Extra m')
     \<and> msg_Data m' = None \<and> msg_Rcode m' = msg_Rcode m \<and> msg_Response m' = msg_Response m"
proof -
  let ?n = "nat ((t' - t) div time_Second)"
  let ?e = "new_entry k (CloneMsg m) ttl t"
  have age: "unat (entry_age t' ?e) = ?n" using entry_age_exact [of ?e t'] assms(2,4) by simp
  have "aged_by ?n r (age_rr (entry_age t' ?e) r)" for r
    by (simp add: aged_by_def unat_age_rr age) (simp add: age_rr_def)
  then have l: "list_all2 (aged_by ?n) rs (map (age_rr (entry_age t' ?e)) rs)" for rs
    by (simp add: list_all2_conv_all_nth)
  have "fst (Get (Store c k m ttl t) k t') = Some (served t' ?e)"
    by (rule lc.get_after_store [OF assms(1,3)])
  then show ?thesis
    using l by (auto simp: served_def decrementTTLs_def CloneMsg_def cloneRRs_def)
qed

theorem Get_serves_aged_copy_witness:
  "\<exists>m'. fst (Get (Store (NewLRU 2) ''k'' sample_msg (300 * time_Second) 0) ''k'' (10 * time_Second))
        = Some m' \<and> map (\<lambda>r. unat (rr_TTL r)) (msg_Answer m') = [290]"
proof -
  have n: "nat ((10 * time_Second - 0) div time_Second) = 10" by (simp add: time_Second_def)
  have a: "(0::int) \<le> 10 * time_Second" "10 * time_Second \<le> 0 + 300 * time_Second"
    "10 * time_Second - 0 < 2 ^ 32 * time_Second"
    by (simp_all add: time_Second_def)
  obtain m' where m': "fst (Get (Store (NewLRU 2) ''k'' sample_msg (300 * time_Second) 0) ''k''
      (10 * time_Second)) = Some m'" "list_all2 (aged_by 10) (msg_Answer sample_msg) (msg_Answer m')"
    using Get_serves_aged_copy [OF NewLRU_inv a, of 2 "''k''" sample_msg] unfolding n by blast
  from m'(2) obtain r where "msg_Answer m' = [r]" "aged_by 10 sample_rr r"
    by (auto simp: sample_msg_def list_all2_Cons1)
  then show ?thesis using m'(1) by (auto simp: aged_by_def sample_rr_def)
qed

text \<open>Once the lifetime given to \<open>Store\<close> is over, \<open>Get\<close> misses and the entry is removed.\<close>

theorem Get_expires:
  assumes "lru_inv c" and "t + ttl < t'"
  shows "fst (Get (Store c k m ttl t) k t') = None
     \<and> l_entries (snd (Get (Store c k m ttl t) k t')) k = None"
proof -
  have "lru_inv (snd (Get (Store c k m ttl t) k t'))" by (rule Get_inv [OF Store_inv [OF assms(1)]])
  then show ?thesis
    using lc.get_after_expiry [OF assms, of k m] by (simp add: entries_None_iff)
qed

theorem Get_expires_witness:
  "fst (Get (Store (NewLRU 2) ''k'' sample_msg 5 0) ''k'' 6) = None"
  using Get_expires [OF NewLRU_inv, of 0 5 6 2 "''k''" sample_msg] by simp

text \<open>Storing a new key in a full cache drops exactly the least recently used entry and puts
  the new one in front; storing never changes what another key answers except that it may have
  been evicted.\<close>

theorem Store_evicts_least_recent:
  assumes "lru_inv c" and "l_entries c k = None" and "int (Len c) = Capacity c"
  shows "map e_key (lru_abs (Store c k m ttl t)) = k # butlast (map e_key (lru_abs c))
     \<and> (\<forall>k' t'. k' \<noteq> k \<longrightarrow> fst (Get (Store c k m ttl t) k' t') \<in> {None, fst (Get c k' t')})"
  using put_miss_full(2) [OF assms(1), of "new_entry k (CloneMsg m) ttl t"] assms(2,3)
    lc.get_other_key [OF assms(1)]
  by (auto simp: Store_def Len_def Capacity_def map_butlast)

theorem Store_evicts_least_recent_witness:
  "map e_key (lru_abs (Store (Store (NewLRU 1) ''a'' sample_msg 5 0) ''b'' sample_msg 5 1)) = [''b'']"
proof -
  let ?c = "Store (NewLRU 1) ''a'' sample_msg 5 0"
  have l: "lru_abs ?c = [new_entry ''a'' (CloneMsg sample_msg) 5 0]"
    using Store_abs [OF NewLRU_inv, of 1 "''a''" sample_msg 5 0]
    by (simp add: spec_store_def NewLRU_def new_lru_def lru_abs_def)
  have n: "l_entries ?c ''b'' = None"
    using l by (simp add: entries_None_iff [OF Store_inv [OF NewLRU_inv]])
  have f: "int (Len ?c) = Capacity ?c"
    using l by (simp add: Len_def Capacity_def NewLRU_def new_lru_def) (metis length_lru_abs length_Cons list.size(3))
  show ?thesis
    using Store_evicts_least_recent [OF Store_inv [OF NewLRU_inv] n f, of sample_msg 5 1] l by simp
qed

end
