(* ===== verification/Cache_Alias.thy ===== *)
theory Cache_Alias
  imports Cache_LRU
begin

text \<open>
  Ownership of messages in the cache (\<open>internal/cache/lru.go\<close>, the deep-copy rules of
  \<open>CloneMsg\<close>, \<open>Store\<close> and \<open>Get\<close>). Messages and records are objects on a heap, sections
  are lists of pointers, and the callers of the cache may write to every object they can reach.
  The theory shows that no such write ever changes what the cache answers: each run of the
  pointer program gives the answers of the cache on message values.
\<close>

section \<open>The heap\<close>

record pmsg =
  pm_ID :: u16
  pm_Response :: bool
  pm_Truncated :: bool
  pm_Rcode :: u16
  pm_Rest :: string
  pm_Question :: "nat list"
  pm_Answer :: "nat list"
  pm_Ns :: "nat list"
  pm_Extra :: "nat list"
  pm_Data :: "string option"

record heap =
  hp_msg :: "nat \<Rightarrow> pmsg"
  hp_rr :: "nat \<Rightarrow> rr"
  hp_lim :: nat

definition read_msg :: "heap \<Rightarrow> nat \<Rightarrow> msg" where
  "read_msg h a =
     (let m = hp_msg h a in
      \<lparr>msg_ID = pm_ID m, msg_Response = pm_Response m, msg_Truncated = pm_Truncated m,
       msg_Rcode = pm_Rcode m, msg_Rest = pm_Rest m,
       msg_Question = map (hp_rr h) (pm_Question m), msg_Answer = map (hp_rr h) (pm_Answer m),
       msg_Ns = map (hp_rr h) (pm_Ns m), msg_Extra = map (hp_rr h) (pm_Extra m),
       msg_Data = pm_Data m\<rparr>)"

definition sections :: "pmsg \<Rightarrow> nat list" where
  "sections m = pm_Question m @ pm_Answer m @ pm_Ns m @ pm_Extra m"

section \<open>The operations on pointers\<close>

fun cloneRRs_h :: "heap \<Rightarrow> nat list \<Rightarrow> heap \<times> nat list" where
  "cloneRRs_h h [] = (h, [])"
| "cloneRRs_h h (r # rs) =
     (let a = hp_lim h;
          h1 = h\<lparr>hp_rr := (hp_rr h)(a := hp_rr h r), hp_lim := Suc a\<rparr>
      in case cloneRRs_h h1 rs of (h2, as) \<Rightarrow> (h2, a # as))"

definition CloneMsg_h :: "heap \<Rightarrow> nat \<Rightarrow> heap \<times> nat" where
  "CloneMsg_h h a =
     (let m = hp_msg h a;
          cp = hp_lim h;
          h0 = h\<lparr>hp_msg := (hp_msg h)(cp := m\<lparr>pm_Data := None\<rparr>), hp_lim := Suc cp\<rparr>;
          (h1, q) = cloneRRs_h h0 (pm_Question m);
          (h2, an) = cloneRRs_h h1 (pm_Answer m);
          (h3, ns) = cloneRRs_h h2 (pm_Ns m);
          (h4, ex) = cloneRRs_h h3 (pm_Extra m)
      in (h4\<lparr>hp_msg := (hp_msg h4)(cp := (hp_msg h4 cp)\<lparr>pm_Question := q, pm_Answer := an,
                pm_Ns := ns, pm_Extra := ex\<rparr>)\<rparr>, cp))"

fun age_all :: "heap \<Rightarrow> nat list \<Rightarrow> u32 \<Rightarrow> heap" where
  "age_all h [] by = h"
| "age_all h (r # rs) by =
     age_all (h\<lparr>hp_rr := (hp_rr h)(r := age_rr by (hp_rr h r))\<rparr>) rs by"

definition decrementTTLs_h :: "heap \<Rightarrow> nat \<Rightarrow> u32 \<Rightarrow> heap" where
  "decrementTTLs_h h a by = age_all h (sections (hp_msg h a)) by"

definition Store_h :: "heap \<Rightarrow> nat LRU \<Rightarrow> string \<Rightarrow> nat \<Rightarrow> int \<Rightarrow> int \<Rightarrow> heap \<times> nat LRU" where
  "Store_h h c key a ttl now =
     (case CloneMsg_h h a of (h', a') \<Rightarrow> (h', lru_put c (new_entry key a' ttl now)))"

definition Get_h :: "heap \<Rightarrow> nat LRU \<Rightarrow> string \<Rightarrow> int \<Rightarrow> heap \<times> nat option \<times> nat LRU" where
  "Get_h h c key now =
     (case lru_find c key now of
        (None, c') \<Rightarrow> (h, None, c')
      | (Some e, c') \<Rightarrow>
          (case CloneMsg_h h (e_response e) of
             (h', a') \<Rightarrow> (decrementTTLs_h h' a' (entry_age now e), Some a', c')))"

section \<open>What cloning does to the heap\<close>

text \<open>\<open>extends h h'\<close>: nothing below the old allocation limit changed.\<close>

definition extends :: "heap \<Rightarrow> heap \<Rightarrow> bool" where
  "extends h h' \<longleftrightarrow> hp_lim h \<le> hp_lim h'
     \<and> (\<forall>x < hp_lim h. hp_rr h' x = hp_rr h x \<and> hp_msg h' x = hp_msg h x)"

lemma extends_refl [simp]: "extends h h"
  by (simp add: extends_def)

lemma extends_trans: "extends h h' \<Longrightarrow> extends h' h'' \<Longrightarrow> extends h h''"
  by (auto simp: extends_def)

lemma cloneRRs_h_spec:
  assumes "cloneRRs_h h rs = (h', as)" and "\<forall>r \<in> set rs. r < hp_lim h"
  shows "extends h h' \<and> hp_msg h' = hp_msg h \<and> map (hp_rr h') as = map (hp_rr h) rs
    \<and> distinct as \<and> (\<forall>a \<in> set as. hp_lim h \<le> a \<and> a < hp_lim h')"
  using assms
proof (induction rs arbitrary: h h' as)
  case (Cons r rs)
  let ?a = "hp_lim h"
  let ?h1 = "h\<lparr>hp_rr := (hp_rr h)(?a := hp_rr h r), hp_lim := Suc ?a\<rparr>"
  obtain as' where c: "cloneRRs_h ?h1 rs = (h', as')" and as: "as = ?a # as'"
    using Cons.prems(1) by (auto simp: Let_def split: prod.splits)
  have "\<forall>r \<in> set rs. r < hp_lim ?h1" using Cons.prems(2) by auto
  from Cons.IH [OF c this]
  have IH: "extends ?h1 h'" "hp_msg h' = hp_msg h" "map (hp_rr h') as' = map (hp_rr ?h1) rs"
    "distinct as'" "\<forall>a \<in> set as'. Suc ?a \<le> a \<and> a < hp_lim h'" by auto
  have "extends h ?h1" by (auto simp: extends_def)
  then have "extends h h'" using IH(1) extends_trans by blast
  moreover have "hp_rr h' ?a = hp_rr h r" using IH(1) by (simp add: extends_def)
  moreover have "map (hp_rr ?h1) rs = map (hp_rr h) rs" using Cons.prems(2) by auto
  moreover have "?a < hp_lim h'" using IH(1) by (simp add: extends_def)
  ultimately show ?case using IH as by fastforce
qed simp

lemma extends_map:
  "extends h h' \<Longrightarrow> \<forall>r \<in> set rs. r < hp_lim h \<Longrightarrow> map (hp_rr h') rs = map (hp_rr h) rs"
  by (auto simp: extends_def)

definition msg_ok :: "heap \<Rightarrow> nat \<Rightarrow> bool" where
  "msg_ok h a \<longleftrightarrow> a < hp_lim h \<and> (\<forall>r \<in> set (sections (hp_msg h a)). r < hp_lim h)"

lemma cloneRRs_h_append:
  "cloneRRs_h h (xs @ ys) =
     (case cloneRRs_h h xs of (h1, as) \<Rightarrow> case cloneRRs_h h1 ys of (h2, bs) \<Rightarrow> (h2, as @ bs))"
  by (induction xs arbitrary: h) (auto simp: Let_def split: prod.splits)

lemma cloneRRs_h_length: "cloneRRs_h h rs = (h', as) \<Longrightarrow> length as = length rs"
  by (induction rs arbitrary: h h' as) (auto simp: Let_def split: prod.splits)

text \<open>The four sections are cloned one after the other, so as if they were one list.\<close>

lemma CloneMsg_h_eq:
  assumes "CloneMsg_h h a = (h', a')"
  obtains h4 q an ns ex where
    "cloneRRs_h (h\<lparr>hp_msg := (hp_msg h)(hp_lim h := (hp_msg h a)\<lparr>pm_Data := None\<rparr>),
        hp_lim := Suc (hp_lim h)\<rparr>) (sections (hp_msg h a)) = (h4, q @ an @ ns @ ex)"
    and "length q = length (pm_Question (hp_msg h a))" "length an = length (pm_Answer (hp_msg h a))"
    and "length ns = length (pm_Ns (hp_msg h a))" "length ex = length (pm_Extra (hp_msg h a))"
    and "a' = hp_lim h"
    and "h' = h4\<lparr>hp_msg := (hp_msg h4)(a' := (hp_msg h4 a')\<lparr>pm_Question := q, pm_Answer := an,
                pm_Ns := ns, pm_Extra := ex\<rparr>)\<rparr>"
proof -
  let ?h0 = "h\<lparr>hp_msg := (hp_msg h)(hp_lim h := (hp_msg h a)\<lparr>pm_Data := None\<rparr>),
        hp_lim := Suc (hp_lim h)\<rparr>"
  obtain h1 q where c1: "cloneRRs_h ?h0 (pm_Question (hp_msg h a)) = (h1, q)" by fastforce
  obtain h2 an where c2: "cloneRRs_h h1 (pm_Answer (hp_msg h a)) = (h2, an)" by fastforce
  obtain h3 ns where c3: "cloneRRs_h h2 (pm_Ns (hp_msg h a)) = (h3, ns)" by fastforce
  obtain h4 ex where c4: "cloneRRs_h h3 (pm_Extra (hp_msg h a)) = (h4, ex)" by fastforce
  note cs = c1 c2 c3 c4
  show thesis
    by (rule that [of h4 q an ns ex])
      (use assms cs cs [THEN cloneRRs_h_length] in
        \<open>auto simp: CloneMsg_h_def sections_def cloneRRs_h_append Let_def\<close>)
qed

lemma CloneMsg_h_spec:
  assumes ok: "msg_ok h a" and c: "CloneMsg_h h a = (h', a')"
  shows "extends h h'" and "a' = hp_lim h" and "a' < hp_lim h'"
    and "read_msg h' a' = CloneMsg (read_msg h a)"
    and "distinct (sections (hp_msg h' a'))"
    and "\<forall>r \<in> set (sections (hp_msg h' a')). hp_lim h \<le> r \<and> r < hp_lim h'"
proof -
  let ?m = "hp_msg h a"
  let ?h0 = "h\<lparr>hp_msg := (hp_msg h)(hp_lim h := ?m\<lparr>pm_Data := None\<rparr>), hp_lim := Suc (hp_lim h)\<rparr>"
  from CloneMsg_h_eq [OF c] obtain h4 q an ns ex where
    cl: "cloneRRs_h ?h0 (sections ?m) = (h4, q @ an @ ns @ ex)"
    and len: "length q = length (pm_Question ?m)" "length an = length (pm_Answer ?m)"
    "length ns = length (pm_Ns ?m)" "length ex = length (pm_Extra ?m)"
    and a': "a' = hp_lim h"
    and h': "h' = h4\<lparr>hp_msg := (hp_msg h4)(a' := (hp_msg h4 a')\<lparr>pm_Question := q, pm_Answer := an,
                pm_Ns := ns, pm_Extra := ex\<rparr>)\<rparr>" by blast
  have lt: "\<forall>r \<in> set (sections ?m). r < hp_lim h" using ok by (simp add: msg_ok_def)
  then have "\<forall>r \<in> set (sections ?m). r < hp_lim ?h0" by auto
  from cloneRRs_h_spec [OF cl this]
  have S: "extends ?h0 h4" "hp_msg h4 = hp_msg ?h0"
    "map (hp_rr h4) (q @ an @ ns @ ex) = map (hp_rr h) (sections ?m)"
    "distinct (q @ an @ ns @ ex)" "\<forall>r \<in> set (q @ an @ ns @ ex). Suc (hp_lim h) \<le> r \<and> r < hp_lim h4"
    by auto
  have new: "hp_msg h' a' = ?m\<lparr>pm_Data := None, pm_Question := q, pm_Answer := an, pm_Ns := ns,
      pm_Extra := ex\<rparr>" using S(2) by (simp add: h' a')
  show "a' = hp_lim h" by (rule a')
  show "extends h h'" using S(1,2) by (auto simp: h' a' extends_def)
  show "a' < hp_lim h'" using S(1) by (simp add: a' h' extends_def)
  show "distinct (sections (hp_msg h' a'))" using S(4) by (simp add: new sections_def)
  show "\<forall>r \<in> set (sections (hp_msg h' a')). hp_lim h \<le> r \<and> r < hp_lim h'"
  proof (intro ballI)
    fix r
    assume "r \<in> set (sections (hp_msg h' a'))"
    then have "r \<in> set (q @ an @ ns @ ex)" by (simp add: new sections_def)
    with S(5) have "Suc (hp_lim h) \<le> r \<and> r < hp_lim h4" by (rule bspec)
    then show "hp_lim h \<le> r \<and> r < hp_lim h'" by (simp add: h')
  qed
  have "map (hp_rr h4) q = map (hp_rr h) (pm_Question ?m)"
    "map (hp_rr h4) an = map (hp_rr h) (pm_Answer ?m)"
    "map (hp_rr h4) ns = map (hp_rr h) (pm_Ns ?m)" "map (hp_rr h4) ex = map (hp_rr h) (pm_Extra ?m)"
    using S(3) len by (simp_all add: sections_def)
  then show "read_msg h' a' = CloneMsg (read_msg h a)"
    by (simp add: read_msg_def Let_def new CloneMsg_def cloneRRs_def h' S(2) a')
qed

lemma extends_read:
  assumes "extends h h'" "msg_ok h a"
  shows "read_msg h' a = read_msg h a" and "msg_ok h' a" and "hp_msg h' a = hp_msg h a"
proof -
  show m: "hp_msg h' a = hp_msg h a" using assms by (simp add: extends_def msg_ok_def)
  have r: "\<forall>r \<in> set (sections (hp_msg h a)). hp_rr h' r = hp_rr h r"
    using assms by (simp add: extends_def msg_ok_def)
  then show "read_msg h' a = read_msg h a" by (simp add: read_msg_def Let_def m sections_def)
  show "msg_ok h' a" using assms m by (fastforce simp: extends_def msg_ok_def)
qed

section \<open>What ageing does to the heap\<close>

lemma age_all_frame:
  "hp_msg (age_all h rs by) = hp_msg h" "hp_lim (age_all h rs by) = hp_lim h"
  "x \<notin> set rs \<Longrightarrow> hp_rr (age_all h rs by) x = hp_rr h x"
  by (induction h rs "by" rule: age_all.induct) auto

lemma age_all_distinct:
  "distinct rs \<Longrightarrow> x \<in> set rs \<Longrightarrow> hp_rr (age_all h rs by) x = age_rr by (hp_rr h x)"
proof (induction h rs "by" rule: age_all.induct)
  case (2 h r rs "by")
  then show ?case by (cases "x = r") (auto simp: age_all_frame)
qed simp

lemma decrementTTLs_h_spec:
  assumes "distinct (sections (hp_msg h a))"
  shows "read_msg (decrementTTLs_h h a by) a = decrementTTLs (read_msg h a) by"
    and "hp_msg (decrementTTLs_h h a by) = hp_msg h" and "hp_lim (decrementTTLs_h h a by) = hp_lim h"
    and "x \<notin> set (sections (hp_msg h a)) \<Longrightarrow> hp_rr (decrementTTLs_h h a by) x = hp_rr h x"
proof -
  have "hp_rr (decrementTTLs_h h a by) x = age_rr by (hp_rr h x)"
    if "x \<in> set (sections (hp_msg h a))" for x
    using age_all_distinct [OF assms that] by (simp add: decrementTTLs_h_def)
  then show "read_msg (decrementTTLs_h h a by) a = decrementTTLs (read_msg h a) by"
    by (simp add: read_msg_def Let_def decrementTTLs_def decrementTTLs_h_def age_all_frame
        sections_def)
qed (simp_all add: decrementTTLs_h_def age_all_frame)

section \<open>Callers that write to everything they can reach\<close>

text \<open>
  The messages and records the callers hold pointers to. A caller allocates messages, overwrites
  records and messages it knows (linking records it knows), hands a message to \<open>Store\<close> and
  receives the message of \<open>Get\<close>. A step carries the cache operation it performs on message
  values, with the message \<open>Get\<close> delivers.
\<close>

record world =
  w_heap :: heap
  w_cache :: "nat LRU"
  w_msgs :: "nat set"
  w_rrs :: "nat set"

inductive alias_step :: "world \<Rightarrow> (cache_op \<times> msg option) option \<Rightarrow> world \<Rightarrow> bool" where
  store: "a \<in> w_msgs w \<Longrightarrow> Store_h (w_heap w) (w_cache w) k a ttl t = (h', c') \<Longrightarrow>
    alias_step w (Some (OpStore k (read_msg (w_heap w) a) ttl t, None))
      (w\<lparr>w_heap := h', w_cache := c'\<rparr>)"
| get_miss: "Get_h (w_heap w) (w_cache w) k t = (h', None, c') \<Longrightarrow>
    alias_step w (Some (OpGet k t, None)) (w\<lparr>w_heap := h', w_cache := c'\<rparr>)"
| get_hit: "Get_h (w_heap w) (w_cache w) k t = (h', Some a, c') \<Longrightarrow>
    alias_step w (Some (OpGet k t, Some (read_msg h' a)))
      (w\<lparr>w_heap := h', w_cache := c', w_msgs := insert a (w_msgs w),
         w_rrs := set (sections (hp_msg h' a)) \<union> w_rrs w\<rparr>)"
| write_rr: "r \<in> w_rrs w \<Longrightarrow>
    alias_step w None (w\<lparr>w_heap := (w_heap w)\<lparr>hp_rr := (hp_rr (w_heap w))(r := x)\<rparr>\<rparr>)"
| write_msg: "a \<in> w_msgs w \<Longrightarrow> set (sections m) \<subseteq> w_rrs w \<Longrightarrow>
    alias_step w None (w\<lparr>w_heap := (w_heap w)\<lparr>hp_msg := (hp_msg (w_heap w))(a := m)\<rparr>\<rparr>)"
| new_rr: "r = hp_lim (w_heap w) \<Longrightarrow>
    alias_step w None (w\<lparr>w_heap := (w_heap w)\<lparr>hp_rr := (hp_rr (w_heap w))(r := x),
        hp_lim := Suc r\<rparr>, w_rrs := insert r (w_rrs w)\<rparr>)"
| new_msg: "a = hp_lim (w_heap w) \<Longrightarrow> set (sections m) \<subseteq> w_rrs w \<Longrightarrow>
    alias_step w None (w\<lparr>w_heap := (w_heap w)\<lparr>hp_msg := (hp_msg (w_heap w))(a := m),
        hp_lim := Suc a\<rparr>, w_msgs := insert a (w_msgs w)\<rparr>)"

inductive alias_run :: "world \<Rightarrow> (cache_op \<times> msg option) list \<Rightarrow> world \<Rightarrow> bool" where
  run_nil: "alias_run w [] w"
| run_silent: "alias_step w None w' \<Longrightarrow> alias_run w' tr w'' \<Longrightarrow> alias_run w tr w''"
| run_op: "alias_step w (Some x) w' \<Longrightarrow> alias_run w' tr w'' \<Longrightarrow> alias_run w (x # tr) w''"

definition zero_pmsg :: pmsg where
  "zero_pmsg = \<lparr>pm_ID = 0, pm_Response = False, pm_Truncated = False, pm_Rcode = 0, pm_Rest = [],
     pm_Question = [], pm_Answer = [], pm_Ns = [], pm_Extra = [], pm_Data = None\<rparr>"

definition zero_rr :: rr where
  "zero_rr = \<lparr>rr_Name = [], rr_Class = 0, rr_TTL = 0, rr_Data = RD_Other 0 []\<rparr>"

definition empty_world :: "int \<Rightarrow> world" where
  "empty_world cap =
     \<lparr>w_heap = \<lparr>hp_msg = (\<lambda>_. zero_pmsg), hp_rr = (\<lambda>_. zero_rr), hp_lim = 0\<rparr>,
      w_cache = new_lru 0 cap, w_msgs = {}, w_rrs = {}\<rparr>"

section \<open>The coupling with the cache on values\<close>

definition read_entry :: "heap \<Rightarrow> nat entry \<Rightarrow> msg entry" where
  "read_entry h e = \<lparr>e_key = e_key e, e_response = read_msg h (e_response e),
     e_storedAt = e_storedAt e, e_expiresAt = e_expiresAt e\<rparr>"

lemma read_entry_sel [simp]:
  "e_key (read_entry h e) = e_key e" "e_storedAt (read_entry h e) = e_storedAt e"
  "e_expiresAt (read_entry h e) = e_expiresAt e"
  "e_response (read_entry h e) = read_msg h (e_response e)"
  by (simp_all add: read_entry_def)

lemma entry_age_read [simp]: "entry_age t (read_entry h e) = entry_age t e"
  by (simp add: entry_age_def)

definition held :: "world \<Rightarrow> nat set" where
  "held w = e_response ` set (lru_abs (w_cache w))"

text \<open>
  The invariant: what the cache holds is allocated and out of the callers' reach; what the callers
  reach is allocated and closed under following pointers.
\<close>

definition is_private :: "world \<Rightarrow> nat \<Rightarrow> bool" where
  "is_private w a \<longleftrightarrow> msg_ok (w_heap w) a \<and> a \<notin> w_msgs w
     \<and> set (sections (hp_msg (w_heap w) a)) \<inter> w_rrs w = {}"

definition client_ok :: "world \<Rightarrow> bool" where
  "client_ok w \<longleftrightarrow>
     (\<forall>a \<in> w_msgs w. a < hp_lim (w_heap w) \<and> set (sections (hp_msg (w_heap w) a)) \<subseteq> w_rrs w)
     \<and> (\<forall>r \<in> w_rrs w. r < hp_lim (w_heap w))"

definition world_ok :: "world \<Rightarrow> bool" where
  "world_ok w \<longleftrightarrow> lru_inv (w_cache w) \<and> (\<forall>a \<in> held w. is_private w a) \<and> client_ok w"

definition held_values :: "world \<Rightarrow> msg entry list" where
  "held_values w = map (read_entry (w_heap w)) (lru_abs (w_cache w))"

lemma world_okD:
  assumes "world_ok w"
  shows "lru_inv (w_cache w)"
    and "\<And>a. a \<in> held w \<Longrightarrow> is_private w a"
    and "\<And>a. a \<in> held w \<Longrightarrow> msg_ok (w_heap w) a"
    and "client_ok w"
    and "\<And>a. a \<in> w_msgs w \<Longrightarrow> msg_ok (w_heap w) a"
    and "\<And>a. a \<in> w_msgs w \<Longrightarrow> set (sections (hp_msg (w_heap w) a)) \<subseteq> w_rrs w"
    and "\<And>r. r \<in> w_rrs w \<Longrightarrow> r < hp_lim (w_heap w)"
  using assms by (auto simp: world_ok_def msg_ok_def is_private_def client_ok_def)

lemma cache_irrelevant [simp]:
  "is_private (w\<lparr>w_cache := c\<rparr>) a = is_private w a" "client_ok (w\<lparr>w_cache := c\<rparr>) = client_ok w"
  by (simp_all add: is_private_def client_ok_def)

lemma held_simps [simp]:
  "held (w\<lparr>w_heap := h\<rparr>) = held w" "held (w\<lparr>w_msgs := M\<rparr>) = held w"
  "held (w\<lparr>w_rrs := R\<rparr>) = held w"
  by (simp_all add: held_def)

text \<open>Extending the heap preserves the invariant and every held value.\<close>

lemma extends_world:
  assumes ok: "world_ok w" and ext: "extends (w_heap w) h'"
  shows "world_ok (w\<lparr>w_heap := h'\<rparr>)" and "held_values (w\<lparr>w_heap := h'\<rparr>) = held_values w"
proof -
  note eh = extends_read [OF ext world_okD(3) [OF ok]]
  note em = extends_read [OF ext world_okD(5) [OF ok]]
  have "r < hp_lim h'" if "r \<in> w_rrs w" for r
    using world_okD(7) [OF ok that] ext by (simp add: extends_def)
  then have "client_ok (w\<lparr>w_heap := h'\<rparr>)"
    using em(2,3) world_okD(6) [OF ok] by (simp add: client_ok_def msg_ok_def)
  moreover have "is_private (w\<lparr>w_heap := h'\<rparr>) a" if "a \<in> held w" for a
    using eh(2,3) [OF that] world_okD(2) [OF ok that] by (simp add: is_private_def)
  ultimately show "world_ok (w\<lparr>w_heap := h'\<rparr>)"
    using world_okD(1) [OF ok] by (simp add: world_ok_def)
  have "read_entry h' e = read_entry (w_heap w) e" if "e \<in> set (lru_abs (w_cache w))" for e
    using eh(1) [of "e_response e"] that by (simp add: read_entry_def held_def)
  then show "held_values (w\<lparr>w_heap := h'\<rparr>) = held_values w" by (simp add: held_values_def)
qed

text \<open>The abstract operations do not look at the responses.\<close>

lemma spec_store_read:
  "spec_store cap (read_entry h e) (map (read_entry h) es) = map (read_entry h) (spec_store cap e es)"
  by (simp add: spec_store_def filter_map comp_def take_map take_Cons split: nat.splits)

lemma spec_find_read:
  "spec_find k t (map (read_entry h) es) =
     (map_option (read_entry h) (fst (spec_find k t es)), map (read_entry h) (snd (spec_find k t es)))"
  by (simp add: spec_find_def find_map filter_map comp_def Let_def split: option.splits)

lemma set_spec_store: "set (spec_store cap e es) \<subseteq> insert e (set es)"
  using set_take_subset [of "nat cap" "e # filter (\<lambda>x. e_key x \<noteq> e_key e) es"]
  by (auto simp: spec_store_def)

lemma set_spec_find: "set (snd (spec_find k t es)) \<subseteq> set es"
  by (auto simp: spec_find_def Let_def split: option.splits dest: find_SomeD)

lemma spec_find_in: "fst (spec_find k t es) = Some e \<Longrightarrow> e \<in> set es"
  by (auto simp: spec_find_def Let_def split: option.splits if_splits dest: find_SomeD)

text \<open>Replacing the cache by one that holds fewer messages, or private fresh ones.\<close>

lemma world_ok_cache:
  assumes "world_ok w" and "lru_inv c'"
    and "\<And>a. a \<in> e_response ` set (lru_abs c') \<Longrightarrow> a \<in> held w \<or> is_private w a"
  shows "world_ok (w\<lparr>w_cache := c'\<rparr>)"
proof -
  have "is_private w a" if "a \<in> held (w\<lparr>w_cache := c'\<rparr>)" for a
    using assms(3) [of a] world_okD(2) [OF assms(1), of a] that by (auto simp: held_def)
  then show ?thesis using assms(2) world_okD(4) [OF assms(1)] by (simp add: world_ok_def)
qed

text \<open>A freshly allocated message is private.\<close>

lemma fresh_private:
  assumes ok: "world_ok w" and "extends (w_heap w) h'" and "hp_lim (w_heap w) \<le> a" "a < hp_lim h'"
    and "\<forall>r \<in> set (sections (hp_msg h' a)). hp_lim (w_heap w) \<le> r \<and> r < hp_lim h'"
  shows "is_private (w\<lparr>w_heap := h'\<rparr>) a"
proof -
  have "a \<notin> w_msgs w" using world_okD(5) [OF ok, of a] assms(3) by (auto simp: msg_ok_def)
  moreover have "r \<notin> w_rrs w" if "r \<in> set (sections (hp_msg h' a))" for r
    using world_okD(7) [OF ok, of r] assms(5) that by force
  ultimately show ?thesis using assms(4,5) by (auto simp: is_private_def msg_ok_def)
qed

lemma store_step:
  assumes ok: "world_ok w" and a: "a \<in> w_msgs w"
    and st: "Store_h (w_heap w) (w_cache w) k a ttl t = (h', c')"
  shows "world_ok (w\<lparr>w_heap := h', w_cache := c'\<rparr>)"
    and "held_values (w\<lparr>w_heap := h', w_cache := c'\<rparr>) =
      spec_store (l_capacity (w_cache w)) (new_entry k (CloneMsg (read_msg (w_heap w) a)) ttl t)
        (held_values w)"
    and "l_capacity c' = l_capacity (w_cache w)"
proof -
  let ?h = "w_heap w" and ?c = "w_cache w"
  obtain a' where cl: "CloneMsg_h ?h a = (h', a')" and c': "c' = lru_put ?c (new_entry k a' ttl t)"
    using st by (auto simp: Store_h_def split: prod.splits)
  note cs = CloneMsg_h_spec [OF world_okD(5) [OF ok a] cl]
  have w': "world_ok (w\<lparr>w_heap := h'\<rparr>)" and hv: "held_values (w\<lparr>w_heap := h'\<rparr>) = held_values w"
    by (rule extends_world [OF ok cs(1)])+
  have fresh: "is_private (w\<lparr>w_heap := h'\<rparr>) a'"
    by (rule fresh_private [OF ok cs(1) _ cs(3,6)]) (simp add: cs(2))
  have abs: "lru_abs c' = spec_store (l_capacity ?c) (new_entry k a' ttl t) (lru_abs ?c)"
    using put_abs [OF world_okD(1) [OF ok]] by (simp add: c')
  then have "x \<in> held w \<or> x = a'" if "x \<in> e_response ` set (lru_abs c')" for x
    using that set_spec_store [of "l_capacity ?c" "new_entry k a' ttl t" "lru_abs ?c"]
    by (auto simp: held_def)
  then have "world_ok (w\<lparr>w_heap := h'\<rparr>\<lparr>w_cache := c'\<rparr>)"
    by (intro world_ok_cache [OF w']) (use fresh put_inv [OF world_okD(1) [OF ok]] c' in force)+
  then show "world_ok (w\<lparr>w_heap := h', w_cache := c'\<rparr>)" by simp
  have "read_entry h' (new_entry k a' ttl t) = new_entry k (CloneMsg (read_msg ?h a)) ttl t"
    by (simp add: read_entry_def new_entry_def cs(4))
  then show "held_values (w\<lparr>w_heap := h', w_cache := c'\<rparr>) =
      spec_store (l_capacity ?c) (new_entry k (CloneMsg (read_msg ?h a)) ttl t) (held_values w)"
    using hv spec_store_read [of "l_capacity ?c" h' "new_entry k a' ttl t" "lru_abs ?c"]
    by (simp add: held_values_def abs del: map_eq_conv)
  show "l_capacity c' = l_capacity ?c" by (simp add: c')
qed

lemma find_step:
  assumes ok: "world_ok w" and f: "lru_find (w_cache w) k t = (r, c')"
  shows "world_ok (w\<lparr>w_cache := c'\<rparr>)"
    and "spec_find k t (held_values w)
      = (map_option (read_entry (w_heap w)) r, held_values (w\<lparr>w_cache := c'\<rparr>))"
    and "r = Some e \<Longrightarrow> e_response e \<in> held w"
    and "l_capacity c' = l_capacity (w_cache w)"
proof -
  have inv: "lru_inv (w_cache w)" by (rule world_okD(1) [OF ok])
  have abs: "spec_find k t (lru_abs (w_cache w)) = (r, lru_abs c')"
    using find_abs [OF inv, of k t] f by (simp add: prod_eq_iff)
  have "set (lru_abs c') \<subseteq> set (lru_abs (w_cache w))"
    using set_spec_find [of k t "lru_abs (w_cache w)"] abs by simp
  then show "world_ok (w\<lparr>w_cache := c'\<rparr>)"
    by (intro world_ok_cache [OF ok]) (use find_inv [OF inv, of k t] f in \<open>auto simp: held_def\<close>)
  show "spec_find k t (held_values w)
      = (map_option (read_entry (w_heap w)) r, held_values (w\<lparr>w_cache := c'\<rparr>))"
    by (simp add: held_values_def spec_find_read abs)
  show "e_response e \<in> held w" if "r = Some e"
    using spec_find_in [of k t "lru_abs (w_cache w)" e] abs that by (simp add: held_def)
  show "l_capacity c' = l_capacity (w_cache w)"
    using f by (auto simp: lru_find_def Let_def split: option.splits if_splits)
qed


text \<open>Fresh objects may be handed to the callers.\<close>

lemma grow_world:
  assumes ok: "world_ok w" and ext: "extends (w_heap w) h'"
    and M: "\<And>a. a \<in> M \<Longrightarrow> hp_lim (w_heap w) \<le> a \<and> a < hp_lim h'
      \<and> set (sections (hp_msg h' a)) \<subseteq> R \<union> w_rrs w"
    and R: "\<And>r. r \<in> R \<Longrightarrow> hp_lim (w_heap w) \<le> r \<and> r < hp_lim h'"
  shows "world_ok (w\<lparr>w_heap := h', w_msgs := M \<union> w_msgs w, w_rrs := R \<union> w_rrs w\<rparr>)"
    (is "world_ok ?w'")
proof -
  have w1: "world_ok (w\<lparr>w_heap := h'\<rparr>)" by (rule extends_world [OF ok ext])
  have "is_private ?w' a" if a: "a \<in> held w" for a
  proof -
    have "msg_ok (w_heap w) a" by (rule world_okD(3) [OF ok a])
    moreover have "is_private (w\<lparr>w_heap := h'\<rparr>) a" using world_okD(2) [OF w1] a by simp
    moreover have "hp_msg h' a = hp_msg (w_heap w) a"
      by (rule extends_read(3) [OF ext world_okD(3) [OF ok a]])
    ultimately show ?thesis using M R by (fastforce simp: is_private_def msg_ok_def)
  qed
  moreover have "client_ok ?w'"
    using world_okD(5-7) [OF w1] M R
    by (auto simp: client_ok_def msg_ok_def) (metis UnE in_mono)
  ultimately show ?thesis using world_okD(1) [OF ok] by (simp add: world_ok_def held_def)
qed

text \<open>Writes of the callers stay within their reach.\<close>

lemma client_write:
  assumes ok: "world_ok w" and lim: "hp_lim h' = hp_lim (w_heap w)"
    and rrs: "\<And>r. r \<notin> w_rrs w \<Longrightarrow> hp_rr h' r = hp_rr (w_heap w) r"
    and msgs: "\<And>a. a \<notin> w_msgs w \<Longrightarrow> hp_msg h' a = hp_msg (w_heap w) a"
    and closed: "\<And>a. a \<in> w_msgs w \<Longrightarrow> set (sections (hp_msg h' a)) \<subseteq> w_rrs w"
  shows "world_ok (w\<lparr>w_heap := h'\<rparr>)" and "held_values (w\<lparr>w_heap := h'\<rparr>) = held_values w"
proof -
  have m: "hp_msg h' a = hp_msg (w_heap w) a" if "a \<in> held w" for a
    using msgs world_okD(2) [OF ok that] by (simp add: is_private_def)
  have "is_private (w\<lparr>w_heap := h'\<rparr>) a" if "a \<in> held w" for a
    using m [OF that] lim world_okD(2) [OF ok that] by (simp add: is_private_def msg_ok_def)
  moreover have "client_ok (w\<lparr>w_heap := h'\<rparr>)"
    using closed world_okD(5,7) [OF ok] lim by (simp add: client_ok_def msg_ok_def)
  ultimately show "world_ok (w\<lparr>w_heap := h'\<rparr>)"
    using world_okD(1) [OF ok] by (simp add: world_ok_def)
  have "read_msg h' a = read_msg (w_heap w) a" if a: "a \<in> held w" for a
  proof -
    have "\<forall>r \<in> set (sections (hp_msg (w_heap w) a)). hp_rr h' r = hp_rr (w_heap w) r"
      using world_okD(2) [OF ok a] rrs by (auto simp: is_private_def)
    then show ?thesis by (simp add: read_msg_def Let_def m [OF a] sections_def)
  qed
  then show "held_values (w\<lparr>w_heap := h'\<rparr>) = held_values w"
    by (simp add: held_values_def read_entry_def held_def)
qed

text \<open>A hit delivers a fresh aged copy of the held value.\<close>

lemma hit_copy:
  assumes ok: "msg_ok h (e_response e)" and cl: "CloneMsg_h h (e_response e) = (h1, a)"
    and h': "h' = decrementTTLs_h h1 a (entry_age t e)"
  shows "extends h h'" and "read_msg h' a = served t (read_entry h e)"
    and "hp_lim h \<le> a" and "a < hp_lim h'"
    and "\<forall>r \<in> set (sections (hp_msg h' a)). hp_lim h \<le> r \<and> r < hp_lim h'"
proof -
  note cs = CloneMsg_h_spec [OF ok cl]
  note ds = decrementTTLs_h_spec [OF cs(5)]
  show "read_msg h' a = served t (read_entry h e)" by (simp add: h' ds(1) served_def cs(4))
  show "hp_lim h \<le> a" "a < hp_lim h'" using cs(2,3) ds(3) by (simp_all add: h')
  show "\<forall>r \<in> set (sections (hp_msg h' a)). hp_lim h \<le> r \<and> r < hp_lim h'"
    using cs(6) ds(2,3) by (simp add: h')
  have "hp_rr h' x = hp_rr h x \<and> hp_msg h' x = hp_msg h x" if "x < hp_lim h" for x
  proof -
    have "x \<notin> set (sections (hp_msg h1 a))" using cs(6) that by force
    then show ?thesis using ds(2,4) cs(1) that by (simp add: h' extends_def)
  qed
  then show "extends h h'" using cs(1) ds(3) by (simp add: h' extends_def)
qed

lemma heap_over_cache [simp]:
  "w\<lparr>w_cache := c, w_heap := h\<rparr> = w\<lparr>w_heap := h, w_cache := c\<rparr>"
  by (cases w) simp

lemma held_values_client [simp]:
  "held_values (w\<lparr>w_msgs := M\<rparr>) = held_values w" "held_values (w\<lparr>w_rrs := R\<rparr>) = held_values w"
  by (simp_all add: held_values_def)

lemma hit_step:
  assumes ok: "world_ok w" and g: "Get_h (w_heap w) (w_cache w) k t = (h', Some a, c')"
  shows "world_ok (w\<lparr>w_heap := h', w_cache := c', w_msgs := insert a (w_msgs w),
         w_rrs := set (sections (hp_msg h' a)) \<union> w_rrs w\<rparr>)"
    and "spec_get k t (held_values w) = (Some (read_msg h' a),
      held_values (w\<lparr>w_heap := h', w_cache := c'\<rparr>))"
    and "l_capacity c' = l_capacity (w_cache w)"
proof -
  let ?h = "w_heap w"
  obtain e h1 where f: "lru_find (w_cache w) k t = (Some e, c')"
    and cl: "CloneMsg_h ?h (e_response e) = (h1, a)"
    and h': "h' = decrementTTLs_h h1 a (entry_age t e)"
    using g by (auto simp: Get_h_def split: prod.splits option.splits)
  note fs = find_step [OF ok f]
  note hc = hit_copy [OF world_okD(3) [OF ok fs(3) [OF refl]] cl h']
  have "world_ok (w\<lparr>w_cache := c', w_heap := h', w_msgs := {a} \<union> w_msgs w,
      w_rrs := set (sections (hp_msg h' a)) \<union> w_rrs w\<rparr>)"
    using grow_world [OF fs(1), of h' "{a}" "set (sections (hp_msg h' a))"] hc by simp
  then show "world_ok (w\<lparr>w_heap := h', w_cache := c', w_msgs := insert a (w_msgs w),
         w_rrs := set (sections (hp_msg h' a)) \<union> w_rrs w\<rparr>)" by simp
  show "l_capacity c' = l_capacity (w_cache w)" by (rule fs(4))
  have "held_values (w\<lparr>w_cache := c', w_heap := h'\<rparr>) = held_values (w\<lparr>w_cache := c'\<rparr>)"
    using extends_world(2) [OF fs(1), of h'] hc(1) by simp
  then show "spec_get k t (held_values w) = (Some (read_msg h' a),
      held_values (w\<lparr>w_heap := h', w_cache := c'\<rparr>))"
    using fs(2) by (simp add: spec_get_def hc(2) held_values_def)
qed

lemma miss_step:
  assumes ok: "world_ok w" and g: "Get_h (w_heap w) (w_cache w) k t = (h', None, c')"
  shows "world_ok (w\<lparr>w_heap := h', w_cache := c'\<rparr>)"
    and "spec_get k t (held_values w) = (None, held_values (w\<lparr>w_heap := h', w_cache := c'\<rparr>))"
    and "l_capacity c' = l_capacity (w_cache w)"
proof -
  have f: "lru_find (w_cache w) k t = (None, c')" and h': "h' = w_heap w"
    using g by (auto simp: Get_h_def split: prod.splits option.splits)
  note fs = find_step [OF ok f]
  show "world_ok (w\<lparr>w_heap := h', w_cache := c'\<rparr>)" using fs(1) by (simp add: h')
  show "spec_get k t (held_values w) = (None, held_values (w\<lparr>w_heap := h', w_cache := c'\<rparr>))"
    using fs(2) by (simp add: spec_get_def h')
  show "l_capacity c' = l_capacity (w_cache w)" by (rule fs(4))
qed

text \<open>Allocation and writes by the callers are invisible.\<close>

lemma silent_step:
  assumes "alias_step w None w'" and ok: "world_ok w"
  shows "world_ok w' \<and> held_values w' = held_values w \<and> w_cache w' = w_cache w"
  using assms(1)
proof cases
  case (write_rr r x)
  let ?h' = "(w_heap w)\<lparr>hp_rr := (hp_rr (w_heap w))(r := x)\<rparr>"
  have "world_ok (w\<lparr>w_heap := ?h'\<rparr>)" "held_values (w\<lparr>w_heap := ?h'\<rparr>) = held_values w"
    by (rule client_write [OF ok], use write_rr world_okD(6) [OF ok] in auto)+
  then show ?thesis by (simp add: write_rr)
next
  case (write_msg a m)
  let ?h' = "(w_heap w)\<lparr>hp_msg := (hp_msg (w_heap w))(a := m)\<rparr>"
  have "world_ok (w\<lparr>w_heap := ?h'\<rparr>)" "held_values (w\<lparr>w_heap := ?h'\<rparr>) = held_values w"
    by (rule client_write [OF ok], use write_msg world_okD(6) [OF ok] in auto)+
  then show ?thesis by (simp add: write_msg)
next
  case (new_rr r x)
  let ?h' = "(w_heap w)\<lparr>hp_rr := (hp_rr (w_heap w))(r := x), hp_lim := Suc r\<rparr>"
  have ext: "extends (w_heap w) ?h'" using new_rr by (simp add: extends_def)
  have "world_ok (w\<lparr>w_heap := ?h', w_msgs := {} \<union> w_msgs w, w_rrs := {r} \<union> w_rrs w\<rparr>)"
    by (rule grow_world [OF ok ext]) (use new_rr in auto)
  then show ?thesis using extends_world(2) [OF ok ext] by (simp add: new_rr)
next
  case (new_msg a m)
  let ?h' = "(w_heap w)\<lparr>hp_msg := (hp_msg (w_heap w))(a := m), hp_lim := Suc a\<rparr>"
  have ext: "extends (w_heap w) ?h'" using new_msg by (simp add: extends_def)
  have "world_ok (w\<lparr>w_heap := ?h', w_msgs := {a} \<union> w_msgs w, w_rrs := {} \<union> w_rrs w\<rparr>)"
    by (rule grow_world [OF ok ext]) (use new_msg in auto)
  then show ?thesis using extends_world(2) [OF ok ext] by (simp add: new_msg)
qed

lemma cache_step:
  assumes "alias_step w (Some (x, r)) w'" and ok: "world_ok w"
  shows "world_ok w' \<and> l_capacity (w_cache w') = l_capacity (w_cache w)
    \<and> spec_op (l_capacity (w_cache w)) (held_values w) x = (r, held_values w')"
  using assms(1)
proof cases
  case (store a k ttl t h' c')
  then show ?thesis using store_step [OF ok store(4,5)] by simp
next
  case (get_miss k t h' c')
  then show ?thesis using miss_step [OF ok get_miss(4)] by simp
next
  case (get_hit k t h' a c')
  then show ?thesis using hit_step [OF ok get_hit(4)] by simp
qed

lemma alias_run_spec:
  "alias_run w tr w' \<Longrightarrow> world_ok w \<Longrightarrow>
     spec_ops (l_capacity (w_cache w)) (held_values w) (map fst tr) = (map snd tr, held_values w')"
proof (induction rule: alias_run.induct)
  case (run_silent w w' tr w'')
  then show ?case using silent_step [OF run_silent.hyps(1) run_silent.prems] by simp
next
  case (run_op w x w' tr w'')
  obtain y r where x: "x = (y, r)" by fastforce
  then show ?case
    using cache_step [of w y r w'] run_op by (simp split: prod.splits)
qed simp

lemma empty_world_ok: "world_ok (empty_world cap)"
  by (simp add: world_ok_def empty_world_def new_lru_inv held_def client_ok_def)
    (simp add: lru_abs_def new_lru_def)

section \<open>Properties\<close>

text \<open>C10: Whatever the callers of the cache write into the messages they passed to \<open>Store\<close> or
  received from \<open>Get\<close>, at any point of a run, every \<open>Get\<close> delivers what the cache on
  immutable message values delivers for the same calls, the value of each stored message being the
  one it had when \<open>Store\<close> was called: stored and returned messages share no memory.\<close>

theorem callers_cannot_corrupt_cache:
  assumes "alias_run (empty_world cap) tr w"
  shows "map snd tr = fst (run_ops (NewLRU cap) (map fst tr))"
proof -
  have c: "l_capacity (w_cache (empty_world cap)) = l_capacity (NewLRU cap)"
    "held_values (empty_world cap) = lru_abs (NewLRU cap)"
    by (simp_all add: empty_world_def NewLRU_def new_lru_def held_values_def lru_abs_def)
  show ?thesis
    using alias_run_spec [OF assms empty_world_ok] run_ops_refines [OF NewLRU_inv, of cap "map fst tr"]
    by (simp add: c)
qed

theorem callers_cannot_corrupt_cache_witness:
  "\<exists>m r w. alias_run (empty_world 4) [(OpStore ''k'' m 9 0, None), (OpGet ''k'' 5, Some r)] w
     \<and> msg_ID (read_msg (w_heap w) 0) = 9 \<and> msg_ID r = 0
     \<and> [None, Some r] = fst (run_ops (NewLRU 4) [OpStore ''k'' m 9 0, OpGet ''k'' 5])"
proof -
  let ?new = "(empty_world 4)\<lparr>w_heap := (w_heap (empty_world 4))
    \<lparr>hp_msg := (hp_msg (w_heap (empty_world 4)))(0 := zero_pmsg), hp_lim := Suc 0\<rparr>,
    w_msgs := insert 0 (w_msgs (empty_world 4))\<rparr>"
  let ?st = "Store_h (w_heap ?new) (w_cache ?new) ''k'' 0 9 0"
  let ?w2 = "?new\<lparr>w_heap := fst ?st, w_cache := snd ?st\<rparr>"
  let ?w3 = "?w2\<lparr>w_heap := (w_heap ?w2)\<lparr>hp_msg := (hp_msg (w_heap ?w2))(0 := zero_pmsg\<lparr>pm_ID := 9\<rparr>)\<rparr>\<rparr>"
  let ?g = "Get_h (w_heap ?w3) (w_cache ?w3) ''k'' 5"
  let ?a = "the (fst (snd ?g))"
  let ?w4 = "?w3\<lparr>w_heap := fst ?g, w_cache := snd (snd ?g), w_msgs := insert ?a (w_msgs ?w3),
         w_rrs := set (sections (hp_msg (fst ?g) ?a)) \<union> w_rrs ?w3\<rparr>"
  let ?m = "read_msg (w_heap ?new) 0" and ?r = "read_msg (fst ?g) ?a"
  have hit: "?g = (fst ?g, Some ?a, snd (snd ?g))"
    and ids: "msg_ID (read_msg (fst ?g) 0) = 9" "msg_ID ?r = 0"
    by (simp_all add: empty_world_def Store_h_def Get_h_def CloneMsg_h_def zero_pmsg_def new_lru_def
        lru_put_def lru_find_def new_entry_def read_msg_def Let_def evict_fits decrementTTLs_h_def
        sections_def)
  have s1: "alias_step (empty_world 4) None ?new"
    by (rule alias_step.new_msg) (simp_all add: empty_world_def zero_pmsg_def sections_def)
  have s2: "alias_step ?new (Some (OpStore ''k'' ?m 9 0, None)) ?w2"
    by (rule alias_step.store) simp_all
  have s3: "alias_step ?w2 None ?w3"
    by (rule alias_step.write_msg) (simp_all add: zero_pmsg_def sections_def)
  have s4: "alias_step ?w3 (Some (OpGet ''k'' 5, Some ?r)) ?w4"
    by (rule alias_step.get_hit) (rule hit)
  have run: "alias_run (empty_world 4) [(OpStore ''k'' ?m 9 0, None), (OpGet ''k'' 5, Some ?r)] ?w4"
    by (rule alias_run.run_silent [OF s1], rule alias_run.run_op [OF s2],
        rule alias_run.run_silent [OF s3], rule alias_run.run_op [OF s4], rule alias_run.run_nil)
  then show ?thesis using callers_cannot_corrupt_cache [OF run] ids by (intro exI [of _ ?m] exI [of _ ?r]
      exI [of _ ?w4]) simp
qed

end
