(* ===== verification/Blocklist_Parse.thy ===== *)
theory Blocklist_Parse
  imports Go_Strings
begin

text \<open>
  The blocklist line parser (\<open>internal/blocklist/parse.go\<close>), the canonical form of a name
  (\<open>matcher.go\<close>) and the readers built on the parser (\<open>file_source.go\<close>,
  \<open>http_source.go\<close>). The lemmas show that what the parser accepts is exactly what the
  grammar of host names allows, that an accepted name is its own canonical form, and that the
  documented line formats are accepted.
\<close>

section \<open>Definitions\<close>

definition canonicalise :: "string \<Rightarrow> string" where
  "canonicalise s = TrimSuffix (ToLower (TrimSpace s)) ''.''"

definition isHostsAnchor :: "string \<Rightarrow> bool" where
  "isHostsAnchor s \<longleftrightarrow> s \<in> set [''0.0.0.0'', ''127.0.0.1'', ''::'', ''::1'']"

text \<open>The body of the loop over the labels: the conditions under which it goes on.\<close>

definition label_ok :: "string \<Rightarrow> bool" where
  "label_ok label =
     (if length label = 0 \<or> 63 < length label then False
      else if hd label = CHR ''-'' \<or> last label = CHR ''-'' then False
      else list_all (\<lambda>c. (byte (CHR ''a'') \<le> byte c \<and> byte c \<le> byte (CHR ''z''))
                       \<or> (byte (CHR ''0'') \<le> byte c \<and> byte c \<le> byte (CHR ''9''))
                       \<or> c = CHR ''-'') label)"

definition isValidFQDN :: "string \<Rightarrow> bool" where
  "isValidFQDN s =
     (if s = [] \<or> 253 < length s then False else list_all label_ok (Split s (CHR ''.'')))"

definition utf8_bom :: string where
  "utf8_bom = [CHR 0xEF, CHR 0xBB, CHR 0xBF]"

definition ParseLine :: "string \<Rightarrow> string option" where
  "ParseLine line0 =
     (let line = TrimSpace (TrimPrefix line0 utf8_bom) in
      if line = [] then None
      else if hd line \<in> {CHR ''#'', CHR '';'', CHR ''!''} then None
      else
        (case (case Fields line of
                 [f] \<Rightarrow> Some f
               | [f, g] \<Rightarrow> if isHostsAnchor f then Some g else None
               | _ \<Rightarrow> None) of
           None \<Rightarrow> None
         | Some domain0 \<Rightarrow>
             let domain = canonicalise domain0 in
             if \<not> isValidFQDN domain then None else Some domain))"

text \<open>
  \<open>parseReader\<close>: \<open>ctxerr i\<close> is what \<open>ctx.Err()\<close> gives after the \<open>i\<close>-th line was scanned,
  \<open>body\<close> the bytes the reader delivers and \<open>rerr\<close> the error, if any, it ends with instead of
  the end of file.
\<close>

definition scanner_max :: nat where "scanner_max = 1024 * 1024"

fun parse_loop :: "(nat \<Rightarrow> goerror option) \<Rightarrow> nat \<Rightarrow> string list \<Rightarrow> string list
    \<Rightarrow> goerror + string list" where
  "parse_loop ctxerr i [] out = Inr out"
| "parse_loop ctxerr i (l # ls) out =
     (case ctxerr i of
        Some e \<Rightarrow> Inl e
      | None \<Rightarrow>
          (case ParseLine l of
             Some d \<Rightarrow> parse_loop ctxerr (Suc i) ls (out @ [d])
           | None \<Rightarrow> parse_loop ctxerr (Suc i) ls out))"

definition parseReader :: "(nat \<Rightarrow> goerror option) \<Rightarrow> string \<Rightarrow> goerror option
    \<Rightarrow> goerror + string list" where
  "parseReader ctxerr body rerr =
     (case scan_lines scanner_max (raw_lines body) of
        ScanOK ls \<Rightarrow>
          (case parse_loop ctxerr 0 ls [] of
             Inl e \<Rightarrow> Inl e
           | Inr out \<Rightarrow> (case rerr of Some e \<Rightarrow> Inl e | None \<Rightarrow> Inr out))
      | ScanTooLong ls \<Rightarrow>
          (case parse_loop ctxerr 0 ls [] of
             Inl e \<Rightarrow> Inl e
           | Inr out \<Rightarrow> Inl (ErrNew ''bufio.Scanner: token too long'')))"

definition no_ctx_err :: "nat \<Rightarrow> goerror option" where
  "no_ctx_err = (\<lambda>_. None)"

definition parseBody :: "string \<Rightarrow> string list" where
  "parseBody body =
     (case parseReader no_ctx_err body None of Inl _ \<Rightarrow> [] | Inr out \<Rightarrow> out)"

section \<open>Valid names\<close>

text \<open>The grammar of names, stated on the labels and not on the loop.\<close>

definition fqdn_labels :: "string list \<Rightarrow> bool" where
  "fqdn_labels ls \<longleftrightarrow>
     ls \<noteq> [] \<and> (\<forall>l \<in> set ls. l \<noteq> [] \<and> length l \<le> 63 \<and> set l \<subseteq> Collect ldh
                       \<and> hd l \<noteq> CHR ''-'' \<and> last l \<noteq> CHR ''-'')"

lemma label_ok_iff:
  "label_ok l \<longleftrightarrow> l \<noteq> [] \<and> length l \<le> 63 \<and> set l \<subseteq> Collect ldh
     \<and> hd l \<noteq> CHR ''-'' \<and> last l \<noteq> CHR ''-''"
  by (auto simp: label_ok_def list_all_iff ldh_def)

lemma fqdn_labels_iff: "fqdn_labels ls \<longleftrightarrow> ls \<noteq> [] \<and> list_all label_ok ls"
  by (simp add: fqdn_labels_def list_all_iff label_ok_iff)

lemma label_ok_no_dot: "label_ok l \<Longrightarrow> CHR ''.'' \<notin> set l"
  using ldh_not_dot by (auto simp: label_ok_iff)

lemma isValidFQDN_labels:
  "isValidFQDN s \<longleftrightarrow> (\<exists>ls. fqdn_labels ls \<and> s = join_on (CHR ''.'') ls \<and> length s \<le> 253)"
proof
  assume v: "isValidFQDN s"
  then have "fqdn_labels (Split s (CHR ''.''))" and "length s \<le> 253"
    by (auto simp: isValidFQDN_def fqdn_labels_iff Split_def split: if_splits)
  moreover have "s = join_on (CHR ''.'') (Split s (CHR ''.''))" by (simp add: join_Split)
  ultimately show "\<exists>ls. fqdn_labels ls \<and> s = join_on (CHR ''.'') ls \<and> length s \<le> 253" by blast
next
  assume "\<exists>ls. fqdn_labels ls \<and> s = join_on (CHR ''.'') ls \<and> length s \<le> 253"
  then obtain ls where ls: "fqdn_labels ls" "s = join_on (CHR ''.'') ls" "length s \<le> 253" by blast
  then have "Split s (CHR ''.'') = ls"
    using label_ok_no_dot by (auto simp: fqdn_labels_iff list_all_iff intro!: Split_join)
  moreover have "s \<noteq> []"
    using ls last_join_on [of ls "CHR ''.''"] by (auto simp: fqdn_labels_def)
  ultimately show "isValidFQDN s" using ls by (simp add: isValidFQDN_def fqdn_labels_iff)
qed

lemma valid_host_chars: "isValidFQDN s \<Longrightarrow> list_all host_char s"
proof -
  assume "isValidFQDN s"
  then obtain ls where ls: "fqdn_labels ls" "s = join_on (CHR ''.'') ls"
    by (auto simp: isValidFQDN_labels)
  then have "c \<in> insert (CHR ''.'') (\<Union> (set ` set ls))" if "c \<in> set s" for c
    using set_join_on [of "CHR ''.''" ls] that by blast
  with ls(1) show ?thesis by (fastforce simp: list_all_iff host_char_def fqdn_labels_def)
qed

lemma valid_ends:
  assumes "isValidFQDN s"
  shows "s \<noteq> []" and "ldh (hd s)" and "ldh (last s)"
proof -
  obtain ls where ls: "fqdn_labels ls" "s = join_on (CHR ''.'') ls"
    using assms by (auto simp: isValidFQDN_labels)
  have ok: "l \<noteq> [] \<and> ldh (hd l) \<and> ldh (last l)" if "l \<in> set ls" for l
  proof -
    have "l \<noteq> []" and "set l \<subseteq> Collect ldh" using ls(1) that by (auto simp: fqdn_labels_def)
    then show ?thesis using hd_in_set [of l] last_in_set [of l] by blast
  qed
  have l: "ls \<noteq> []" using ls(1) by (simp add: fqdn_labels_def)
  then have "hd ls \<in> set ls" "last ls \<in> set ls" by simp_all
  note l = l ok [OF this(1)] ok [OF this(2)]
  show "s \<noteq> []" using ls l last_join_on by metis
  show "ldh (hd s)" using ls l hd_join_on by metis
  show "ldh (last s)" using ls l last_join_on by metis
qed

lemma valid_graphic: "isValidFQDN s \<Longrightarrow> list_all graphic s"
  using valid_host_chars by (fastforce simp: list_all_iff ldh_chars)

section \<open>Canonical form\<close>

lemma canonicalise_graphic:
  "list_all graphic s \<Longrightarrow> canonicalise s = TrimSuffix (map lower_char s) ''.''"
  by (simp add: canonicalise_def TrimSpace_graphic ToLower_graphic)

lemma canonicalise_valid: "isValidFQDN d \<Longrightarrow> canonicalise d = d"
  using valid_ends(3) [of d] valid_graphic [of d] ToLower_host [OF valid_host_chars, of d]
  by (simp add: canonicalise_def TrimSpace_graphic TrimSuffix_no_dot ldh_not_dot)

lemma canonicalise_dotted: "isValidFQDN d \<Longrightarrow> canonicalise (d @ ''.'') = d"
proof -
  assume v: "isValidFQDN d"
  then have "list_all graphic (d @ ''.'')"
    using valid_graphic by (simp add: graphic_def)
  moreover have "map lower_char d = d"
    using ToLower_host [OF valid_host_chars [OF v]] ToLower_graphic [OF valid_graphic [OF v]]
    by simp
  ultimately show ?thesis by (simp add: canonicalise_graphic TrimSuffix_dot)
qed

text \<open>Names that differ only in the case of ASCII letters have the same canonical form.\<close>

lemma canonicalise_case:
  assumes "list_all graphic s" "list_all graphic t" "map lower_char s = map lower_char t"
  shows "canonicalise s = canonicalise t"
  using assms by (simp add: canonicalise_graphic)

section \<open>The line parser\<close>

lemma ParseLine_sound:
  assumes "ParseLine line = Some d"
  shows "isValidFQDN d" and "canonicalise d = d"
proof -
  show "isValidFQDN d"
    using assms by (auto simp: ParseLine_def Let_def split: if_splits option.splits list.splits)
  then show "canonicalise d = d" by (rule canonicalise_valid)
qed

lemma utf8_bom_graphic: "graphic c \<Longrightarrow> TrimPrefix (c # cs) utf8_bom = c # cs"
  by (auto simp: TrimPrefix_def utf8_bom_def graphic_def)

lemma anchor_graphic: "isHostsAnchor a \<Longrightarrow> list_all graphic a \<and> a \<noteq> []
    \<and> hd a \<notin> {CHR ''#'', CHR '';'', CHR ''!''}"
  by (auto simp: isHostsAnchor_def graphic_def)

lemma ldh_no_comment: "ldh c \<Longrightarrow> c \<notin> {CHR ''#'', CHR '';'', CHR ''!''}"
  by (auto simp: ldh_def)

lemma ParseLine_plain_gen:
  assumes "list_all graphic s" "s \<noteq> []" "hd s \<notin> {CHR ''#'', CHR '';'', CHR ''!''}"
    and "isValidFQDN (canonicalise s)"
  shows "ParseLine s = Some (canonicalise s)"
proof -
  obtain c cs where s: "s = c # cs" using assms(2) by (cases s) auto
  with assms(1) have "TrimSpace (TrimPrefix s utf8_bom) = s"
    by (simp add: utf8_bom_graphic TrimSpace_graphic)
  with assms show ?thesis by (simp add: ParseLine_def Let_def Fields_one)
qed

lemma ParseLine_hosts_gen:
  assumes "isHostsAnchor a" "list_all graphic s" "s \<noteq> []" "isValidFQDN (canonicalise s)"
  shows "ParseLine (a @ '' '' @ s) = Some (canonicalise s)"
proof -
  let ?l = "a @ CHR '' '' # s"
  have a: "list_all graphic a" "a \<noteq> []" "hd a \<notin> {CHR ''#'', CHR '';'', CHR ''!''}"
    using anchor_graphic [OF assms(1)] by auto
  have "graphic (hd ?l)" using a by (auto simp: list_all_iff)
  moreover have "graphic (last ?l)" using assms(2,3) by (auto simp: list_all_iff)
  ultimately have "TrimSpace ?l = ?l" by (intro TrimSpace_ends) auto
  moreover have "TrimPrefix ?l utf8_bom = ?l"
    using a by (cases a) (auto simp: utf8_bom_graphic)
  ultimately show ?thesis
    using a assms by (simp add: ParseLine_def Let_def Fields_two)
qed

lemma ParseLine_comment: "c \<in> {CHR ''#'', CHR '';'', CHR ''!''} \<Longrightarrow> ParseLine (c # cs) = None"
proof -
  assume c: "c \<in> {CHR ''#'', CHR '';'', CHR ''!''}"
  then have g: "graphic c" by (auto simp: graphic_def)
  have "TrimSpace (c # cs) = TrimRightSpace (c # cs)"
    by (simp add: TrimSpace_def TrimLeftSpace_graphic [OF g])
  moreover have "TrimRightSpace (c # cs) = [] \<or> hd (TrimRightSpace (c # cs)) = c"
    by (rule TrimRightSpace_hd)
  ultimately show ?thesis
    using c g by (auto simp: ParseLine_def Let_def utf8_bom_graphic)
qed

text \<open>A printable spelling of a valid name in any case.\<close>

lemma spelled_canonical:
  assumes "list_all graphic s" "map lower_char s = d" "isValidFQDN d"
  shows "canonicalise s = d \<and> canonicalise (s @ ''.'') = d"
proof -
  have g: "list_all graphic (s @ ''.'')" using assms(1) by (simp add: graphic_def)
  have "last d \<noteq> CHR ''.''" using valid_ends(3) [OF assms(3)] ldh_not_dot by blast
  then show ?thesis
    using assms(2) by (simp add: canonicalise_graphic [OF assms(1)] canonicalise_graphic [OF g]
        TrimSuffix_no_dot TrimSuffix_dot)
qed

lemma spelled_start:
  assumes "list_all graphic s" "map lower_char s = d" "isValidFQDN d"
  shows "s \<noteq> [] \<and> hd s \<notin> {CHR ''#'', CHR '';'', CHR ''!''}"
proof -
  have d: "d \<noteq> []" "ldh (hd d)" using valid_ends [OF assms(3)] by auto
  then obtain c cs where s: "s = c # cs" using assms(2) by (cases s) auto
  with assms(2) d(2) have "ldh (lower_char c)" by auto
  then have "c \<notin> {CHR ''#'', CHR '';'', CHR ''!''}" by (auto simp: ldh_def char_eval)
  with s show ?thesis by simp
qed

lemma ParseLine_bom:
  assumes "list_all graphic s" "s \<noteq> []"
  shows "ParseLine (utf8_bom @ s) = ParseLine s"
proof -
  have "TrimPrefix (utf8_bom @ s) utf8_bom = s" by (simp add: TrimPrefix_def)
  moreover have "TrimPrefix s utf8_bom = s" using assms by (cases s) (auto simp: utf8_bom_graphic)
  ultimately show ?thesis by (simp add: ParseLine_def)
qed

section \<open>The readers\<close>

lemma parse_loop_ok:
  "(\<forall>j. ctxerr j = None) \<Longrightarrow>
     parse_loop ctxerr i ls out = Inr (out @ List.map_filter ParseLine ls)"
  by (induction ctxerr i ls out rule: parse_loop.induct)
    (auto simp: List.map_filter_simps split: option.splits)

lemma parse_loop_outputs:
  assumes "parse_loop ctxerr i ls out = Inr ds"
  shows "set ds \<subseteq> set out \<union> {d. isValidFQDN d}"
  using assms
proof (induction ctxerr i ls out rule: parse_loop.induct)
  case (2 ctxerr i l ls out)
  then show ?case by (fastforce split: option.splits dest: ParseLine_sound(1))
qed simp

lemma parseReader_valid: "parseReader ctxerr body rerr = Inr ds \<Longrightarrow> d \<in> set ds \<Longrightarrow> isValidFQDN d"
  using parse_loop_outputs
  by (fastforce simp: parseReader_def split: scan.splits sum.splits option.splits)

lemma parseBody_valid: "d \<in> set (parseBody body) \<Longrightarrow> isValidFQDN d"
  by (auto simp: parseBody_def split: sum.splits dest: parseReader_valid [OF sym])

lemma scan_lines_short:
  "(\<forall>l \<in> set ls. length l < limit) \<Longrightarrow> scan_lines limit ls = ScanOK (map drop_cr ls)"
  by (induction ls) auto

lemma map_filter_drop_cr:
  "List.map_filter ParseLine (map drop_cr ls) = List.map_filter (ParseLine \<circ> drop_cr) ls"
  by (induction ls) (auto simp: List.map_filter_simps split: option.split)

lemma parseBody_short:
  assumes "\<forall>l \<in> set (raw_lines body). length l < scanner_max"
  shows "parseBody body = List.map_filter (ParseLine \<circ> drop_cr) (raw_lines body)"
  using assms
  by (simp add: parseBody_def parseReader_def scan_lines_short no_ctx_err_def
      parse_loop_ok map_filter_drop_cr)

lemma parseBody_long:
  assumes "\<exists>l \<in> set (raw_lines body). scanner_max \<le> length l"
  shows "parseBody body = []"
proof -
  have "\<exists>xs. scan_lines n ls = ScanTooLong xs" if "\<exists>l \<in> set ls. n \<le> length l" for n ls
    using that by (induction ls) (fastforce split: scan.splits)+
  then obtain xs where "scan_lines scanner_max (raw_lines body) = ScanTooLong xs"
    using assms by blast
  then show ?thesis by (simp add: parseBody_def parseReader_def no_ctx_err_def parse_loop_ok)
qed

text \<open>A blocklist file with one name per line.\<close>

definition newline :: char where "newline = char_of (10::nat)"

definition print_list :: "string list \<Rightarrow> string" where
  "print_list ds = concat (map (\<lambda>d. d @ [newline]) ds)"

lemma print_list_join: "print_list ds = join_on newline (ds @ [[]])"
proof (induction ds)
  case (Cons d ds)
  then show ?case by (cases ds) (auto simp: print_list_def)
qed (simp add: print_list_def)

lemma raw_lines_print:
  assumes "\<forall>d \<in> set ds. newline \<notin> set d"
  shows "raw_lines (print_list ds) = ds"
proof -
  have "Split (print_list ds) newline = ds @ [[]]"
    unfolding print_list_join by (rule Split_join) (use assms in auto)
  then show ?thesis by (simp add: raw_lines_def newline_def [symmetric])
qed

lemma graphic_no_control: "graphic c \<Longrightarrow> c \<noteq> newline \<and> c \<noteq> char_of (13::nat)"
  by (auto simp: graphic_def newline_def)

lemma drop_cr_graphic: "list_all graphic s \<Longrightarrow> drop_cr s = s"
  using graphic_no_control [of "char_of (13::nat)"]
  by (auto simp: drop_cr_def TrimSuffix_def suffix_def)

lemma parse_print:
  assumes "\<forall>d \<in> set ds. isValidFQDN d"
  shows "parseBody (print_list ds) = ds"
proof -
  have lines: "raw_lines (print_list ds) = ds"
    by (rule raw_lines_print)
      (use assms valid_graphic graphic_no_control in \<open>fastforce simp: list_all_iff\<close>)
  have p: "(ParseLine \<circ> drop_cr) d = Some d" if "d \<in> set ds" for d
  proof -
    have v: "isValidFQDN d" using assms that by simp
    then show ?thesis
      using ParseLine_plain_gen [OF valid_graphic [OF v] valid_ends(1) [OF v]
          ldh_no_comment [OF valid_ends(2) [OF v]]]
      by (simp add: canonicalise_valid drop_cr_graphic valid_graphic)
  qed
  have "length d < scanner_max" if "d \<in> set ds" for d
    using assms that by (force simp: isValidFQDN_def scanner_max_def split: if_splits)
  then have "parseBody (print_list ds) = List.map_filter (ParseLine \<circ> drop_cr) ds"
    using parseBody_short [of "print_list ds"] lines by simp
  also have "\<dots> = ds" using p by (induction ds) (auto simp: List.map_filter_simps)
  finally show ?thesis .
qed

section \<open>Properties\<close>

text \<open>C27: Whatever line it is given, \<open>ParseLine\<close> yields a name only if the name is a sequence of
  dot-separated labels of 1 to 63 lower-case letters, digits and inner hyphens, at most 253 bytes
  long, and then the name is already in canonical form.\<close>

theorem ParseLine_only_hostnames:
  assumes "ParseLine line = Some d"
  shows "(\<exists>ls. fqdn_labels ls \<and> d = join_on (CHR ''.'') ls) \<and> length d \<le> 253
     \<and> canonicalise d = d"
  using ParseLine_sound [OF assms] by (auto simp: isValidFQDN_labels)

theorem ParseLine_only_hostnames_witness:
  "fqdn_labels [''ads'', ''example'', ''com''] \<and> canonicalise ''ads.example.com'' = ''ads.example.com''"
proof -
  have p: "ParseLine ''0.0.0.0 ADS.example.com.'' = Some ''ads.example.com''"
    using ParseLine_hosts_gen [of "''0.0.0.0''" "''ADS.example.com.''"]
    by (simp add: isHostsAnchor_def graphic_def canonicalise_graphic char_eval
        TrimSuffix_def suffix_def isValidFQDN_def Split_def label_ok_def)
  have "fqdn_labels [''ads'', ''example'', ''com'']" by (simp add: fqdn_labels_def ldh_def)
  then show ?thesis using ParseLine_only_hostnames [OF p] by simp
qed

text \<open>Every documented line format is accepted: if \<open>s\<close> spells the valid name \<open>d\<close> in any
  mixture of upper and lower case, then the plain line, the line with a trailing dot, the line
  behind a byte-order mark and the hosts-file line with any of the four anchors all parse to
  \<open>d\<close>.\<close>

theorem ParseLine_accepts_formats:
  assumes "list_all graphic s" and "map lower_char s = d" and "isValidFQDN d"
  shows "ParseLine s = Some d \<and> ParseLine (s @ ''.'') = Some d
     \<and> ParseLine (utf8_bom @ s) = Some d
     \<and> (\<forall>a. isHostsAnchor a \<longrightarrow> ParseLine (a @ '' '' @ s) = Some d)"
proof -
  have c: "canonicalise s = d" and cd: "canonicalise (s @ ''.'') = d"
    using spelled_canonical [OF assms] by auto
  have s: "s \<noteq> []" "hd s \<notin> {CHR ''#'', CHR '';'', CHR ''!''}"
    using spelled_start [OF assms] by auto
  have g: "list_all graphic (s @ ''.'')" using assms(1) by (simp add: graphic_def)
  have "ParseLine s = Some d" "ParseLine (s @ ''.'') = Some d"
    using ParseLine_plain_gen [OF assms(1) s] ParseLine_plain_gen [OF g] s c cd assms(3) by auto
  moreover have "ParseLine (utf8_bom @ s) = ParseLine s" by (rule ParseLine_bom [OF assms(1) s(1)])
  ultimately show ?thesis
    using ParseLine_hosts_gen [OF _ assms(1) s(1)] c assms(3) by simp
qed

theorem ParseLine_accepts_formats_witness:
  "ParseLine ''127.0.0.1 Ads.Example'' = Some ''ads.example''
     \<and> ParseLine ''Ads.Example.'' = Some ''ads.example''"
proof -
  have h: "list_all graphic ''Ads.Example''" "map lower_char ''Ads.Example'' = ''ads.example''"
    "isValidFQDN ''ads.example''"
    by (simp_all add: graphic_def char_eval isValidFQDN_def Split_def label_ok_def)
  have "isHostsAnchor ''127.0.0.1''" by (simp add: isHostsAnchor_def)
  then have "ParseLine (''127.0.0.1'' @ '' '' @ ''Ads.Example'') = Some ''ads.example''"
    using ParseLine_accepts_formats [OF h] by blast
  then show ?thesis using ParseLine_accepts_formats [OF h] by simp
qed

text \<open>C28: Reading back a file with one valid name per line yields exactly those names, in order.\<close>

theorem parseBody_print_list:
  "\<forall>d \<in> set ds. isValidFQDN d \<Longrightarrow> parseBody (print_list ds) = ds"
  by (rule parse_print)

theorem parseBody_print_list_witness:
  "parseBody (print_list [''ads.example'', ''t.co'']) = [''ads.example'', ''t.co'']"
  by (rule parseBody_print_list) (simp add: isValidFQDN_def Split_def label_ok_def)

text \<open>If any line of a fetched body is a mebibyte or longer, the body counts as having no
  entries at all, whatever its other lines hold.\<close>

theorem parseBody_overlong_line:
  "\<exists>l \<in> set (raw_lines body). scanner_max \<le> length l \<Longrightarrow> parseBody body = []"
  by (rule parseBody_long)

theorem parseBody_overlong_line_witness:
  "parseBody (print_list [''ads.example'', replicate scanner_max (CHR ''a'')]) = []"
proof (rule parseBody_overlong_line)
  have "newline \<notin> set ''ads.example''" "newline \<noteq> CHR ''a''"
    by (simp_all add: newline_def char_eval)
  then have "raw_lines (print_list [''ads.example'', replicate scanner_max (CHR ''a'')])
      = [''ads.example'', replicate scanner_max (CHR ''a'')]"
    by (intro raw_lines_print) auto
  then show "\<exists>l \<in> set (raw_lines (print_list [''ads.example'', replicate scanner_max (CHR ''a'')])).
      scanner_max \<le> length l" by simp
qed

end
