(* ===== verification/Blocklist_Matcher.thy ===== *)
theory Blocklist_Matcher
  imports Blocklist_Parse
begin

text \<open>
  The matcher (\<open>internal/blocklist/matcher.go\<close>) and its holder (\<open>holder.go\<close>). The
  interface locale states what the block stage and the loader rely on: a name is blocked exactly
  when one of the entries is the name or a parent domain of it. The parent walk of
  \<open>Match\<close> is shown to implement it.
\<close>

section \<open>The interface\<close>

text \<open>\<open>covers e q\<close>: \<open>q\<close> is the domain \<open>e\<close> or lies below it.\<close>

definition covers :: "string \<Rightarrow> string \<Rightarrow> bool" where
  "covers e q \<longleftrightarrow> q = e \<or> suffix (CHR ''.'' # e) q"

lemma covers_refl [simp]: "covers e e"
  by (simp add: covers_def)

lemma covers_below: "covers e q \<Longrightarrow> covers e (p @ CHR ''.'' # q)"
  by (auto simp: covers_def suffix_def)

lemma covers_Nil: "covers e [] \<longleftrightarrow> e = []"
  by (auto simp: covers_def)

locale domain_matcher =
  fixes new_matcher :: "string list \<Rightarrow> 'm"
    and matches :: "'m \<Rightarrow> string \<Rightarrow> bool"
  assumes matches_iff: "matches (new_matcher es) q \<longleftrightarrow>
    (\<exists>e \<in> set es. canonicalise e \<noteq> [] \<and> covers (canonicalise e) (canonicalise q))"
begin

lemma matches_append:
  "matches (new_matcher (es @ fs)) q \<longleftrightarrow> matches (new_matcher es) q \<or> matches (new_matcher fs) q"
  by (auto simp: matches_iff)

lemma matches_Nil: "\<not> matches (new_matcher []) q"
  by (simp add: matches_iff)

lemma matches_canonical_cong:
  "canonicalise q = canonicalise r \<Longrightarrow> matches (new_matcher es) q = matches (new_matcher es) r"
  by (simp add: matches_iff)

lemma matches_set_cong:
  "set es = set fs \<Longrightarrow> matches (new_matcher es) q = matches (new_matcher fs) q"
  by (simp add: matches_iff)

lemma matches_below:
  assumes "matches (new_matcher es) q" and "canonicalise r = p @ CHR ''.'' # canonicalise q"
  shows "matches (new_matcher es) r"
  using assms covers_below by (auto simp: matches_iff)

end

section \<open>The matcher of the program\<close>

text \<open>\<open>map[string]struct{}\<close> is the set of its keys.\<close>

record Matcher =
  m_set :: "string set"

fun matcher_insert_all :: "string set \<Rightarrow> string list \<Rightarrow> string set" where
  "matcher_insert_all S [] = S"
| "matcher_insert_all S (e # es) =
     (let c = canonicalise e in
      if c = [] then matcher_insert_all S es else matcher_insert_all (insert c S) es)"

definition NewMatcher :: "string list \<Rightarrow> Matcher" where
  "NewMatcher entries = \<lparr>m_set = matcher_insert_all {} entries\<rparr>"

text \<open>The loop of \<open>Match\<close>: probe, then drop the first label.\<close>

function match_walk :: "string set \<Rightarrow> string \<Rightarrow> bool" where
  "match_walk S q =
     (if q \<in> S then True
      else case IndexByte q (CHR ''.'') of
             None \<Rightarrow> False
           | Some i \<Rightarrow> match_walk S (drop (i + 1) q))"
  by pat_completeness auto
termination
  by (relation "measure (\<lambda>(S, q). length q)") (auto dest: IndexByte_Some)

declare match_walk.simps [simp del]

definition Match :: "Matcher \<Rightarrow> string \<Rightarrow> bool" where
  "Match m qname =
     (let q = canonicalise qname in if q = [] then False else match_walk (m_set m) q)"

definition Size :: "Matcher \<Rightarrow> nat" where
  "Size m = card (m_set m)"

section \<open>The holder\<close>

text \<open>The atomic pointer; \<open>None\<close> is the nil pointer.\<close>

record Holder =
  h_m :: "Matcher option"

definition NewHolder :: "Matcher option \<Rightarrow> Holder" where
  "NewHolder initial = \<lparr>h_m = initial\<rparr>"

definition Current :: "Holder \<Rightarrow> Matcher option" where
  "Current h = h_m h"

definition Swap :: "Holder \<Rightarrow> Matcher option \<Rightarrow> Holder" where
  "Swap h next = h\<lparr>h_m := next\<rparr>"

lemma Current_NewHolder [simp]: "Current (NewHolder m) = m"
  by (simp add: Current_def NewHolder_def)

lemma Current_Swap [simp]: "Current (Swap h m) = m"
  by (simp add: Current_def Swap_def)

section \<open>The walk finds exactly the covering entries\<close>

lemma suffix_first_dot:
  assumes "d \<notin> set a"
  shows "suffix (d # e) (a @ d # t) \<longleftrightarrow> e = t \<or> suffix (d # e) t"
proof
  assume "suffix (d # e) (a @ d # t)"
  then obtain z where z: "a @ d # t = z @ d # e" by (auto simp: suffix_def)
  then consider us where "a = z @ us" "us @ d # t = d # e" | us where "a @ us = z" "d # t = us @ d # e"
    by (auto simp: append_eq_append_conv2)
  then show "e = t \<or> suffix (d # e) t"
  proof cases
    case 1
    then show ?thesis using assms by (cases us) auto
  next
    case 2
    then show ?thesis by (cases us) (auto simp: suffix_def)
  qed
next
  assume "e = t \<or> suffix (d # e) t"
  then show "suffix (d # e) (a @ d # t)" by (auto simp: suffix_def)
qed

lemma covers_step:
  assumes "IndexByte q (CHR ''.'') = Some i"
  shows "covers e q \<longleftrightarrow> q = e \<or> covers e (drop (Suc i) q)"
proof -
  have q: "q = take i q @ CHR ''.'' # drop (Suc i) q" by (rule IndexByte_split [OF assms])
  have "CHR ''.'' \<notin> set (take i q)" using IndexByte_Some [OF assms] by simp
  from suffix_first_dot [OF this, of e "drop (Suc i) q"] q show ?thesis
    by (auto simp: covers_def)
qed

lemma covers_no_dot: "CHR ''.'' \<notin> set q \<Longrightarrow> covers e q \<longleftrightarrow> q = e"
  by (auto simp: covers_def suffix_def)

lemma match_walk_covers: "match_walk S q \<longleftrightarrow> (\<exists>e \<in> S. covers e q)"
proof (induction S q rule: match_walk.induct)
  case (1 S q)
  show ?case
  proof (cases "IndexByte q (CHR ''.'')")
    case None
    then have "CHR ''.'' \<notin> set q" by (simp add: IndexByte_None)
    with None show ?thesis by (auto simp: match_walk.simps [of S q] covers_no_dot)
  next
    case (Some i)
    have "match_walk S q \<longleftrightarrow> q \<in> S \<or> match_walk S (drop (Suc i) q)"
      using Some by (simp add: match_walk.simps [of S q])
    also have "\<dots> \<longleftrightarrow> q \<in> S \<or> (\<exists>e \<in> S. covers e (drop (Suc i) q))"
      using 1 Some by auto
    also have "\<dots> \<longleftrightarrow> (\<exists>e \<in> S. covers e q)" using covers_step [OF Some] by auto
    finally show ?thesis .
  qed
qed

lemma matcher_insert_all_eq:
  "matcher_insert_all S es = S \<union> {canonicalise e | e. e \<in> set es \<and> canonicalise e \<noteq> []}"
  by (induction S es rule: matcher_insert_all.induct) (auto simp: Let_def)

lemma m_set_NewMatcher:
  "m_set (NewMatcher es) = {canonicalise e | e. e \<in> set es \<and> canonicalise e \<noteq> []}"
  by (simp add: NewMatcher_def matcher_insert_all_eq)

interpretation mt: domain_matcher NewMatcher Match
proof
  fix es q
  have "Match (NewMatcher es) q \<longleftrightarrow>
      canonicalise q \<noteq> [] \<and> (\<exists>e \<in> m_set (NewMatcher es). covers e (canonicalise q))"
    by (simp add: Match_def Let_def match_walk_covers)
  then show "Match (NewMatcher es) q \<longleftrightarrow>
    (\<exists>e \<in> set es. canonicalise e \<noteq> [] \<and> covers (canonicalise e) (canonicalise q))"
    by (auto simp: m_set_NewMatcher covers_Nil)
qed

lemma finite_m_set: "finite (m_set (NewMatcher es))"
proof -
  have "m_set (NewMatcher es) \<subseteq> canonicalise ` set es" by (auto simp: m_set_NewMatcher)
  then show ?thesis by (rule finite_subset) simp
qed

lemma Size_NewMatcher_le: "Size (NewMatcher es) \<le> length es"
proof -
  have "m_set (NewMatcher es) \<subseteq> canonicalise ` set es" by (auto simp: m_set_NewMatcher)
  then have "Size (NewMatcher es) \<le> card (canonicalise ` set es)"
    by (simp add: Size_def card_mono)
  also have "\<dots> \<le> card (set es)" by (rule card_image_le) simp
  also have "\<dots> \<le> length es" by (rule card_length)
  finally show ?thesis .
qed

section \<open>Properties\<close>

text \<open>C7: The parent walk is exact: \<open>Match\<close> answers true for a query if and only if one of the
  entries the matcher was built from is, in canonical form and not empty, the query's canonical
  name or a suffix of it that starts after a dot. In particular the walk ends on every query.\<close>

theorem Match_iff_covered:
  "Match (NewMatcher es) q \<longleftrightarrow>
     (\<exists>e \<in> set es. canonicalise e \<noteq> [] \<and> covers (canonicalise e) (canonicalise q))"
  by (rule mt.matches_iff)

theorem Match_iff_covered_witness:
  "Match (NewMatcher [''ads.example'']) ''x.ads.example.'' \<and> \<not> Match (NewMatcher [''ads.example'']) ''bads.example''"
  by (simp add: Match_iff_covered canonicalise_graphic graphic_def char_eval TrimSuffix_def
      covers_def suffix_def Cons_eq_append_conv)

text \<open>Blocking a valid domain blocks the domain and every name below it, whatever the case of
  the ASCII letters in the query and whether or not the query has its trailing dot.\<close>

theorem Match_blocks_subdomains:
  assumes "e \<in> set es" and "isValidFQDN e" and "list_all graphic s"
    and "map lower_char s = e \<or> (\<exists>p. map lower_char s = p @ CHR ''.'' # e)"
  shows "Match (NewMatcher es) s \<and> Match (NewMatcher es) (s @ ''.'')"
proof -
  have g: "list_all graphic (s @ ''.'')" using assms(3) by (simp add: graphic_def)
  have e: "e \<noteq> []" "ldh (last e)" using valid_ends [OF assms(2)] by auto
  then have "last (map lower_char s) \<noteq> CHR ''.''" using assms(4) ldh_not_dot by auto
  then have "canonicalise s = map lower_char s" "canonicalise (s @ ''.'') = map lower_char s"
    by (simp_all add: canonicalise_graphic [OF assms(3)] canonicalise_graphic [OF g]
        TrimSuffix_no_dot TrimSuffix_dot)
  moreover have "covers e (map lower_char s)" using assms(4) by (auto simp: covers_def suffix_def)
  ultimately show ?thesis
    using assms(1) e(1) canonicalise_valid [OF assms(2)] 
    unfolding mt.matches_iff by metis
qed

theorem Match_blocks_subdomains_witness:
  "Match (NewMatcher [''ads.example'']) (''WWW.ads.EXAMPLE'' @ ''.'')"
proof -
  have h: "''ads.example'' \<in> set [''ads.example'']" "isValidFQDN ''ads.example''"
    "list_all graphic ''WWW.ads.EXAMPLE''"
    "map lower_char ''WWW.ads.EXAMPLE'' = ''www'' @ CHR ''.'' # ''ads.example''"
    by (simp_all add: isValidFQDN_def Split_def label_ok_def graphic_def char_eval)
  show ?thesis using Match_blocks_subdomains [OF h(1-3)] h(4) by blast
qed

end
