(* ===== verification/Config.thy ===== *)
theory Config
  imports Go_Strings
begin

text \<open>
  The configuration schema and its defaults (\<open>internal/config/config.go\<close>,
  \<open>defaults.go\<close>). Durations are counts of nanoseconds.
\<close>

text \<open>The parts of a parsed URL (\<open>net/url\<close>) that the program reads; parsing itself is a
  parameter of the definitions that use it.\<close>

record url =
  url_Scheme :: string
  url_Host :: string
  url_Hostname :: string
  url_Port :: string

record ListenCfg =
  li_UDP :: string
  li_TCP :: string
  li_QueryTimeout :: int

record UpstreamCfg =
  up_Type :: string
  up_Addr :: string
  up_URL :: string
  up_EndpointIPs :: "string list"
  up_Timeout :: int

record CacheCfg =
  cc_Capacity :: int
  cc_MinTTL :: int
  cc_MaxTTL :: int
  cc_NegativeTTLMax :: int

record BlocklistSource =
  bs_Type :: string
  bs_Name :: string
  bs_Path :: string
  bs_URL :: string

record BlocklistsCfg =
  bl_RefreshInterval :: int
  bl_CacheDir :: string
  bl_Sources :: "BlocklistSource list"

record AdminCfg =
  ad_Listen :: string
  ad_Pprof :: bool

record LoggingCfg =
  lg_Level :: string
  lg_Format :: string
  lg_QueryLog :: bool

record Config =
  cfg_Listen :: ListenCfg
  cfg_Upstreams :: "UpstreamCfg list"
  cfg_Cache :: CacheCfg
  cfg_Blocklists :: BlocklistsCfg
  cfg_Admin :: AdminCfg
  cfg_Logging :: LoggingCfg
  cfg_ShutdownTimeout :: int
  cfg_StartupProbeTimeout :: int

definition Default :: Config where
  "Default =
     \<lparr>cfg_Listen = \<lparr>li_UDP = '':53'', li_TCP = '':53'', li_QueryTimeout = 5 * time_Second\<rparr>,
      cfg_Upstreams = [],
      cfg_Cache = \<lparr>cc_Capacity = 10000, cc_MinTTL = 0, cc_MaxTTL = 24 * time_Hour,
        cc_NegativeTTLMax = 15 * time_Minute\<rparr>,
      cfg_Blocklists = \<lparr>bl_RefreshInterval = 24 * time_Hour,
        bl_CacheDir = ''/var/cache/bns/blocklists'', bl_Sources = []\<rparr>,
      cfg_Admin = \<lparr>ad_Listen = '':9090'', ad_Pprof = False\<rparr>,
      cfg_Logging = \<lparr>lg_Level = ''info'', lg_Format = ''json'', lg_QueryLog = False\<rparr>,
      cfg_ShutdownTimeout = 5 * time_Second,
      cfg_StartupProbeTimeout = 3 * time_Second\<rparr>"

end
