(* ===== verification/Metrics.thy ===== *)
theory Metrics
  imports BNS_Prelude
begin

text \<open>
  The metrics bundle (\<open>internal/metrics/metrics.go\<close>). A counter is the number of
  increments the program performed on it, a gauge the last value set, a histogram the observations
  in order (newest first). A labelled collector is a finite map from its label values; a missing
  key is a series that has not been created. The two gauges of the cache, \<open>CacheEntries\<close> and
  \<open>CacheEvictionsTotal\<close>, are written only by the cache observer and live in the cache model.
\<close>

type_synonym counter_vec = "string list \<rightharpoonup> nat"
type_synonym gauge_vec = "string list \<rightharpoonup> int"
type_synonym histogram_vec = "string list \<rightharpoonup> int list"

definition vec_Touch :: "'v \<Rightarrow> (string list \<rightharpoonup> 'v) \<Rightarrow> string list \<Rightarrow> (string list \<rightharpoonup> 'v)" where
  "vec_Touch z v lvs = (case v lvs of None \<Rightarrow> v(lvs \<mapsto> z) | Some _ \<Rightarrow> v)"

definition vec_Inc :: "counter_vec \<Rightarrow> string list \<Rightarrow> counter_vec" where
  "vec_Inc v lvs = v(lvs \<mapsto> Suc (case v lvs of None \<Rightarrow> 0 | Some n \<Rightarrow> n))"

definition vec_Observe :: "histogram_vec \<Rightarrow> string list \<Rightarrow> int \<Rightarrow> histogram_vec" where
  "vec_Observe v lvs x = v(lvs \<mapsto> x # (case v lvs of None \<Rightarrow> [] | Some xs \<Rightarrow> xs))"

definition count_of :: "counter_vec \<Rightarrow> string list \<Rightarrow> nat" where
  "count_of v lvs = (case v lvs of None \<Rightarrow> 0 | Some n \<Rightarrow> n)"

record metrics =
  QueriesTotal :: counter_vec
  QueryDurationSeconds :: histogram_vec
  UpstreamQueriesTotal :: counter_vec
  UpstreamDurationSeconds :: histogram_vec
  CacheCapacity :: int
  CacheLookupsTotal :: counter_vec
  BlocklistEntries :: int
  BlocklistLoadedTimestamp :: int
  BlocklistReloadsTotal :: counter_vec
  CoalescedQueriesTotal :: nat
  PanicsTotal :: nat
  BlocklistFetchTotal :: counter_vec
  BlocklistLastSuccessTimestamp :: gauge_vec
  BlocklistEntriesBySource :: gauge_vec
  DoHHTTPStatusTotal :: counter_vec
  DoHTLSHandshakesTotal :: counter_vec

definition all_outcomes :: "string list" where
  "all_outcomes = [''blocked'', ''error'', ''forwarded'', ''nxdomain'']"

definition metrics_New :: metrics where
  "metrics_New =
     \<lparr>QueriesTotal = Map.empty,
      QueryDurationSeconds = fold (\<lambda>o' v. vec_Touch [] v [o']) all_outcomes Map.empty,
      UpstreamQueriesTotal = Map.empty, UpstreamDurationSeconds = Map.empty,
      CacheCapacity = 0,
      CacheLookupsTotal = fold (\<lambda>r v. vec_Touch 0 v [r]) [''hit'', ''miss''] Map.empty,
      BlocklistEntries = 0, BlocklistLoadedTimestamp = 0, BlocklistReloadsTotal = Map.empty,
      CoalescedQueriesTotal = 0, PanicsTotal = 0, BlocklistFetchTotal = Map.empty,
      BlocklistLastSuccessTimestamp = Map.empty, BlocklistEntriesBySource = Map.empty,
      DoHHTTPStatusTotal = Map.empty, DoHTLSHandshakesTotal = Map.empty\<rparr>"

definition known_qtypes :: "string list" where
  "known_qtypes = [''A'', ''AAAA'', ''CNAME'', ''PTR'', ''MX'', ''TXT'', ''NS'', ''SOA'', ''SRV'']"

definition NormalizeQType :: "string \<Rightarrow> string" where
  "NormalizeQType qtype = (if qtype \<in> set known_qtypes then qtype else ''other'')"

text \<open>The hooks handed to the blocklist fetcher.\<close>

definition fm_IncFetch :: "string \<Rightarrow> string \<Rightarrow> metrics \<Rightarrow> metrics" where
  "fm_IncFetch source outcome m =
     m\<lparr>BlocklistFetchTotal := vec_Inc (BlocklistFetchTotal m) [source, outcome]\<rparr>"

definition fm_SetLastSuccess :: "string \<Rightarrow> int \<Rightarrow> metrics \<Rightarrow> metrics" where
  "fm_SetLastSuccess source ts m =
     m\<lparr>BlocklistLastSuccessTimestamp :=
         (BlocklistLastSuccessTimestamp m)([source] \<mapsto> ts div time_Second)\<rparr>"

definition fm_SetEntries :: "string \<Rightarrow> int \<Rightarrow> metrics \<Rightarrow> metrics" where
  "fm_SetEntries source n m =
     m\<lparr>BlocklistEntriesBySource := (BlocklistEntriesBySource m)([source] \<mapsto> n)\<rparr>"

section \<open>Counting\<close>

lemma count_of_Inc:
  "count_of (vec_Inc v l) k = count_of v k + (if k = l then 1 else 0)"
  by (simp add: count_of_def vec_Inc_def split: option.splits)

lemma dom_Inc [simp]: "dom (vec_Inc v l) = insert l (dom v)"
  by (auto simp: vec_Inc_def)

lemma dom_Observe [simp]: "dom (vec_Observe v l x) = insert l (dom v)"
  by (auto simp: vec_Observe_def)

lemma NormalizeQType_bounded: "NormalizeQType q \<in> set (''other'' # known_qtypes)"
  by (simp add: NormalizeQType_def)

end
