(* ===== verification/Resolver.thy ===== *)
theory Resolver
  imports Cache_LRU Blocklist_Matcher Config Metrics
begin

text \<open>
  The frame of the resolver chain: contexts with their per-query markers
  (\<open>internal/resolver/outcome.go\<close>), the type of a resolver and its contract
  (\<open>resolver.go\<close>) and the handler that turns a result into an answer
  (\<open>handler.go\<close>). The state holds what the stages share: the clock, the cache, the
  blocklist, the metrics, the query log, the cells the markers point to, and the network, whose
  type is a parameter.
\<close>

section \<open>State and contexts\<close>

record ClientInfo =
  ci_Addr :: string
  ci_Proto :: string

record UpstreamInfo =
  ui_Name :: string
  ui_Protocol :: string

text \<open>An attribute of a log line; a duration is given in microseconds.\<close>

datatype attr = AttrString string string | AttrMicros string int

record 'e st =
  st_clock :: "nat \<Rightarrow> int"
  st_tick :: nat
  st_lru :: "msg LRU"
  st_holder :: Holder
  st_metrics :: metrics
  st_qlog :: "attr list list"
  st_block :: "nat \<Rightarrow> bool"
  st_upinfo :: "nat \<Rightarrow> UpstreamInfo"
  st_cells :: nat
  st_net :: 'e

text \<open>A context carries the marker cells and the client, and its error at every instant.\<close>

record ctx =
  cx_block :: "nat option"
  cx_up :: "nat option"
  cx_client :: "ClientInfo option"
  cx_err :: "int \<Rightarrow> goerror option"

definition Background :: ctx where
  "Background = \<lparr>cx_block = None, cx_up = None, cx_client = None, cx_err = (\<lambda>_. None)\<rparr>"

text \<open>\<open>time.Now()\<close>: every reading of the clock is a new tick.\<close>

definition time_Now :: "'e st \<Rightarrow> int \<times> 'e st" where
  "time_Now s = (st_clock s (st_tick s), s\<lparr>st_tick := Suc (st_tick s)\<rparr>)"

abbreviation now :: "'e st \<Rightarrow> int" where
  "now s \<equiv> st_clock s (st_tick s)"

abbreviation ticked :: "'e st \<Rightarrow> 'e st" where
  "ticked s \<equiv> s\<lparr>st_tick := Suc (st_tick s)\<rparr>"

definition ctx_Err :: "ctx \<Rightarrow> 'e st \<Rightarrow> goerror option \<times> 'e st" where
  "ctx_Err c s = (case time_Now s of (t, s') \<Rightarrow> (cx_err c t, s'))"

definition WithTimeout :: "ctx \<Rightarrow> int \<Rightarrow> 'e st \<Rightarrow> ctx \<times> 'e st" where
  "WithTimeout c d s =
     (case time_Now s of
        (t, s') \<Rightarrow>
          (c\<lparr>cx_err := (\<lambda>u. case cx_err c u of
                Some e \<Rightarrow> Some e
              | None \<Rightarrow> if t + d \<le> u then Some (ErrSentinel DeadlineExceeded) else None)\<rparr>, s'))"

definition upd_metrics :: "(metrics \<Rightarrow> metrics) \<Rightarrow> 'e st \<Rightarrow> 'e st" where
  "upd_metrics f s = s\<lparr>st_metrics := f (st_metrics s)\<rparr>"

type_synonym result = "msg option \<times> goerror option"
type_synonym 'e resolver = "ctx \<Rightarrow> msg \<Rightarrow> 'e st \<Rightarrow> result go \<times> 'e st"

text \<open>The state before the first query: an empty cache of the configured capacity with the
  metrics observer attached, the blocklist loaded at startup and fresh collectors.\<close>

definition init_st :: "(nat \<Rightarrow> int) \<Rightarrow> int \<Rightarrow> Matcher \<Rightarrow> 'e \<Rightarrow> 'e st" where
  "init_st clk cap initial net =
     \<lparr>st_clock = clk, st_tick = 1,
      st_lru = SetObserver (NewLRU cap) (Some (CacheObserver 0 0)),
      st_holder = NewHolder (Some initial),
      st_metrics = metrics_New\<lparr>BlocklistEntries := int (Size initial),
        BlocklistLoadedTimestamp := clk 0 div time_Second, CacheCapacity := cap\<rparr>,
      st_qlog = [], st_block = (\<lambda>_. False),
      st_upinfo = (\<lambda>_. \<lparr>ui_Name = [], ui_Protocol = []\<rparr>), st_cells = 0, st_net = net\<rparr>"

lemma init_st_inv [simp]: "lru_inv (st_lru (init_st clk cap b e))"
proof -
  have "lru_inv (SetObserver (NewLRU cap) (Some (CacheObserver 0 0)))"
    using NewLRU_inv [of cap] by (simp add: SetObserver_def)
  then show ?thesis by (simp add: init_st_def)
qed

section \<open>Outcomes and markers\<close>

definition block_flag :: "ctx \<Rightarrow> 'e st \<Rightarrow> bool" where
  "block_flag c s = (case cx_block c of None \<Rightarrow> False | Some p \<Rightarrow> st_block s p)"

definition Outcome :: "ctx \<Rightarrow> 'e st \<Rightarrow> msg option \<Rightarrow> goerror option \<Rightarrow> string" where
  "Outcome c s resp err =
     (case err of
        Some _ \<Rightarrow> ''error''
      | None \<Rightarrow>
          (case resp of
             None \<Rightarrow> ''error''
           | Some m \<Rightarrow>
               if msg_Rcode m = RcodeNameError
               then (if block_flag c s then ''blocked'' else ''nxdomain'')
               else ''forwarded''))"

definition zero_UpstreamInfo :: UpstreamInfo where
  "zero_UpstreamInfo = \<lparr>ui_Name = [], ui_Protocol = []\<rparr>"

definition WithBlockMarker :: "ctx \<Rightarrow> 'e st \<Rightarrow> ctx \<times> 'e st" where
  "WithBlockMarker c s =
     (let p = st_cells s in
      (c\<lparr>cx_block := Some p\<rparr>, s\<lparr>st_cells := Suc p, st_block := (st_block s)(p := False)\<rparr>))"

definition MarkBlocked :: "ctx \<Rightarrow> 'e st \<Rightarrow> 'e st" where
  "MarkBlocked c s =
     (case cx_block c of None \<Rightarrow> s | Some p \<Rightarrow> s\<lparr>st_block := (st_block s)(p := True)\<rparr>)"

definition WithClientInfo :: "ctx \<Rightarrow> ClientInfo \<Rightarrow> ctx" where
  "WithClientInfo c info = c\<lparr>cx_client := Some info\<rparr>"

definition ClientInfoFrom :: "ctx \<Rightarrow> ClientInfo option" where
  "ClientInfoFrom c = cx_client c"

definition WithUpstreamMarker :: "ctx \<Rightarrow> 'e st \<Rightarrow> ctx \<times> 'e st" where
  "WithUpstreamMarker c s =
     (let p = st_cells s in
      (c\<lparr>cx_up := Some p\<rparr>,
       s\<lparr>st_cells := Suc p, st_upinfo := (st_upinfo s)(p := zero_UpstreamInfo)\<rparr>))"

definition MarkUpstream :: "ctx \<Rightarrow> string \<Rightarrow> string \<Rightarrow> 'e st \<Rightarrow> 'e st" where
  "MarkUpstream c name protocol s =
     (case cx_up c of
        None \<Rightarrow> s
      | Some p \<Rightarrow>
          s\<lparr>st_upinfo := (st_upinfo s)(p := \<lparr>ui_Name = name, ui_Protocol = protocol\<rparr>)\<rparr>)"

definition UpstreamInfoFrom :: "ctx \<Rightarrow> 'e st \<Rightarrow> UpstreamInfo option" where
  "UpstreamInfoFrom c s =
     (case cx_up c of
        None \<Rightarrow> None
      | Some p \<Rightarrow> if ui_Name (st_upinfo s p) = [] then None else Some (st_upinfo s p))"

section \<open>The handler\<close>

record ResponseWriter =
  rw_RemoteAddr :: "string option"
  rw_LocalNetwork :: "string option"

definition withClientInfoFromWriter :: "ctx \<Rightarrow> ResponseWriter \<Rightarrow> ctx" where
  "withClientInfoFromWriter c w =
     (case rw_RemoteAddr w of
        None \<Rightarrow> c
      | Some remote \<Rightarrow>
          WithClientInfo c \<lparr>ci_Addr = remote,
            ci_Proto = (case rw_LocalNetwork w of None \<Rightarrow> [] | Some n \<Rightarrow> n)\<rparr>)"

definition servfail :: "msg \<Rightarrow> msg" where
  "servfail req =
     new_Msg\<lparr>msg_Response := True, msg_ID := msg_ID req, msg_Question := msg_Question req,
       msg_Rcode := RcodeServerFailure\<rparr>"

text \<open>\<open>ServeDNS\<close>; the result is the message handed to \<open>WriteTo\<close>.\<close>

definition ServeDNS :: "'e resolver \<Rightarrow> ctx \<Rightarrow> ResponseWriter \<Rightarrow> msg \<Rightarrow> 'e st \<Rightarrow> msg go \<times> 'e st" where
  "ServeDNS r c w req s =
     (case r (withClientInfoFromWriter c w) req s of
        (Panic p, s') \<Rightarrow> (Panic p, s')
      | (Ret (resp, err), s') \<Rightarrow>
          (Ret (case (resp, err) of (Some m, None) \<Rightarrow> m | _ \<Rightarrow> servfail req), s'))"

section \<open>Frame facts\<close>

lemma time_Now_frame [simp, frame_simps]:
  "st_clock (snd (time_Now s)) = st_clock s" "st_lru (snd (time_Now s)) = st_lru s"
  "st_holder (snd (time_Now s)) = st_holder s" "st_metrics (snd (time_Now s)) = st_metrics s"
  "st_qlog (snd (time_Now s)) = st_qlog s" "st_block (snd (time_Now s)) = st_block s"
  "st_upinfo (snd (time_Now s)) = st_upinfo s" "st_cells (snd (time_Now s)) = st_cells s"
  "st_net (snd (time_Now s)) = st_net s" "st_tick (snd (time_Now s)) = Suc (st_tick s)"
  "fst (time_Now s) = st_clock s (st_tick s)"
  by (simp_all add: time_Now_def)

lemma upd_metrics_frame [simp, frame_simps]:
  "st_clock (upd_metrics f s) = st_clock s" "st_lru (upd_metrics f s) = st_lru s"
  "st_holder (upd_metrics f s) = st_holder s" "st_metrics (upd_metrics f s) = f (st_metrics s)"
  "st_qlog (upd_metrics f s) = st_qlog s" "st_block (upd_metrics f s) = st_block s"
  "st_upinfo (upd_metrics f s) = st_upinfo s" "st_cells (upd_metrics f s) = st_cells s"
  "st_net (upd_metrics f s) = st_net s" "st_tick (upd_metrics f s) = st_tick s"
  by (simp_all add: upd_metrics_def)

lemma Outcome_known: "Outcome c s resp err \<in> set all_outcomes"
  by (auto simp: Outcome_def all_outcomes_def split: option.splits)

lemma Outcome_blocked_iff:
  "Outcome c s resp err = ''blocked'' \<longleftrightarrow>
     (\<exists>m. resp = Some m \<and> err = None \<and> msg_Rcode m = RcodeNameError \<and> block_flag c s)"
  by (auto simp: Outcome_def split: option.splits)

lemma servfail_sel [simp]:
  "msg_ID (servfail req) = msg_ID req" "msg_Question (servfail req) = msg_Question req"
  "msg_Rcode (servfail req) = RcodeServerFailure" "msg_Response (servfail req)"
  "msg_Data (servfail req) = None"
  by (simp_all add: servfail_def new_Msg_def)

section \<open>The contract of a stage\<close>

text \<open>
  What a stage may do to the shared state: it keeps the cache well formed, never touches the
  blocklist, the clock, the collectors of the outermost stage or the markers of other queries.
  \<open>front\<close> tells the stages in front of the cache, which may set the block marker of their own
  context and write to the query log, from the cache and everything behind it.
\<close>

definition quiet :: "metrics \<Rightarrow> metrics \<Rightarrow> bool" where
  "quiet m m' \<longleftrightarrow> QueriesTotal m' = QueriesTotal m
     \<and> QueryDurationSeconds m' = QueryDurationSeconds m \<and> PanicsTotal m' = PanicsTotal m"

definition frame :: "bool \<Rightarrow> ctx \<Rightarrow> 'e st \<Rightarrow> 'e st \<Rightarrow> bool" where
  "frame front c s s' \<longleftrightarrow>
     (lru_inv (st_lru s) \<longrightarrow> lru_inv (st_lru s'))
     \<and> l_capacity (st_lru s') = l_capacity (st_lru s)
     \<and> st_clock s' = st_clock s \<and> st_tick s \<le> st_tick s' \<and> st_holder s' = st_holder s
     \<and> st_cells s' = st_cells s \<and> quiet (st_metrics s) (st_metrics s')
     \<and> (\<forall>p. Some p \<noteq> cx_up c \<longrightarrow> st_upinfo s' p = st_upinfo s p)
     \<and> (\<forall>p. \<not> (front \<and> cx_block c = Some p) \<longrightarrow> st_block s' p = st_block s p)
     \<and> (if front then prefix (st_qlog s) (st_qlog s') else st_qlog s' = st_qlog s)"

text \<open>Either a response or an error, never both.\<close>

definition exclusive :: "result go \<Rightarrow> bool" where
  "exclusive out = (case out of Ret (Some _, Some _) \<Rightarrow> False | _ \<Rightarrow> True)"

definition contract :: "bool \<Rightarrow> 'e resolver \<Rightarrow> bool" where
  "contract front r \<longleftrightarrow>
     (\<forall>c req s out s'. r c req s = (out, s') \<longrightarrow> frame front c s s' \<and> exclusive out)"

text \<open>A response to a single question carries the caller's ID and no stale wire buffer.\<close>

definition stamps :: "'e resolver \<Rightarrow> bool" where
  "stamps r \<longleftrightarrow>
     (\<forall>c req s m e s'. r c req s = (Ret (Some m, e), s') \<longrightarrow> length (msg_Question req) = 1 \<longrightarrow>
        msg_ID m = msg_ID req \<and> msg_Data m = None)"

lemma quiet_refl [simp]: "quiet m m"
  by (simp add: quiet_def)

lemma frame_refl [simp]: "frame b c s s"
  by (simp add: frame_def)

lemma frame_trans: "frame b c s s' \<Longrightarrow> frame b c s' s'' \<Longrightarrow> frame b c s s''"
  by (auto simp: frame_def quiet_def split: if_splits)

lemma frame_front: "frame False c s s' \<Longrightarrow> frame True c s s'"
  by (simp add: frame_def)

lemma frame_time_Now [simp]: "frame b c s (snd (time_Now s))"
  by (simp add: frame_def)

lemma frame_ctx_Err [simp]: "frame b c s (snd (ctx_Err c' s))"
  by (simp add: ctx_Err_def time_Now_def frame_def)

lemma frame_metrics: "quiet (st_metrics s) (f (st_metrics s)) \<Longrightarrow> frame b c s (upd_metrics f s)"
  by (simp add: frame_def)

lemma frame_lru:
  "(lru_inv (st_lru s) \<Longrightarrow> lru_inv l) \<Longrightarrow> l_capacity l = l_capacity (st_lru s)
    \<Longrightarrow> frame b c s (s\<lparr>st_lru := l\<rparr>)"
  by (simp add: frame_def)

lemma frame_tick_lru:
  "(lru_inv (st_lru s) \<Longrightarrow> lru_inv l) \<Longrightarrow> l_capacity l = l_capacity (st_lru s)
    \<Longrightarrow> frame b c s (s\<lparr>st_tick := Suc (st_tick s), st_lru := l\<rparr>)"
  by (simp add: frame_def)

lemma frame_net [simp]: "frame b c s (s\<lparr>st_net := n\<rparr>)"
  by (simp add: frame_def)

lemma frame_MarkUpstream [simp]: "frame b c s (MarkUpstream c n p s)"
  by (auto simp: frame_def MarkUpstream_def split: option.splits)

lemma frame_MarkBlocked [simp]: "frame True c s (MarkBlocked c s)"
  by (auto simp: frame_def MarkBlocked_def split: option.splits)

lemma contractI:
  assumes "\<And>c req s out s'. r c req s = (out, s') \<Longrightarrow> frame b c s s' \<and> exclusive out"
  shows "contract b r"
  using assms by (simp add: contract_def)

lemma contractD:
  assumes "contract b r" "r c req s = (out, s')"
  shows "frame b c s s'" "exclusive out"
  using assms by (auto simp: contract_def)

lemma contract_front: "contract False r \<Longrightarrow> contract True r"
  by (auto simp: contract_def intro: frame_front)

lemma exclusive_simps [simp]:
  "exclusive (Panic p)" "exclusive (Ret (None, e))" "exclusive (Ret (r, None))"
  "exclusive (Ret (Some m, Some e')) = False"
  by (auto simp: exclusive_def split: option.splits)

lemma stampsD:
  assumes "stamps r" "r c req s = (Ret (Some m, e), s')" "length (msg_Question req) = 1"
  shows "msg_ID m = msg_ID req" "msg_Data m = None"
  using assms unfolding stamps_def by blast+

locale chain_stage =
  fixes stage :: "'e resolver \<Rightarrow> 'e resolver"
    and front :: bool
    and assumption :: "'e resolver \<Rightarrow> bool"
  assumes keeps_contract: "assumption next \<Longrightarrow> contract front next \<Longrightarrow> contract front (stage next)"
    and keeps_stamps: "stamps next \<Longrightarrow> stamps (stage next)"
begin

lemma keeps_inv:
  assumes "assumption next" "contract front next" "lru_inv (st_lru s)" "stage next c req s = (out, s')"
  shows "lru_inv (st_lru s') \<and> l_capacity (st_lru s') = l_capacity (st_lru s)"
  using contractD(1) [OF keeps_contract [OF assms(1,2)] assms(4)] assms(3) by (simp add: frame_def)

lemma keeps_blocklist:
  assumes "assumption next" "contract front next" "stage next c req s = (out, s')"
  shows "st_holder s' = st_holder s"
  using contractD(1) [OF keeps_contract [OF assms(1,2)] assms(3)] by (simp add: frame_def)

end

end
