(* ===== verification/Cache_Stage.thy ===== *)
theory Cache_Stage
  imports Resolver
begin

text \<open>
  The cache stage (\<open>internal/resolver/cachestage/cache.go\<close>): the lifetime given to a response
  and the lookup/store logic around the cache.
\<close>

section \<open>Lifetimes\<close>

fun findSOA :: "rr list \<Rightarrow> soa option" where
  "findSOA [] = None"
| "findSOA (r # rs) = (case rr_Data r of RD_SOA so \<Rightarrow> Some so | _ \<Rightarrow> findSOA rs)"

text \<open>The loop of \<open>minTTL\<close> carries \<open>best\<close> and \<open>first\<close>.\<close>

fun minTTL_loop :: "u32 \<times> bool \<Rightarrow> rr list \<Rightarrow> u32 \<times> bool" where
  "minTTL_loop acc [] = acc"
| "minTTL_loop (best, first) (r # rs) =
     (if first \<or> rr_TTL r < best then minTTL_loop (rr_TTL r, False) rs
      else minTTL_loop (best, first) rs)"

definition minTTL :: "msg \<Rightarrow> u32" where
  "minTTL m =
     (let (best, first) =
        fold (\<lambda>section acc. minTTL_loop acc section) [msg_Answer m, msg_Ns m, msg_Extra m] (0, True)
      in if first then 0 else best)"

definition isNegative :: "msg \<Rightarrow> bool" where
  "isNegative resp \<longleftrightarrow> msg_Rcode resp = RcodeNameError
     \<or> (msg_Rcode resp = RcodeSuccess \<and> length (msg_Answer resp) = 0)"

definition computeTTL :: "msg \<Rightarrow> CacheCfg \<Rightarrow> int \<times> bool" where
  "computeTTL resp cfg =
     (if isNegative resp then
        (case findSOA (msg_Ns resp) of
           Some so \<Rightarrow>
             let ttl = wrap64 (uint (soa_Minttl so) * time_Second) in
             (if cc_NegativeTTLMax cfg < ttl then cc_NegativeTTLMax cfg else ttl, True)
         | None \<Rightarrow> (0, True))
      else
        let mn = minTTL resp in
        if mn = 0 then (0, False)
        else
          let dur = wrap64 (uint mn * time_Second);
              dur = (if cc_MaxTTL cfg < dur then cc_MaxTTL cfg else dur);
              dur = (if dur < cc_MinTTL cfg then cc_MinTTL cfg else dur)
          in (dur, False))"

section \<open>The stage\<close>

definition recordLookup :: "bool \<Rightarrow> string \<Rightarrow> 'e st \<Rightarrow> 'e st" where
  "recordLookup m result s =
     (if m then upd_metrics (\<lambda>x. x\<lparr>CacheLookupsTotal := vec_Inc (CacheLookupsTotal x) [result]\<rparr>) s
      else s)"

text \<open>The part of \<open>Resolve\<close> after the next stage has answered.\<close>

definition cache_fill :: "CacheCfg \<Rightarrow> string \<Rightarrow> result go \<times> 'e st \<Rightarrow> result go \<times> 'e st" where
  "cache_fill cfg key x =
     (case x of
        (Panic p, s) \<Rightarrow> (Panic p, s)
      | (Ret (_, Some err), s) \<Rightarrow> (Ret (None, Some err), s)
      | (Ret (None, None), s) \<Rightarrow> (Ret (None, None), s)
      | (Ret (Some resp, None), s) \<Rightarrow>
          (case computeTTL resp cfg of
             (ttl, _) \<Rightarrow>
               if 0 < ttl then
                 (case time_Now s of
                    (t, s') \<Rightarrow>
                      (Ret (Some resp, None),
                       s'\<lparr>st_lru := Store (st_lru s') key resp ttl t\<rparr>))
               else (Ret (Some resp, None), s)))"

definition cache_Resolve :: "CacheCfg \<Rightarrow> bool \<Rightarrow> 'e resolver \<Rightarrow> 'e resolver" where
  "cache_Resolve cfg m next c req s =
     (case msg_Question req of
        [q] \<Rightarrow>
          (let key = Key q in
           case time_Now s of
             (t, s1) \<Rightarrow>
               (case Get (st_lru s1) key t of
                  (Some resp, lru) \<Rightarrow>
                    (Ret (Some (resp\<lparr>msg_ID := msg_ID req\<rparr>), None),
                     recordLookup m ''hit'' (s1\<lparr>st_lru := lru\<rparr>))
                | (None, lru) \<Rightarrow>
                    cache_fill cfg key
                      (next c req (recordLookup m ''miss'' (s1\<lparr>st_lru := lru\<rparr>)))))
      | _ \<Rightarrow> next c req s)"

section \<open>The lifetime in closed form\<close>

definition ttl_records :: "msg \<Rightarrow> rr list" where
  "ttl_records m = msg_Answer m @ msg_Ns m @ msg_Extra m"

lemma minTTL_loop_append: "minTTL_loop acc (xs @ ys) = minTTL_loop (minTTL_loop acc xs) ys"
  by (induction acc xs rule: minTTL_loop.induct) auto

lemma minTTL_loop_False:
  "minTTL_loop (b, False) rs = (Min (set (b # map rr_TTL rs)), False)"
proof (induction rs arbitrary: b)
  case (Cons r rs)
  have "Min (insert b (insert (rr_TTL r) (rr_TTL ` set rs)))
      = Min (insert (min b (rr_TTL r)) (rr_TTL ` set rs))"
    by (cases "rs = []") (simp_all add: min.assoc)
  then show ?case by (auto simp: Cons.IH min_def not_less)
qed simp

lemma minTTL_eq:
  "minTTL m = (if ttl_records m = [] then 0 else Min (set (map rr_TTL (ttl_records m))))"
proof -
  have f: "fold (\<lambda>section acc. minTTL_loop acc section) [msg_Answer m, msg_Ns m, msg_Extra m] (0, True)
      = minTTL_loop (0, True) (ttl_records m)"
    by (simp add: ttl_records_def minTTL_loop_append)
  show ?thesis
  proof (cases "ttl_records m")
    case Nil
    then show ?thesis unfolding minTTL_def f by simp
  next
    case (Cons r rs)
    then show ?thesis unfolding minTTL_def f by (simp add: minTTL_loop_False)
  qed
qed

lemma findSOA_eq:
  "findSOA rs = map_option (\<lambda>r. case rr_Data r of RD_SOA so \<Rightarrow> so | _ \<Rightarrow> undefined)
     (find (\<lambda>r. RRToType r = TypeSOA \<and> (\<exists>so. rr_Data r = RD_SOA so)) rs)"
  by (induction rs) (auto simp: RRToType_def split: rdata.splits)

lemma computeTTL_negative:
  "isNegative r \<Longrightarrow> fst (computeTTL r cfg) =
     (case findSOA (msg_Ns r) of
        None \<Rightarrow> 0
      | Some so \<Rightarrow> min (cc_NegativeTTLMax cfg) (uint (soa_Minttl so) * time_Second))"
  by (auto simp: computeTTL_def Let_def u32_seconds_no_wrap split: option.splits)

lemma computeTTL_positive:
  "\<not> isNegative r \<Longrightarrow> fst (computeTTL r cfg) =
     (if minTTL r = 0 then 0
      else max (cc_MinTTL cfg) (min (cc_MaxTTL cfg) (uint (minTTL r) * time_Second)))"
  by (auto simp: computeTTL_def Let_def u32_seconds_no_wrap)

lemma snd_computeTTL: "snd (computeTTL r cfg) = isNegative r"
  by (simp add: computeTTL_def Let_def split: option.splits)

section \<open>The stage keeps the contract\<close>

lemma frame_recordLookup [simp]: "frame b c s (recordLookup m r s)"
  by (auto simp: recordLookup_def quiet_def intro!: frame_metrics)

lemma cache_hit:
  assumes "msg_Question req = [q]" "Get (st_lru s) (Key q) (now s) = (Some resp, lru)"
  shows "cache_Resolve cfg m next c req s =
    (Ret (Some (resp\<lparr>msg_ID := msg_ID req\<rparr>), None),
     recordLookup m ''hit'' ((ticked s)\<lparr>st_lru := lru\<rparr>))"
  using assms by (simp add: cache_Resolve_def time_Now_def)

lemma cache_miss:
  assumes "msg_Question req = [q]" "Get (st_lru s) (Key q) (now s) = (None, lru)"
  shows "cache_Resolve cfg m next c req s =
    cache_fill cfg (Key q) (next c req (recordLookup m ''miss'' ((ticked s)\<lparr>st_lru := lru\<rparr>)))"
  using assms by (simp add: cache_Resolve_def time_Now_def)

lemma cache_bypass:
  assumes "\<nexists>q. msg_Question req = [q]"
  shows "cache_Resolve cfg m next c req s = next c req s"
  using assms by (auto simp: cache_Resolve_def split: list.splits)

lemma cache_fill_store:
  assumes "0 < fst (computeTTL resp cfg)"
  shows "cache_fill cfg key (Ret (Some resp, None), s) =
    (Ret (Some resp, None),
     (ticked s)\<lparr>st_lru := Store (st_lru s) key resp (fst (computeTTL resp cfg)) (now s)\<rparr>)"
  using assms by (cases "computeTTL resp cfg") (simp add: cache_fill_def time_Now_def)

lemma cache_fill_no_store:
  assumes "fst (computeTTL resp cfg) \<le> 0"
  shows "cache_fill cfg key (Ret (Some resp, None), s) = (Ret (Some resp, None), s)"
  using assms by (cases "computeTTL resp cfg") (simp add: cache_fill_def)

lemma cache_fill_other [simp]:
  "cache_fill cfg key (Panic p, s) = (Panic p, s)"
  "cache_fill cfg key (Ret (r, Some e), s) = (Ret (None, Some e), s)"
  "cache_fill cfg key (Ret (None, None), s) = (Ret (None, None), s)"
  by (simp_all add: cache_fill_def split: option.splits)

lemma cache_fill_cases:
  obtains p s where "x = (Panic p, s)" | r e s where "x = (Ret (r, Some e), s)"
  | s where "x = (Ret (None, None), s)"
  | r s where "x = (Ret (Some r, None), s)" "0 < fst (computeTTL r cfg)"
  | r s where "x = (Ret (Some r, None), s)" "fst (computeTTL r cfg) \<le> 0"
  by (metis go.exhaust linorder_not_le option.exhaust surj_pair)

lemma cache_fill_contract:
  assumes "cache_fill cfg key (out0, s0) = (out, s')" "frame b c s s0" "exclusive out0"
  shows "frame b c s s' \<and> exclusive out"
proof -
  have "frame b c s0 s' \<and> exclusive out"
    by (rule cache_fill_cases [where x = "(out0, s0)" and cfg = cfg])
      (use assms(1) in \<open>auto simp: cache_fill_store cache_fill_no_store Store_inv
        intro!: frame_tick_lru\<close>)
  then show ?thesis using frame_trans [OF assms(2)] by blast
qed

lemma frame_lookup:
  assumes "Get (st_lru s) k t = (hit, lru)"
  shows "frame b c s (recordLookup m x ((ticked s)\<lparr>st_lru := lru\<rparr>))"
proof -
  have "frame b c s ((ticked s)\<lparr>st_lru := lru\<rparr>)"
    using Get_inv [of "st_lru s" k t] lc.cap_get [of "st_lru s" k t] assms
    by (intro frame_tick_lru) simp_all
  then show ?thesis by (rule frame_trans) simp
qed

lemma cache_contract:
  assumes n: "contract b next"
  shows "contract b (cache_Resolve cfg m next)"
proof (rule contractI)
  fix c req s out s'
  assume r: "cache_Resolve cfg m next c req s = (out, s')"
  show "frame b c s s' \<and> exclusive out"
  proof (cases "\<exists>q. msg_Question req = [q]")
    case False
    then show ?thesis using r contractD [OF n] by (simp add: cache_bypass)
  next
    case True
    then obtain q where q: "msg_Question req = [q]" ..
    obtain hit lru where g: "Get (st_lru s) (Key q) (now s) = (hit, lru)" by fastforce
    show ?thesis
    proof (cases hit)
      case (Some resp)
      then show ?thesis using r g frame_lookup [OF g] by (auto simp: cache_hit [OF q])
    next
      case None
      let ?s2 = "recordLookup m ''miss'' ((ticked s)\<lparr>st_lru := lru\<rparr>)"
      obtain out0 s0 where nx: "next c req ?s2 = (out0, s0)" by fastforce
      then have "cache_fill cfg (Key q) (out0, s0) = (out, s')"
        using r g None by (simp add: cache_miss [OF q])
      then show ?thesis
        using cache_fill_contract frame_trans [OF frame_lookup [OF g] contractD(1) [OF n nx]]
          contractD(2) [OF n nx] by blast
    qed
  qed
qed

lemma Get_Data: "fst (Get l k t) = Some m \<Longrightarrow> msg_Data m = None"
  by (auto simp: Get_def decrementTTLs_def CloneMsg_def split: prod.splits option.splits)

lemma cache_fill_response:
  "cache_fill cfg key x = (Ret (Some m, e), s') \<Longrightarrow> \<exists>s0. x = (Ret (Some m, None), s0)"
  by (rule cache_fill_cases [where x = x and cfg = cfg]) (auto simp: cache_fill_store cache_fill_no_store)

lemma cache_stamps:
  assumes n: "stamps next"
  shows "stamps (cache_Resolve cfg m next)"
  unfolding stamps_def
proof (intro allI impI)
  fix c req s r e s'
  assume res: "cache_Resolve cfg m next c req s = (Ret (Some r, e), s')"
    and one: "length (msg_Question req) = 1"
  then obtain q where q: "msg_Question req = [q]" by (auto simp: length_Suc_conv)
  obtain hit lru where g: "Get (st_lru s) (Key q) (now s) = (hit, lru)" by fastforce
  show "msg_ID r = msg_ID req \<and> msg_Data r = None"
  proof (cases hit)
    case (Some resp)
    then show ?thesis using res g Get_Data [of "st_lru s" "Key q" "now s" resp]
      by (auto simp: cache_hit [OF q])
  next
    case None
    then show ?thesis
      using res g n one cache_fill_response [of cfg "Key q" _ r e s']
      by (fastforce simp: cache_miss [OF q] stamps_def)
  qed
qed

interpretation cst: chain_stage "cache_Resolve cfg m" b "\<lambda>_. True" for cfg m b
  by unfold_locales (simp_all add: cache_contract cache_stamps)

section \<open>Reuse of stored answers\<close>

text \<open>\<open>r'\<close> is \<open>r\<close> with a TTL that is not larger.\<close>

definition aged :: "rr \<Rightarrow> rr \<Rightarrow> bool" where
  "aged r r' \<longleftrightarrow> rr_TTL r' \<le> rr_TTL r \<and> r'\<lparr>rr_TTL := rr_TTL r\<rparr> = r"

lemma aged_age_rr: "aged r (age_rr n r)"
proof -
  have "rr_TTL r - n \<le> rr_TTL r" if "n < rr_TTL r" using that by (simp add: word_sub_le)
  then show ?thesis by (simp add: aged_def age_rr_def)
qed

lemma aged_list: "list_all2 aged rs (map (age_rr n) rs)"
  by (simp add: list_all2_conv_all_nth aged_age_rr)

text \<open>The state a miss with a cacheable answer leaves behind.\<close>

lemma miss_stores:
  assumes n: "contract b next" and inv: "lru_inv (st_lru s)" and q: "msg_Question req = [q]"
    and miss: "fst (Get (st_lru s) (Key q) (now s)) = None"
    and r: "cache_Resolve cfg m next c req s = (Ret (Some resp, e), s')"
    and ttl: "0 < fst (computeTTL resp cfg)"
  obtains s0 where "lru_inv (st_lru s0)" and "e = None"
    and "s' = (ticked s0)\<lparr>st_lru := Store (st_lru s0) (Key q) resp (fst (computeTTL resp cfg)) (now s0)\<rparr>"
proof -
  obtain lru where g: "Get (st_lru s) (Key q) (now s) = (None, lru)" using miss by (metis prod.collapse)
  let ?s2 = "recordLookup m ''miss'' ((ticked s)\<lparr>st_lru := lru\<rparr>)"
  have cf: "cache_fill cfg (Key q) (next c req ?s2) = (Ret (Some resp, e), s')"
    using r by (simp add: cache_miss [OF q g])
  obtain s0 where nx: "next c req ?s2 = (Ret (Some resp, None), s0)"
    using cache_fill_response [OF cf] by blast
  have "lru_inv (st_lru s0)"
    using frame_trans [OF frame_lookup [OF g] contractD(1) [OF n nx]] inv by (simp add: frame_def)
  then show thesis using that [of s0] cf nx by (simp add: cache_fill_store [OF ttl])
qed

section \<open>Properties\<close>

text \<open>C16: The lifetime given to a response, in closed form and without any overflow: a negative
  answer (NXDOMAIN, or NOERROR without answers) lives for the MINIMUM of the first SOA of the
  authority section, capped by the configured maximum, and is not cached without an SOA; any other
  answer lives for the smallest TTL over the answer, authority and additional sections, capped and
  then floored by the configuration, and is not cached without records or when that TTL is zero. The
  floor thus never applies to a TTL of zero, although the comments of the package, the design and
  the help of the flag promise it without exception.\<close>

theorem computeTTL_closed_form:
  "computeTTL r cfg =
     (if isNegative r then
        (case findSOA (msg_Ns r) of
           None \<Rightarrow> 0
         | Some so \<Rightarrow> min (cc_NegativeTTLMax cfg) (uint (soa_Minttl so) * time_Second), True)
      else
        (if ttl_records r = [] \<or> 0 \<in> rr_TTL ` set (ttl_records r) then 0
         else max (cc_MinTTL cfg) (min (cc_MaxTTL cfg)
           (uint (Min (rr_TTL ` set (ttl_records r))) * time_Second)), False))"
proof (cases "isNegative r")
  case True
  then show ?thesis
    by (simp add: prod_eq_iff computeTTL_negative snd_computeTTL split: option.splits)
next
  case False
  have z: "Min (rr_TTL ` set (ttl_records r)) = 0 \<longleftrightarrow> 0 \<in> rr_TTL ` set (ttl_records r)"
    if "ttl_records r \<noteq> []"
  proof
    assume "Min (rr_TTL ` set (ttl_records r)) = 0"
    then show "0 \<in> rr_TTL ` set (ttl_records r)"
      using Min_in [of "rr_TTL ` set (ttl_records r)"] that by simp
  next
    assume "0 \<in> rr_TTL ` set (ttl_records r)"
    then show "Min (rr_TTL ` set (ttl_records r)) = 0"
      using Min_le [of "rr_TTL ` set (ttl_records r)" 0] by simp
  qed
  have "fst (computeTTL r cfg) =
      (if ttl_records r = [] \<or> 0 \<in> rr_TTL ` set (ttl_records r) then 0
       else max (cc_MinTTL cfg) (min (cc_MaxTTL cfg)
         (uint (Min (rr_TTL ` set (ttl_records r))) * time_Second)))"
    using z by (auto simp: computeTTL_positive [OF False] minTTL_eq)
  with False show ?thesis by (simp add: prod_eq_iff snd_computeTTL)
qed

text \<open>C15: After a miss whose answer is cacheable, any query for the same question (up to the case of
  the name) within the lifetime is answered from the cache: the next stage is not called and the
  network untouched, whatever the next stage is, and the answer is the stored one with the caller's
  ID and TTLs that did not grow.\<close>

theorem cached_answer_reused:
  assumes "contract b next" and "lru_inv (st_lru s)"
    and "msg_Question req = [q]" and "msg_Question req' = [q']" and "same_question q q'"
    and "fst (Get (st_lru s) (Key q) (now s)) = None"
    and "cache_Resolve cfg m next c req s = (Ret (Some resp, e), s')"
    and "0 < fst (computeTTL resp cfg)"
    and "now s' \<le> st_clock s' (st_tick s' - 1) + fst (computeTTL resp cfg)"
  shows "\<exists>resp' s''. cache_Resolve cfg m next' c' req' s' = (Ret (Some resp', None), s'')
     \<and> st_net s'' = st_net s' \<and> msg_ID resp' = msg_ID req' \<and> msg_Rcode resp' = msg_Rcode resp
     \<and> list_all2 aged (msg_Answer resp) (msg_Answer resp')
     \<and> list_all2 aged (msg_Ns resp) (msg_Ns resp')
     \<and> list_all2 aged (msg_Extra resp) (msg_Extra resp')"
proof -
  let ?ttl = "fst (computeTTL resp cfg)"
  from miss_stores [OF assms(1-3,6-8)] obtain s0 where inv: "lru_inv (st_lru s0)"
    and s': "s' = (ticked s0)\<lparr>st_lru := Store (st_lru s0) (Key q) resp ?ttl (now s0)\<rparr>" by blast
  have k: "Key q' = Key q" using assms(5) by (simp add: Key_eq_iff same_question_def)
  have "now s' \<le> now s0 + ?ttl" using assms(9) by (simp add: s')
  from lc.get_after_store [OF inv this, of "Key q" resp]
  obtain lru where "Get (st_lru s') (Key q') (now s')
      = (Some (served (now s') (new_entry (Key q) (CloneMsg resp) ?ttl (now s0))), lru)"
    by (auto simp: s' k prod_eq_iff)
  from cache_hit [OF assms(4) this, of cfg m next' c'] show ?thesis
    by (simp add: recordLookup_def served_def decrementTTLs_def CloneMsg_def cloneRRs_def aged_list)
qed

definition sample_cfg :: CacheCfg where
  "sample_cfg = cfg_Cache Default"

definition sample_req :: msg where
  "sample_req = new_Msg\<lparr>msg_ID := 9, msg_Question := [sample_rr]\<rparr>"

definition sample_next :: "unit resolver" where
  "sample_next c req s = (Ret (Some sample_msg, None), s)"

theorem cached_answer_reused_witness:
  "\<exists>s' resp' s''. cache_Resolve sample_cfg True sample_next Background sample_req
       (init_st (\<lambda>n. int n) 4 (NewMatcher []) ()) = (Ret (Some sample_msg, None), s')
     \<and> cache_Resolve sample_cfg True (\<lambda>c req s. (Panic [], s)) Background sample_req s'
         = (Ret (Some resp', None), s'') \<and> msg_ID resp' = 9"
proof -
  let ?s = "init_st (\<lambda>n. int n) 4 (NewMatcher []) ()"
  have n: "contract False sample_next"
    by (rule contractI) (auto simp: sample_next_def)
  have neg: "\<not> isNegative sample_msg"
    by (simp add: isNegative_def sample_msg_def new_Msg_def RcodeNameError_def)
  have mt: "minTTL sample_msg = 300"
    by (simp add: minTTL_eq ttl_records_def sample_msg_def new_Msg_def sample_rr_def)
  have ttl: "fst (computeTTL sample_msg sample_cfg) = 300 * time_Second"
    by (simp add: computeTTL_positive [OF neg] mt sample_cfg_def Default_def time_Hour_def
        time_Minute_def time_Second_def)
  have g: "Get (st_lru ?s) (Key sample_rr) (now ?s) = (None, st_lru ?s)"
    by (simp add: init_st_def SetObserver_def NewLRU_def new_lru_def Get_def lru_find_def)
  have q: "msg_Question sample_req = [sample_rr]" by (simp add: sample_req_def)
  have pos: "0 < fst (computeTTL sample_msg sample_cfg)" by (simp add: ttl)
  let ?s2 = "recordLookup True ''miss'' ((ticked ?s)\<lparr>st_lru := st_lru ?s\<rparr>)"
  let ?s' = "(ticked ?s2)\<lparr>st_lru := Store (st_lru ?s2) (Key sample_rr) sample_msg
      (fst (computeTTL sample_msg sample_cfg)) (now ?s2)\<rparr>"
  have "cache_Resolve sample_cfg True sample_next Background sample_req ?s
      = (Ret (Some sample_msg, None), ?s')"
    unfolding cache_miss [OF q g] sample_next_def by (rule cache_fill_store [OF pos])
  moreover have "st_tick ?s' = 3" "st_clock ?s' = int"
    by (simp_all add: recordLookup_def init_st_def)
  ultimately obtain s' where r: "cache_Resolve sample_cfg True sample_next Background sample_req ?s
      = (Ret (Some sample_msg, None), s')" and t: "st_tick s' = 3" "st_clock s' = int" by blast
  show ?thesis
    using cached_answer_reused [OF n init_st_inv q q _ _ r pos, of "\<lambda>c req s. (Panic [], s)" Background] r t g
    by (fastforce simp: same_question_def ttl time_Second_def sample_req_def)
qed

text \<open>An error, a missing response or an answer without a lifetime is passed on and never
  stored: the cache is what the lookup and the next stage left.\<close>

theorem uncacheable_not_stored:
  assumes "msg_Question req = [q]" and "Get (st_lru s) (Key q) (now s) = (None, lru)"
    and "next c req (recordLookup m ''miss'' ((ticked s)\<lparr>st_lru := lru\<rparr>)) = (Ret (resp, err), s0)"
    and "err \<noteq> None \<or> resp = None \<or> fst (computeTTL (the resp) cfg) \<le> 0"
  shows "cache_Resolve cfg m next c req s = (Ret (if err = None then resp else None, err), s0)"
  using assms(4)
  by (cases err; cases resp) (auto simp: cache_miss [OF assms(1,2)] assms(3) cache_fill_no_store)

theorem uncacheable_not_stored_witness:
  "snd (cache_Resolve sample_cfg False (\<lambda>c req s. (Ret (None, Some (ErrNew ''x'')), s)) Background
      sample_req (init_st (\<lambda>n. int n) 4 (NewMatcher []) ()))
    = ticked (init_st (\<lambda>n. int n) 4 (NewMatcher []) ())"
proof -
  let ?s = "init_st (\<lambda>n. int n) 4 (NewMatcher []) () :: unit st"
  have g: "Get (st_lru ?s) (Key sample_rr) (now ?s) = (None, st_lru ?s)"
    by (simp add: init_st_def SetObserver_def NewLRU_def new_lru_def Get_def lru_find_def)
  have q: "msg_Question sample_req = [sample_rr]" by (simp add: sample_req_def)
  show ?thesis
    using uncacheable_not_stored [OF q g, of "\<lambda>c req s. (Ret (None, Some (ErrNew ''x'')), s)" Background
        False None "Some (ErrNew ''x'')" "ticked ?s" sample_cfg]
    by (simp add: recordLookup_def)
qed

text \<open>A failure response of the upstream (SERVFAIL) that carries any record with a TTL is stored
  like a successful answer, for at least the configured floor: only the response code NXDOMAIN and
  the empty NOERROR answer are treated as negative.\<close>

theorem servfail_with_records_is_stored:
  assumes "msg_Rcode r = RcodeServerFailure" and "ttl_records r \<noteq> []"
    and "0 \<notin> rr_TTL ` set (ttl_records r)" and "0 < cc_MaxTTL cfg"
  shows "0 < fst (computeTTL r cfg) \<and> cc_MinTTL cfg \<le> fst (computeTTL r cfg)"
proof -
  have neg: "\<not> isNegative r"
    using assms(1) by (simp add: isNegative_def RcodeServerFailure_def RcodeNameError_def RcodeSuccess_def)
  have "Min (rr_TTL ` set (ttl_records r)) \<in> rr_TTL ` set (ttl_records r)"
    using assms(2) by (intro Min_in) simp_all
  then have m: "minTTL r \<noteq> 0" using assms(2,3) by (metis minTTL_eq set_map)
  then have "0 < uint (minTTL r)" by (simp add: word_neq_0_conv word_less_def)
  then show ?thesis using m assms(4) by (auto simp: computeTTL_positive [OF neg] less_max_iff_disj)
qed

theorem servfail_with_records_is_stored_witness:
  "0 < fst (computeTTL (sample_msg\<lparr>msg_Rcode := RcodeServerFailure\<rparr>) sample_cfg)"
  using servfail_with_records_is_stored [of "sample_msg\<lparr>msg_Rcode := RcodeServerFailure\<rparr>" sample_cfg]
  by (simp add: ttl_records_def sample_msg_def new_Msg_def sample_rr_def sample_cfg_def Default_def
      time_Hour_def time_Minute_def time_Second_def)

end
