(* ===== verification/Go_Net.thy ===== *)
theory Go_Net
  imports Go_Strings
begin

text \<open>
  The parts of Go's packages \<open>net\<close>, \<open>net/netip\<close> and \<open>strconv\<close> that the program
  uses on addresses and numbers: \<open>SplitHostPort\<close>, \<open>JoinHostPort\<close>, the acceptance of
  \<open>ParseIP\<close>, \<open>Atoi\<close> and \<open>ParseUint\<close> with base ten.
\<close>

section \<open>Numbers\<close>

definition is_digits :: "string \<Rightarrow> bool" where
  "is_digits s \<longleftrightarrow> s \<noteq> [] \<and> list_all is_digit s"

text \<open>\<open>strconv.ParseUint(s, 10, bits)\<close>.\<close>

definition ParseUint :: "string \<Rightarrow> nat \<Rightarrow> nat option" where
  "ParseUint s bits =
     (if is_digits s \<and> digits_value s < 2 ^ bits then Some (digits_value s) else None)"

text \<open>\<open>strconv.Atoi\<close>: an optional sign, digits, and the range of a 64-bit \<open>int\<close>.\<close>

definition Atoi :: "string \<Rightarrow> int option" where
  "Atoi s =
     (let neg = (s \<noteq> [] \<and> hd s = CHR ''-'');
          ds = (if s \<noteq> [] \<and> (hd s = CHR ''-'' \<or> hd s = CHR ''+'') then tl s else s);
          v = (if neg then - int (digits_value ds) else int (digits_value ds))
      in if is_digits ds \<and> min_i64 \<le> v \<and> v \<le> max_i64 then Some v else None)"

definition Itoa :: "int \<Rightarrow> string" where
  "Itoa i = (if i < 0 then CHR ''-'' # FormatUint (nat (- i)) else FormatUint (nat i))"

section \<open>Host and port\<close>

definition SplitHostPort :: "string \<Rightarrow> goerror + (string \<times> string)" where
  "SplitHostPort hp =
     (case LastIndexByte hp (CHR '':'') of
        None \<Rightarrow> Inl (ErrNew ''missing port in address'')
      | Some i \<Rightarrow>
          (let fin = (\<lambda>host j k.
              if CHR ''['' \<in> set (drop j hp) then Inl (ErrNew ''unexpected [ in address'')
              else if CHR '']'' \<in> set (drop k hp) then Inl (ErrNew ''unexpected ] in address'')
              else Inr (host, drop (i + 1) hp)) in
           if hd hp = CHR ''['' then
             (case IndexByte hp (CHR '']'') of
                None \<Rightarrow> Inl (ErrNew ''missing ] in address'')
              | Some e \<Rightarrow>
                  if e + 1 = length hp then Inl (ErrNew ''missing port in address'')
                  else if e + 1 = i then fin (take (e - 1) (drop 1 hp)) 1 (e + 1)
                  else if hp ! (e + 1) = CHR '':'' then Inl (ErrNew ''too many colons in address'')
                  else Inl (ErrNew ''missing port in address''))
           else
             (let host = take i hp in
              if CHR '':'' \<in> set host then Inl (ErrNew ''too many colons in address'')
              else fin host 0 0)))"

definition JoinHostPort :: "string \<Rightarrow> string \<Rightarrow> string" where
  "JoinHostPort host port =
     (if CHR '':'' \<in> set host then ''['' @ host @ '']:'' @ port else host @ '':'' @ port)"

section \<open>IP literals\<close>

definition octet_ok :: "string \<Rightarrow> bool" where
  "octet_ok f \<longleftrightarrow> is_digits f \<and> (length f = 1 \<or> hd f \<noteq> CHR ''0'') \<and> digits_value f \<le> 255"

definition valid_IPv4 :: "string \<Rightarrow> bool" where
  "valid_IPv4 s \<longleftrightarrow> length (Split s (CHR ''.'')) = 4 \<and> list_all octet_ok (Split s (CHR ''.''))"

definition is_hex :: "char \<Rightarrow> bool" where
  "is_hex c \<longleftrightarrow> is_digit c \<or> c \<in> set ''abcdefABCDEF''"

text \<open>
  The loop of \<open>parseIPv6\<close>: \<open>i\<close> bytes of the address are filled, \<open>ell\<close> tells whether an
  ellipsis has been seen. The result is the number of bytes filled, the ellipsis and what is left,
  or nothing on an error.
\<close>

function ipv6_loop :: "string \<Rightarrow> nat \<Rightarrow> bool \<Rightarrow> (nat \<times> bool \<times> string) option" where
  "ipv6_loop s i ell =
     (if 16 \<le> i then Some (i, ell, s)
      else
        let grp = takeWhile is_hex s; rest = dropWhile is_hex s in
        if grp = [] \<or> 4 < length grp then None
        else if rest \<noteq> [] \<and> hd rest = CHR ''.'' then
          (if (\<not> ell \<and> i \<noteq> 12) \<or> 16 < i + 4 \<or> \<not> valid_IPv4 s then None else Some (i + 4, ell, []))
        else if rest = [] then Some (i + 2, ell, [])
        else if hd rest \<noteq> CHR '':'' \<or> tl rest = [] then None
        else if hd (tl rest) = CHR '':'' then
          (if ell then None
           else if tl (tl rest) = [] then Some (i + 2, True, [])
           else ipv6_loop (tl (tl rest)) (i + 2) True)
        else ipv6_loop (tl rest) (i + 2) ell)"
  by pat_completeness auto
termination
  by (relation "measure (\<lambda>(s, i, ell). 16 - i)") auto

declare ipv6_loop.simps [simp del]

definition valid_IPv6 :: "string \<Rightarrow> bool" where
  "valid_IPv6 s =
     (let lead = (2 \<le> length s \<and> take 2 s = ''::''); s' = (if lead then drop 2 s else s) in
      if lead \<and> s' = [] then True
      else case ipv6_loop s' 0 lead of
             None \<Rightarrow> False
           | Some (i, ell, left) \<Rightarrow> left = [] \<and> (if i < 16 then ell else \<not> ell))"

text \<open>\<open>netip.ParseAddr\<close> decides by the first of \<open>.\<close>, \<open>:\<close> and \<open>%\<close>; \<open>net.ParseIP\<close>
  refuses an address with a zone. The value tells whether the result is not \<open>nil\<close>.\<close>

definition ParseIP_ok :: "string \<Rightarrow> bool" where
  "ParseIP_ok s =
     (case find (\<lambda>c. c \<in> {CHR ''.'', CHR '':'', CHR ''%''}) s of
        None \<Rightarrow> False
      | Some c \<Rightarrow>
          if c = CHR ''.'' then valid_IPv4 s
          else if c = CHR '':'' then CHR ''%'' \<notin> set s \<and> valid_IPv6 s
          else False)"

section \<open>Facts\<close>

lemma ParseUint_FormatUint: "n < 2 ^ b \<Longrightarrow> ParseUint (FormatUint n) b = Some n"
  by (simp add: ParseUint_def is_digits_def FormatUint_digits digits_value_FormatUint)

lemma ParseUint_bound: "ParseUint s b = Some n \<Longrightarrow> n < 2 ^ b"
  by (auto simp: ParseUint_def split: if_splits)

lemma LastIndexByte_snoc:
  assumes "d \<notin> set p"
  shows "LastIndexByte (h @ d # p) d = Some (length h)"
proof -
  have "IndexByte (rev (h @ d # p)) d = Some (length p)"
    using IndexByte_append [of d "rev p" "rev h"] assms by simp
  then show ?thesis by (simp add: LastIndexByte_def)
qed

lemma SplitHostPort_plain:
  assumes "CHR '':'' \<notin> set h" "CHR '':'' \<notin> set p" "set ''[]'' \<inter> set (h @ p) = {}"
  shows "SplitHostPort (h @ CHR '':'' # p) = Inr (h, p)"
proof -
  have "hd (h @ CHR '':'' # p) \<noteq> CHR ''[''" using assms(3) by (cases h) auto
  then show ?thesis
    using assms by (simp add: SplitHostPort_def LastIndexByte_snoc Let_def)
qed

lemma SplitHostPort_bracket:
  assumes "CHR '':'' \<notin> set p" "set ''[]'' \<inter> set (h @ p) = {}"
  shows "SplitHostPort (''['' @ h @ '']:'' @ p) = Inr (h, p)"
proof -
  let ?s = "CHR ''['' # h @ CHR '']'' # CHR '':'' # p"
  have i: "IndexByte ?s (CHR '']'') = Some (Suc (length h))"
    using IndexByte_append [of "CHR '']''" "CHR ''['' # h" "CHR '':'' # p"] assms(2) by simp
  have l: "LastIndexByte ?s (CHR '':'') = Some (length h + 2)"
    using LastIndexByte_snoc [OF assms(1), of "CHR ''['' # h @ [CHR '']'']"] by simp
  have "SplitHostPort ?s = Inr (h, p)"
    unfolding SplitHostPort_def l i using assms by (simp add: Let_def)
  then show ?thesis by simp
qed

lemma SplitHostPort_JoinHostPort:
  assumes "CHR '':'' \<notin> set p" "set ''[]'' \<inter> set (h @ p) = {}"
  shows "SplitHostPort (JoinHostPort h p) = Inr (h, p)"
proof (cases "CHR '':'' \<in> set h")
  case True
  then show ?thesis using SplitHostPort_bracket [OF assms] by (simp add: JoinHostPort_def)
next
  case False
  then show ?thesis using SplitHostPort_plain [OF False assms] by (simp add: JoinHostPort_def)
qed

end
