(* ===== verification/Upstream.thy ===== *)
theory Upstream
  imports Resolver Go_Net
begin

text \<open>
  The upstream clients (\<open>internal/upstream\<close>): the UDP client with its TCP retry, the
  DNS-over-HTTPS client, the factory and the failover pool. The DNS library, the HTTP client and
  the wire codec are parameters, gathered in a record: a call to them may change only the network
  component of the state, and a client exchange may leave a packed buffer in the request.
\<close>

section \<open>The libraries\<close>

text \<open>An HTTP response: its status, the headers the client looks at, and its body as the reader
  delivers it, which is the bytes up to the end or up to the error reading breaks off with.\<close>

record http_response =
  hr_StatusCode :: int
  hr_ContentType :: string
  hr_Age :: string
  hr_Body :: string
  hr_ReadErr :: "goerror option"

text \<open>A DNS-over-HTTPS client: its URL, and what its HTTP client is built from, which is the name
  the certificate is checked against, the port and the addresses its transport dials, and the
  timeout; it follows no redirects. A request as the client sends it.\<close>

record DoHClient =
  dc_url :: string
  dc_ServerName :: string
  dc_port :: string
  dc_dialAddrs :: "string list"
  dc_Timeout :: int

record post_request =
  po_URL :: string
  po_ContentType :: string
  po_Accept :: string
  po_UserAgent :: string
  po_Body :: string

text \<open>
  \<open>lb_Exchange\<close> is \<open>dns.Client.Exchange\<close> (context, request, network, address, timeout) with
  the request's \<open>Data\<close> afterwards; \<open>lb_Pack\<close> is \<open>Msg.Pack\<close>, an error or the packed
  bytes; \<open>lb_NewRequest\<close> the error of \<open>http.NewRequestWithContext\<close>; \<open>lb_Do\<close> is
  \<open>http.Client.Do\<close> of a client with the handshake results reported to the trace, in order;
  \<open>lb_Response\<close> is \<open>dnshttp.Response\<close>, which reads the body of the response it is given.
\<close>

record 'e lib =
  lb_Exchange :: "ctx \<Rightarrow> msg \<Rightarrow> string \<Rightarrow> string \<Rightarrow> int \<Rightarrow> 'e \<Rightarrow> (result \<times> string option) \<times> 'e"
  lb_Pack :: "msg \<Rightarrow> goerror + string"
  lb_NewRequest :: "string \<Rightarrow> goerror option"
  lb_Do :: "DoHClient \<Rightarrow> ctx \<Rightarrow> post_request \<Rightarrow> 'e \<Rightarrow> ((goerror + http_response) \<times> bool list) \<times> 'e"
  lb_ParseMediaType :: "string \<Rightarrow> goerror + string"
  lb_Response :: "http_response \<Rightarrow> goerror + msg"
  lb_ParseURL :: "string \<Rightarrow> goerror + url"
  lb_ConfigureHTTP2 :: "string \<Rightarrow> goerror option"

text \<open>An exchange returns its result and the request as it leaves it.\<close>

type_synonym 'e exchange = "ctx \<Rightarrow> msg \<Rightarrow> 'e st \<Rightarrow> (result go \<times> msg) \<times> 'e st"

record 'e upstream =
  u_Exchange :: "'e exchange"
  u_Name :: string
  u_Protocol :: string

section \<open>The UDP client\<close>

definition client_Exchange :: "'e lib \<Rightarrow> ctx \<Rightarrow> msg \<Rightarrow> string \<Rightarrow> string \<Rightarrow> int \<Rightarrow> 'e st
    \<Rightarrow> (result \<times> msg) \<times> 'e st" where
  "client_Exchange L c req network addr timeout s =
     (case lb_Exchange L c req network addr timeout (st_net s) of
        ((res, data), net) \<Rightarrow> ((res, req\<lparr>msg_Data := data\<rparr>), s\<lparr>st_net := net\<rparr>))"

definition udp_Exchange :: "'e lib \<Rightarrow> string \<Rightarrow> int \<Rightarrow> 'e exchange" where
  "udp_Exchange L addr timeout c req s =
     (case client_Exchange L c req ''udp'' addr timeout s of
        (((_, Some err), req'), s') \<Rightarrow> ((Ret (None, Some (ErrWrap (''udp exchange '' @ addr) err)), req'), s')
      | (((None, None), req'), s') \<Rightarrow> ((Panic ''nil pointer dereference'', req'), s')
      | (((Some resp, None), req'), s') \<Rightarrow>
          if \<not> msg_Truncated resp then ((Ret (Some resp, None), req'), s')
          else
            (case client_Exchange L c req' ''tcp'' addr timeout s' of
               (((_, Some err), req''), s'') \<Rightarrow>
                 ((Ret (None, Some (ErrWrap (''tcp retry '' @ addr) err)), req''), s'')
             | (((resp', None), req''), s'') \<Rightarrow> ((Ret (resp', None), req''), s'')))"

section \<open>The DNS-over-HTTPS client\<close>

definition dohContentType :: string where
  "dohContentType = ''application/dns-message''"

definition MaxMsgSize :: nat where "MaxMsgSize = 65535"

text \<open>\<open>strings.EqualFold\<close> against an ASCII string: two runes outside ASCII fold to a letter.\<close>

definition fold_rune :: "nat \<Rightarrow> nat" where
  "fold_rune r = (if r = 383 then 115 else if r = 8490 then 107 else ascii_lower r)"

definition EqualFold :: "string \<Rightarrow> string \<Rightarrow> bool" where
  "EqualFold s t \<longleftrightarrow> map fold_rune (runes s) = map fold_rune (runes t)"

text \<open>The client's own \<open>decrementTTLs\<close> leaves the question section alone.\<close>

definition doh_decrementTTLs :: "msg \<Rightarrow> u32 \<Rightarrow> msg" where
  "doh_decrementTTLs m age =
     m\<lparr>msg_Answer := map (age_rr age) (msg_Answer m), msg_Ns := map (age_rr age) (msg_Ns m),
       msg_Extra := map (age_rr age) (msg_Extra m)\<rparr>"

definition handshake_metric :: "string \<Rightarrow> bool \<Rightarrow> metrics \<Rightarrow> metrics" where
  "handshake_metric url ok m =
     m\<lparr>DoHTLSHandshakesTotal :=
         vec_Inc (DoHTLSHandshakesTotal m) [url, if ok then ''ok'' else ''error'']\<rparr>"

definition status_metric :: "string \<Rightarrow> int \<Rightarrow> metrics \<Rightarrow> metrics" where
  "status_metric url code m =
     m\<lparr>DoHHTTPStatusTotal := vec_Inc (DoHHTTPStatusTotal m) [url, Itoa code]\<rparr>"

text \<open>\<open>resp.Body = io.NopCloser(io.LimitReader(resp.Body, dns.MaxMsgSize))\<close>: at the limit the
  reader reports the end of the body, so that an error behind it is not met.\<close>

definition limit_body :: "http_response \<Rightarrow> http_response" where
  "limit_body hr =
     hr\<lparr>hr_Body := take MaxMsgSize (hr_Body hr),
        hr_ReadErr := (if length (hr_Body hr) < MaxMsgSize then hr_ReadErr hr else None)\<rparr>"

text \<open>The checks on an HTTP response, up to the message with the caller's ID.\<close>

definition doh_decode :: "'e lib \<Rightarrow> string \<Rightarrow> u16 \<Rightarrow> http_response \<Rightarrow> goerror + msg" where
  "doh_decode L url origID hr =
     (let place = ''doh '' @ url in
      if go_quot (hr_StatusCode hr) 100 \<noteq> 2 then Inl (ErrNew (place @ '': http '' @ Itoa (hr_StatusCode hr)))
      else case lb_ParseMediaType L (hr_ContentType hr) of
          Inl e \<Rightarrow> Inl (ErrWrap (place @ '': unexpected content-type'') e)
        | Inr mediaType \<Rightarrow>
            if \<not> EqualFold mediaType dohContentType then Inl (ErrNew (place @ '': unexpected content-type''))
            else case lb_Response L (limit_body hr) of
                Inl e \<Rightarrow> Inl (ErrWrap (place @ '': decode'') e)
              | Inr m \<Rightarrow>
                  let m' = (if hr_Age hr = [] then m
                            else case ParseUint (hr_Age hr) 32 of
                                   Some age \<Rightarrow> if 0 < age then doh_decrementTTLs m (of_nat age) else m
                                 | None \<Rightarrow> m)
                  in Inr (m'\<lparr>msg_ID := origID\<rparr>))"

definition doh_request :: "string \<Rightarrow> string \<Rightarrow> post_request" where
  "doh_request url data =
     \<lparr>po_URL = url, po_ContentType = dohContentType, po_Accept = dohContentType, po_UserAgent = ''bns'',
      po_Body = data\<rparr>"

definition doh_Exchange :: "'e lib \<Rightarrow> DoHClient \<Rightarrow> 'e exchange" where
  "doh_Exchange L cl c req s =
     (let url = dc_url cl; origID = msg_ID req; req0 = req\<lparr>msg_ID := 0\<rparr>;
          fail = (\<lambda>e r s'. ((Ret (None, Some e), r\<lparr>msg_ID := origID\<rparr>), s')) in
      case lb_Pack L req0 of
        Inl e \<Rightarrow> fail (ErrWrap (''doh '' @ url @ '': pack'') e) req0 s
      | Inr data \<Rightarrow>
          (let req1 = req0\<lparr>msg_Data := Some data\<rparr> in
           case lb_NewRequest L url of
             Some e \<Rightarrow> fail (ErrWrap (''doh '' @ url @ '': build request'') e) req1 s
           | None \<Rightarrow>
               (case lb_Do L cl c (doh_request url data) (st_net s) of
                  ((res, hs), net) \<Rightarrow>
                    (let s1 = upd_metrics (fold (handshake_metric url) hs) (s\<lparr>st_net := net\<rparr>) in
                     case res of
                       Inl e \<Rightarrow> fail (ErrWrap (''doh '' @ url @ '': do'') e) req1 s1
                     | Inr hr \<Rightarrow>
                         (let s2 = upd_metrics (status_metric url (hr_StatusCode hr)) s1 in
                          case doh_decode L url origID hr of
                            Inl e \<Rightarrow> fail e req1 s2
                          | Inr m \<Rightarrow> ((Ret (Some m, None), req1\<lparr>msg_ID := origID\<rparr>), s2))))))"

section \<open>The factory\<close>

definition NewUDPClient :: "'e lib \<Rightarrow> string \<Rightarrow> int \<Rightarrow> 'e upstream" where
  "NewUDPClient L addr timeout =
     \<lparr>u_Exchange = udp_Exchange L addr timeout, u_Name = addr, u_Protocol = ''udp''\<rparr>"

text \<open>The dial addresses and the port the client's transport uses.\<close>

definition doh_dial_addrs :: "string list \<Rightarrow> string \<Rightarrow> string list" where
  "doh_dial_addrs endpointIPs host = (if endpointIPs = [] then [host] else endpointIPs)"

definition doh_port :: "url \<Rightarrow> string" where
  "doh_port u = (if url_Port u = [] then ''443'' else url_Port u)"

definition NewDoHClient :: "'e lib \<Rightarrow> string \<Rightarrow> string list \<Rightarrow> int \<Rightarrow> goerror + 'e upstream" where
  "NewDoHClient L rawURL endpointIPs timeout =
     (case lb_ParseURL L rawURL of
        Inl e \<Rightarrow> Inl (ErrWrap ''doh url'' e)
      | Inr u \<Rightarrow>
          if url_Host u = [] then Inl (ErrNew ''doh url: missing host'')
          else
            (let host = url_Hostname u;
                 cl = \<lparr>dc_url = rawURL, dc_ServerName = host, dc_port = doh_port u,
                   dc_dialAddrs = doh_dial_addrs endpointIPs host, dc_Timeout = timeout\<rparr> in
             case lb_ConfigureHTTP2 L rawURL of
               Some e \<Rightarrow> Inl (ErrWrap (''doh '' @ rawURL @ '': configure http/2'') e)
             | None \<Rightarrow> Inr \<lparr>u_Exchange = doh_Exchange L cl, u_Name = rawURL, u_Protocol = ''doh''\<rparr>))"

definition upstream_New :: "'e lib \<Rightarrow> UpstreamCfg \<Rightarrow> goerror + 'e upstream" where
  "upstream_New L u =
     (if up_Type u = '''' \<or> up_Type u = ''udp'' then Inr (NewUDPClient L (up_Addr u) (up_Timeout u))
      else if up_Type u = ''doh'' then NewDoHClient L (up_URL u) (up_EndpointIPs u) (up_Timeout u)
      else Inl (ErrNew ''upstream: unknown type''))"

text \<open>The loop of \<open>runServe\<close> that builds the clients.\<close>

fun build_upstreams :: "'e lib \<Rightarrow> UpstreamCfg list \<Rightarrow> goerror + 'e upstream list" where
  "build_upstreams L [] = Inr []"
| "build_upstreams L (u # us) =
     (case upstream_New L u of
        Inl e \<Rightarrow> Inl (ErrWrap ''build upstream'' e)
      | Inr x \<Rightarrow>
          (case build_upstreams L us of Inl e \<Rightarrow> Inl e | Inr xs \<Rightarrow> Inr (x # xs)))"

section \<open>The pool\<close>

definition attempt_metrics :: "'e upstream \<Rightarrow> int \<Rightarrow> bool \<Rightarrow> metrics \<Rightarrow> metrics" where
  "attempt_metrics u elapsed ok m =
     m\<lparr>UpstreamDurationSeconds :=
         vec_Observe (UpstreamDurationSeconds m) [u_Name u, u_Protocol u] elapsed,
       UpstreamQueriesTotal :=
         vec_Inc (UpstreamQueriesTotal m)
           [u_Name u, u_Protocol u, if ok then ''ok'' else ''error'']\<rparr>"

text \<open>One round of the loop up to the recorded metrics.\<close>

definition attempt :: "bool \<Rightarrow> 'e upstream \<Rightarrow> 'e exchange" where
  "attempt m u c req s =
     (case time_Now s of
        (start, s1) \<Rightarrow>
          (case u_Exchange u c req s1 of
             ((Panic p, req'), s2) \<Rightarrow> ((Panic p, req'), s2)
           | ((Ret (resp, err), req'), s2) \<Rightarrow>
               (case time_Now s2 of
                  (t, s3) \<Rightarrow>
                    ((Ret (resp, err), req'),
                     if m then upd_metrics (attempt_metrics u (time_Sub t start) (err = None)) s3
                     else s3))))"

fun pool_loop :: "bool \<Rightarrow> 'e upstream list \<Rightarrow> goerror list \<Rightarrow> 'e exchange" where
  "pool_loop m [] errs c req s = ((Ret (None, Some (ErrJoin errs)), req), s)"
| "pool_loop m (u # us) errs c req s =
     (case attempt m u c req s of
        ((Panic p, req'), s') \<Rightarrow> ((Panic p, req'), s')
      | ((Ret (resp, None), req'), s') \<Rightarrow>
          ((Ret (resp, None), req'), MarkUpstream c (u_Name u) (u_Protocol u) s')
      | ((Ret (resp, Some e), req'), s') \<Rightarrow>
          (let errs' = errs @ [ErrWrap (u_Name u) e] in
           case ctx_Err c s' of
             (Some _, s'') \<Rightarrow> ((Ret (None, Some (ErrJoin errs')), req'), s'')
           | (None, s'') \<Rightarrow> pool_loop m us errs' c req' s''))"

definition pool_Exchange :: "bool \<Rightarrow> 'e upstream list \<Rightarrow> 'e exchange" where
  "pool_Exchange m ups c req s =
     (if ups = [] then
        ((Ret (None, Some (ErrNew ''upstream pool: no upstreams configured'')), req), s)
      else pool_loop m ups [] c req s)"

definition NewPool :: "bool \<Rightarrow> 'e upstream list \<Rightarrow> 'e upstream" where
  "NewPool m ups =
     \<lparr>u_Exchange = pool_Exchange m ups, u_Name = ''pool'', u_Protocol = ''pool''\<rparr>"

section \<open>The contract of an upstream\<close>

locale upstream_contract =
  fixes exch :: "'e exchange"
  assumes keeps: "exch c req s = ((out, req'), s') \<Longrightarrow>
    frame False c s s' \<and> exclusive out \<and> req'\<lparr>msg_Data := msg_Data req\<rparr> = req"
begin

text \<open>Forgetting the request gives a resolver that keeps the contract of the inner stages.\<close>

lemma as_resolver:
  "contract False (\<lambda>c req s. case exch c req s of ((out, _), s') \<Rightarrow> (out, s'))"
proof (rule contractI)
  fix c req s out s'
  assume "(case exch c req s of ((out, _), s') \<Rightarrow> (out, s')) = (out, s')"
  then obtain req' where "exch c req s = ((out, req'), s')" by (auto split: prod.splits)
  then show "frame False c s s' \<and> exclusive out" using keeps by blast
qed

lemma request_kept:
  assumes "exch c req s = ((out, req'), s')"
  shows "msg_ID req' = msg_ID req" "msg_Question req' = msg_Question req"
proof -
  have "req'\<lparr>msg_Data := msg_Data req\<rparr> = req" using keeps [OF assms] by blast
  then show "msg_ID req' = msg_ID req" "msg_Question req' = msg_Question req"
    by (metis msg.select_convs msg.surjective msg.update_convs(10))+
qed

end

lemma client_Exchange_frame:
  assumes "client_Exchange L c req nw addr t s = ((res, req'), s')"
  shows "frame b c s s'" and "req'\<lparr>msg_Data := msg_Data req\<rparr> = req"
  using assms by (auto simp: client_Exchange_def split: prod.splits)

lemma request_trans:
  assumes "r1\<lparr>msg_Data := msg_Data r0\<rparr> = r0" "r2\<lparr>msg_Data := msg_Data r1\<rparr> = r1"
  shows "r2\<lparr>msg_Data := msg_Data r0\<rparr> = r0"
proof -
  have "r2\<lparr>msg_Data := msg_Data r0\<rparr> = r2\<lparr>msg_Data := msg_Data r1\<rparr>\<lparr>msg_Data := msg_Data r0\<rparr>" by simp
  then show ?thesis using assms by argo
qed

lemma udp_keeps:
  assumes "udp_Exchange L addr t c req s = ((out, req'), s')"
  shows "frame False c s s' \<and> exclusive out \<and> req'\<lparr>msg_Data := msg_Data req\<rparr> = req"
proof -
  obtain res req1 s1 where e1: "client_Exchange L c req ''udp'' addr t s = ((res, req1), s1)"
    by (metis prod.collapse)
  obtain res2 req2 s2 where e2: "client_Exchange L c req1 ''tcp'' addr t s1 = ((res2, req2), s2)"
    by (metis prod.collapse)
  note f1 = client_Exchange_frame [OF e1] and f2 = client_Exchange_frame [OF e2]
  have "req2\<lparr>msg_Data := msg_Data req\<rparr> = req" by (rule request_trans [OF f1(2) f2(2)])
  moreover have "frame b c s s2" for b by (rule frame_trans [OF f1(1) f2(1)])
  ultimately show ?thesis
    using assms e1 e2 f1 f2
    by (auto simp: udp_Exchange_def split: prod.splits option.splits if_splits)
qed

lemma quiet_handshakes: "quiet m (fold (handshake_metric url) hs m)"
proof (induction hs arbitrary: m)
  case (Cons h hs)
  have "quiet m (handshake_metric url h m)" by (simp add: quiet_def handshake_metric_def)
  with Cons [of "handshake_metric url h m"] show ?case by (simp add: quiet_def)
qed simp

lemma quiet_status: "quiet m (status_metric url c m)"
  by (simp add: quiet_def status_metric_def)

lemma doh_keeps:
  assumes "doh_Exchange L cl c req s = ((out, req'), s')"
  shows "frame False c s s' \<and> exclusive out \<and> req'\<lparr>msg_Data := msg_Data req\<rparr> = req"
proof -
  let ?s1 = "\<lambda>net hs. upd_metrics (fold (handshake_metric (dc_url cl)) hs) (s\<lparr>st_net := net\<rparr>)"
  have f1: "frame False c s (?s1 net hs)" for net hs
    by (rule frame_trans [OF frame_net frame_metrics]) (simp add: quiet_handshakes)
  have f2: "frame False c s (upd_metrics (status_metric (dc_url cl) k) (?s1 net hs))" for net hs k
    by (rule frame_trans [OF f1 frame_metrics]) (simp add: quiet_status)
  show ?thesis
    using assms
    by (auto simp: doh_Exchange_def Let_def f1 f2 split: sum.splits option.splits prod.splits)
qed

interpretation udp: upstream_contract "udp_Exchange L addr t" for L addr t
  by unfold_locales (rule udp_keeps)

interpretation doh: upstream_contract "doh_Exchange L cl" for L cl
  by unfold_locales (rule doh_keeps)

section \<open>The pool keeps the contract\<close>

lemma quiet_attempt: "quiet m (attempt_metrics u t ok m)"
  by (simp add: quiet_def attempt_metrics_def)

lemma attempt_keeps:
  assumes u: "upstream_contract (u_Exchange u)" and a: "attempt m u c req s = ((out, req'), s')"
  shows "frame False c s s' \<and> exclusive out \<and> req'\<lparr>msg_Data := msg_Data req\<rparr> = req"
proof -
  obtain s2 where e: "u_Exchange u c req (ticked s) = ((out, req'), s2)"
    using a by (auto simp: attempt_def time_Now_def split: prod.splits go.splits)
  note k = upstream_contract.keeps [OF u e]
  have f: "frame False c s s2"
    using frame_trans [OF frame_time_Now [of False c s]] k by (simp add: time_Now_def)
  have "s' = s2 \<or> s' = ticked s2 \<or> (\<exists>t ok. s' = upd_metrics (attempt_metrics u t ok) (ticked s2))"
    using a e by (auto simp: attempt_def time_Now_def split: go.splits if_splits) blast
  moreover have "frame False c s2 (ticked s2)"
    using frame_time_Now [of False c s2] by (simp add: time_Now_def)
  moreover have "frame False c (ticked s2) (upd_metrics (attempt_metrics u t ok) (ticked s2))" for t ok
    by (rule frame_metrics) (simp add: quiet_attempt)
  ultimately show ?thesis using k f frame_trans by blast
qed

lemma pool_loop_keeps:
  assumes "\<forall>u \<in> set us. upstream_contract (u_Exchange u)"
    and "pool_loop m us errs c req s = ((out, req'), s')"
  shows "frame False c s s' \<and> exclusive out \<and> req'\<lparr>msg_Data := msg_Data req\<rparr> = req"
  using assms
proof (induction us arbitrary: errs req s)
  case Nil
  then show ?case by auto
next
  case (Cons u us)
  obtain o1 req1 s1 where a: "attempt m u c req s = ((o1, req1), s1)" by (metis prod.collapse)
  have k: "frame False c s s1" "exclusive o1" "req1\<lparr>msg_Data := msg_Data req\<rparr> = req"
    using attempt_keeps [OF _ a] Cons.prems(1) by simp_all
  show ?case
  proof (cases "\<exists>r e s2. o1 = Ret (r, Some e) \<and> ctx_Err c s1 = (None, s2)")
    case True
    then obtain r e s2 where o: "o1 = Ret (r, Some e)" and cx: "ctx_Err c s1 = (None, s2)" by blast
    have "pool_loop m us (errs @ [ErrWrap (u_Name u) e]) c req1 s2 = ((out, req'), s')"
      using Cons.prems(2) a o cx by simp
    from Cons.IH [OF _ this] Cons.prems(1)
    have ih: "frame False c s2 s'" "exclusive out" "req'\<lparr>msg_Data := msg_Data req1\<rparr> = req1" by auto
    have "frame False c s1 s2" using frame_ctx_Err [of False c s1 c] cx by simp
    moreover have "req'\<lparr>msg_Data := msg_Data req\<rparr> = req" by (rule request_trans [OF k(3) ih(3)])
    ultimately show ?thesis using ih k(1) frame_trans by blast
  next
    case False
    have "frame False c s s2" if "ctx_Err c s1 = (x, s2)" for x s2
      using frame_trans [OF k(1) frame_ctx_Err [of False c s1 c]] that by simp
    moreover have "frame False c s (MarkUpstream c n p s1)" for n p
      by (rule frame_trans [OF k(1)]) simp
    ultimately show ?thesis
      using Cons.prems(2) a k False
      by (auto simp: Let_def split: go.splits prod.splits option.splits)
  qed
qed

lemma pool_keeps:
  assumes "\<forall>u \<in> set us. upstream_contract (u_Exchange u)"
  shows "upstream_contract (pool_Exchange m us)"
  by unfold_locales (use assms in \<open>auto simp: pool_Exchange_def split: if_splits dest!: pool_loop_keeps\<close>)

lemma upstream_New_keeps:
  "upstream_New L u = Inr x \<Longrightarrow> upstream_contract (u_Exchange x)"
  using udp.upstream_contract_axioms doh.upstream_contract_axioms
  by (auto simp: upstream_New_def NewUDPClient_def NewDoHClient_def Let_def
      split: if_splits sum.splits option.splits)

lemma build_upstreams_keeps:
  "build_upstreams L us = Inr xs \<Longrightarrow> \<forall>x \<in> set xs. upstream_contract (u_Exchange x)"
  by (induction us arbitrary: xs) (auto split: sum.splits intro: upstream_New_keeps)

section \<open>Failover\<close>

text \<open>A sequence of upstreams that were all tried and failed, with the errors collected.\<close>

inductive failing :: "bool \<Rightarrow> ctx \<Rightarrow> 'e upstream list \<Rightarrow> msg \<Rightarrow> 'e st \<Rightarrow> goerror list \<Rightarrow> msg \<Rightarrow> 'e st \<Rightarrow> bool"
  for m :: bool and c :: ctx where
  fail_nil: "failing m c [] req s [] req s"
| fail_cons: "attempt m u c req s = ((Ret (r, Some e), req1), s1) \<Longrightarrow> ctx_Err c s1 = (None, s2) \<Longrightarrow>
    failing m c us req1 s2 es req' s' \<Longrightarrow>
    failing m c (u # us) req s (ErrWrap (u_Name u) e # es) req' s'"

inductive_cases failing_NilE: "failing m c [] req s es req' s'"
inductive_cases failing_ConsE: "failing m c (u # us) req s es req' s'"

lemma failing_errors:
  "failing m c us req s es req' s' \<Longrightarrow> list_all2 (\<lambda>u x. \<exists>e. x = ErrWrap (u_Name u) e) us es"
  by (induction rule: failing.induct) auto

lemma pool_loop_success:
  assumes "pool_loop m us errs c req s = ((Ret (resp, None), req'), s')"
  shows "\<exists>pre u post es req1 s1 s2. us = pre @ u # post \<and> failing m c pre req s es req1 s1
    \<and> attempt m u c req1 s1 = ((Ret (resp, None), req'), s2)
    \<and> s' = MarkUpstream c (u_Name u) (u_Protocol u) s2"
  using assms
proof (induction us arbitrary: errs req s)
  case (Cons u us)
  obtain o1 req1 s1 where a: "attempt m u c req s = ((o1, req1), s1)" by (metis prod.collapse)
  consider p where "o1 = Panic p" | r where "o1 = Ret (r, None)" | r e where "o1 = Ret (r, Some e)"
    by (metis go.exhaust option.exhaust surj_pair)
  then show ?case
  proof cases
    case 1
    then show ?thesis using Cons.prems a by simp
  next
    case 2
    then show ?thesis
      using Cons.prems a by (intro exI [of _ "[]"] exI [of _ u] exI [of _ us]) (auto intro: fail_nil)
  next
    case 3
    obtain x s2 where cx: "ctx_Err c s1 = (x, s2)" by fastforce
    then have none: "x = None" using Cons.prems a 3 by (cases x) auto
    then obtain pre v post es req2 t1 t2 where "us = pre @ v # post" "failing m c pre req1 s2 es req2 t1"
      "attempt m v c req2 t1 = ((Ret (resp, None), req'), t2)"
      "s' = MarkUpstream c (u_Name v) (u_Protocol v) t2"
      using Cons.IH [of "errs @ [ErrWrap (u_Name u) e]" req1 s2] Cons.prems a 3 cx by auto
    then show ?thesis
      using fail_cons [OF a [unfolded 3] cx [unfolded none]] by (metis append_Cons)
  qed
qed simp

lemma pool_loop_error:
  assumes "pool_loop m us errs c req s = ((Ret (resp, Some x), req'), s')"
  shows "\<exists>n es. x = ErrJoin (errs @ es) \<and> n \<le> length us
    \<and> list_all2 (\<lambda>u x. \<exists>e. x = ErrWrap (u_Name u) e) (take n us) es
    \<and> (n = length us \<or> (\<exists>t. cx_err c t \<noteq> None))"
  using assms
proof (induction us arbitrary: errs req s)
  case Nil
  then show ?case by (intro exI [of _ 0] exI [of _ "[]"]) simp
next
  case (Cons u us)
  obtain o1 req1 s1 where a: "attempt m u c req s = ((o1, req1), s1)" by (metis prod.collapse)
  obtain r e where o1: "o1 = Ret (r, Some e)"
    using Cons.prems a by (cases o1) (auto split: option.splits prod.splits)
  obtain y s2 where cx: "ctx_Err c s1 = (y, s2)" by fastforce
  show ?case
  proof (cases y)
    case None
    from Cons.IH [of "errs @ [ErrWrap (u_Name u) e]" req1 s2]
    obtain n es where "x = ErrJoin (errs @ ErrWrap (u_Name u) e # es)" "n \<le> length us"
      "list_all2 (\<lambda>u x. \<exists>e. x = ErrWrap (u_Name u) e) (take n us) es"
      "n = length us \<or> (\<exists>t. cx_err c t \<noteq> None)"
      using Cons.prems a o1 cx None by auto
    then show ?thesis
      by (intro exI [of _ "Suc n"] exI [of _ "ErrWrap (u_Name u) e # es"]) auto
  next
    case (Some z)
    have "cx_err c (now s1) \<noteq> None" using cx Some by (simp add: ctx_Err_def time_Now_def)
    then show ?thesis
      using Cons.prems a o1 cx Some
      by (intro exI [of _ 1] exI [of _ "[ErrWrap (u_Name u) e]"]) auto
  qed
qed

text \<open>What an exchange over HTTPS does to the state depends on the request through its packing
  with the ID zero.\<close>

lemma doh_Exchange_state:
  "snd (doh_Exchange L cl c req s) =
     (case lb_Pack L (req\<lparr>msg_ID := 0\<rparr>) of
        Inl e \<Rightarrow> s
      | Inr data \<Rightarrow>
          (case lb_NewRequest L (dc_url cl) of
             Some e \<Rightarrow> s
           | None \<Rightarrow>
               (case lb_Do L cl c (doh_request (dc_url cl) data) (st_net s) of
                  ((res, hs), net) \<Rightarrow>
                    (let s1 = upd_metrics (fold (handshake_metric (dc_url cl)) hs) (s\<lparr>st_net := net\<rparr>) in
                     case res of
                       Inl e \<Rightarrow> s1
                     | Inr hr \<Rightarrow> upd_metrics (status_metric (dc_url cl) (hr_StatusCode hr)) s1))))"
  by (simp add: doh_Exchange_def Let_def split: sum.splits option.splits prod.splits)

section \<open>Properties\<close>

text \<open>C20: When the pool answers, the answer comes from the first upstream in the configured order
  that succeeded: every upstream before it was tried once and failed while the context was alive,
  none after it was tried, and the query's upstream marker names the one that answered.\<close>

theorem pool_first_success:
  assumes "pool_Exchange m ups c req s = ((Ret (resp, None), req'), s')"
  shows "\<exists>pre u post es req1 s1 s2. ups = pre @ u # post \<and> failing m c pre req s es req1 s1
    \<and> attempt m u c req1 s1 = ((Ret (resp, None), req'), s2)
    \<and> s' = MarkUpstream c (u_Name u) (u_Protocol u) s2"
  using pool_loop_success [of m ups "[]"] assms by (auto simp: pool_Exchange_def split: if_splits)

definition dead_upstream :: "unit upstream" where
  "dead_upstream = \<lparr>u_Exchange = (\<lambda>c req s. ((Ret (None, Some (ErrNew ''refused'')), req), s)),
     u_Name = ''a'', u_Protocol = ''udp''\<rparr>"

definition live_upstream :: "unit upstream" where
  "live_upstream = \<lparr>u_Exchange = (\<lambda>c req s. ((Ret (Some new_Msg, None), req), s)),
     u_Name = ''b'', u_Protocol = ''udp''\<rparr>"

theorem pool_first_success_witness:
  "\<exists>s'. pool_Exchange False [dead_upstream, live_upstream] Background new_Msg
       (init_st int 1 (NewMatcher []) ()) = ((Ret (Some new_Msg, None), new_Msg), s')
     \<and> (\<exists>pre u post s2. [dead_upstream, live_upstream] = pre @ u # post \<and> u_Name u = ''b''
          \<and> s' = MarkUpstream Background ''b'' ''udp'' s2)"
proof -
  let ?p = "pool_Exchange False [dead_upstream, live_upstream] Background new_Msg
      (init_st int 1 (NewMatcher []) ())"
  obtain s' where p: "?p = ((Ret (Some new_Msg, None), new_Msg), s')"
    by (simp add: pool_Exchange_def attempt_def time_Now_def dead_upstream_def live_upstream_def
        ctx_Err_def Background_def)
  from pool_first_success [OF p] obtain pre u post req1 s1 s2 where
    e: "[dead_upstream, live_upstream] = pre @ u # post"
    and a: "attempt False u Background req1 s1 = ((Ret (Some new_Msg, None), new_Msg), s2)"
    and s': "s' = MarkUpstream Background (u_Name u) (u_Protocol u) s2" by blast
  have "u \<noteq> dead_upstream" using a by (auto simp: attempt_def time_Now_def dead_upstream_def)
  then have "u = live_upstream" using e by (metis in_set_conv_decomp set_ConsD empty_iff list.set(1))
  then have "u_Name u = ''b''" "u_Protocol u = ''udp''" by (simp_all add: live_upstream_def)
  with p e s' show ?thesis by auto
qed

text \<open>When a pool of at least one upstream fails, its error joins one wrapped error per upstream
  tried, in the configured order and each under the upstream's name; all of them were tried unless
  the context was cancelled or timed out on the way.\<close>

theorem pool_error_reports_each:
  assumes "pool_Exchange m ups c req s = ((Ret (resp, Some x), req'), s')" and "ups \<noteq> []"
  shows "\<exists>n es. x = ErrJoin es \<and> n \<le> length ups
    \<and> list_all2 (\<lambda>u y. \<exists>e. y = ErrWrap (u_Name u) e) (take n ups) es
    \<and> (n = length ups \<or> (\<exists>t. cx_err c t \<noteq> None))"
  using pool_loop_error [of m ups "[]"] assms by (auto simp: pool_Exchange_def)

theorem pool_error_reports_each_witness:
  "\<exists>es. fst (fst (pool_Exchange False [dead_upstream, dead_upstream] Background new_Msg
        (init_st int 1 (NewMatcher []) ()))) = Ret (None, Some (ErrJoin es)) \<and> length es = 2"
proof -
  let ?x = "pool_Exchange False [dead_upstream, dead_upstream] Background new_Msg
        (init_st int 1 (NewMatcher []) ())"
  obtain y req' s' where p: "?x = ((Ret (None, Some y), req'), s')"
    by (simp add: pool_Exchange_def attempt_def time_Now_def dead_upstream_def ctx_Err_def Background_def)
  from pool_error_reports_each [OF p] obtain n es where "y = ErrJoin es"
    "list_all2 (\<lambda>u z. \<exists>e. z = ErrWrap (u_Name u) e) (take n [dead_upstream, dead_upstream]) es"
    "n = 2" by (auto simp: Background_def)
  then show ?thesis using p by (auto dest: list_all2_lengthD)
qed

text \<open>C21: A DNS-over-HTTPS exchange leaves the request as it was apart from the packed buffer, on
  every path; a response carries the request's ID although the message on the wire had the ID
  zero; and what is sent and what happens to the network and the metrics do not depend on the
  request's ID.\<close>

theorem doh_id_restored:
  assumes "doh_Exchange L cl c req s = ((out, req'), s')"
  shows "req'\<lparr>msg_Data := msg_Data req\<rparr> = req
    \<and> (\<forall>resp e. out = Ret (Some resp, e) \<longrightarrow> msg_ID resp = msg_ID req \<and> e = None)
    \<and> snd (doh_Exchange L cl c (req\<lparr>msg_ID := i\<rparr>) s) = s'"
proof (intro conjI)
  show "req'\<lparr>msg_Data := msg_Data req\<rparr> = req" using doh.keeps [OF assms] by blast
  show "\<forall>resp e. out = Ret (Some resp, e) \<longrightarrow> msg_ID resp = msg_ID req \<and> e = None"
    using assms
    by (auto simp: doh_Exchange_def doh_decode_def Let_def split: sum.splits option.splits prod.splits if_splits)
  show "snd (doh_Exchange L cl c (req\<lparr>msg_ID := i\<rparr>) s) = s'"
    using assms doh_Exchange_state [of L cl c req s] doh_Exchange_state [of L cl c "req\<lparr>msg_ID := i\<rparr>" s]
    by simp
qed

definition sample_lib :: "unit lib" where
  "sample_lib =
     \<lparr>lb_Exchange = (\<lambda>c req nw addr t e. (((Some (new_Msg\<lparr>msg_ID := msg_ID req,
          msg_Truncated := (nw = ''udp'')\<rparr>), None), None), e)),
      lb_Pack = (\<lambda>m. Inr ''q''), lb_NewRequest = (\<lambda>u. None),
      lb_Do = (\<lambda>cl c p e. ((Inr \<lparr>hr_StatusCode = 200, hr_ContentType = dohContentType, hr_Age = [],
          hr_Body = ''r'', hr_ReadErr = None\<rparr>, [True]), e)),
      lb_ParseMediaType = (\<lambda>v. Inr v),
      lb_Response = (\<lambda>hr. case hr_ReadErr hr of Some e \<Rightarrow> Inl e | None \<Rightarrow> Inr new_Msg),
      lb_ParseURL = (\<lambda>u. Inr \<lparr>url_Scheme = ''https'', url_Host = ''h'', url_Hostname = ''h'', url_Port = []\<rparr>),
      lb_ConfigureHTTP2 = (\<lambda>u. None)\<rparr>"

definition sample_client :: DoHClient where
  "sample_client = \<lparr>dc_url = ''u'', dc_ServerName = ''h'', dc_port = ''443'', dc_dialAddrs = [''192.0.2.1''],
     dc_Timeout = time_Second\<rparr>"

theorem doh_id_restored_witness:
  "\<exists>resp req' s'. doh_Exchange sample_lib sample_client Background (new_Msg\<lparr>msg_ID := 7\<rparr>)
       (init_st int 1 (NewMatcher []) ()) = ((Ret (Some resp, None), req'), s')
     \<and> msg_ID resp = 7 \<and> msg_ID req' = 7 \<and> msg_Data req' = Some ''q''"
proof -
  let ?s = "init_st int 1 (NewMatcher []) ()"
  obtain resp req' s' where
    x: "doh_Exchange sample_lib sample_client Background (new_Msg\<lparr>msg_ID := 7\<rparr>) ?s = ((Ret (Some resp, None), req'), s')"
    and "msg_Data req' = Some ''q''" "msg_ID req' = 7"
    by (simp add: doh_Exchange_def Let_def sample_lib_def doh_decode_def limit_body_def go_quot_def EqualFold_def)
  then show ?thesis using doh_id_restored [OF x, of 0] by (auto simp: new_Msg_def)
qed

text \<open>The UDP client asks once over UDP and, exactly when that answer is truncated, once more
  over TCP, whose answer is then final even if truncated; an error of either attempt is the
  client's error.\<close>

theorem udp_tcp_retry:
  assumes "lb_Exchange L c req ''udp'' addr t (st_net s) = (((Some resp, None), d), n)"
  shows "udp_Exchange L addr t c req s =
    (if \<not> msg_Truncated resp then ((Ret (Some resp, None), req\<lparr>msg_Data := d\<rparr>), s\<lparr>st_net := n\<rparr>)
     else case lb_Exchange L c (req\<lparr>msg_Data := d\<rparr>) ''tcp'' addr t n of
         (((r2, e2), d2), n2) \<Rightarrow>
           ((Ret (case e2 of None \<Rightarrow> (r2, None) | Some e \<Rightarrow> (None, Some (ErrWrap (''tcp retry '' @ addr) e))),
             req\<lparr>msg_Data := d2\<rparr>), s\<lparr>st_net := n2\<rparr>))"
  using assms by (auto simp: udp_Exchange_def client_Exchange_def split: prod.splits option.splits)

theorem udp_tcp_retry_witness:
  "\<exists>r. fst (fst (udp_Exchange sample_lib ''a:53'' 1 Background new_Msg (init_st int 1 (NewMatcher []) ())))
      = Ret (Some r, None) \<and> \<not> msg_Truncated r"
  using udp_tcp_retry [of sample_lib Background new_Msg "''a:53''" 1 "init_st int 1 (NewMatcher []) ()"
      "new_Msg\<lparr>msg_ID := 0, msg_Truncated := True\<rparr>" None "()"]
  by (simp add: sample_lib_def new_Msg_def)

end
