(* ===== verification/Stages.thy ===== *)
theory Stages
  imports Cache_Stage Upstream
begin

text \<open>
  The other stages of the resolver chain: \<open>forward\<close>, \<open>coalesce\<close>, \<open>blockstage\<close>,
  \<open>qlog\<close> and \<open>metricstage\<close> (all under \<open>internal/resolver\<close>). The coalescing group
  (\<open>golang.org/x/sync/singleflight\<close>) and the table of type names (\<open>dns.TypeToString\<close>)
  are parameters.
\<close>

section \<open>Forward\<close>

text \<open>No later stage reads the request's buffer, so the request as the exchange leaves it is
  dropped here.\<close>

definition forward_Resolve :: "'e exchange \<Rightarrow> 'e resolver" where
  "forward_Resolve exch c req s = (case exch c req s of ((out, _), s') \<Rightarrow> (out, s'))"

section \<open>Coalesce\<close>

text \<open>\<open>Group.Do(key, fn)\<close> returns the value and error of \<open>fn\<close> with the \<open>shared\<close>
  flag, or panics.\<close>

type_synonym 'e sf_Do = "string \<Rightarrow> ('e st \<Rightarrow> result go \<times> 'e st) \<Rightarrow> 'e st \<Rightarrow> (result \<times> bool) go \<times> 'e st"

definition coalesce_Resolve :: "'e sf_Do \<Rightarrow> bool \<Rightarrow> 'e resolver \<Rightarrow> 'e resolver" where
  "coalesce_Resolve Do m next c req s =
     (case msg_Question req of
        [q] \<Rightarrow>
          (case Do (Key q) (next c req) s of
             (Panic p, s') \<Rightarrow> (Panic p, s')
           | (Ret ((v, err), shared), s') \<Rightarrow>
               (let s'' = (if shared \<and> m
                           then upd_metrics (\<lambda>x. x\<lparr>CoalescedQueriesTotal := Suc (CoalescedQueriesTotal x)\<rparr>) s'
                           else s') in
                case err of
                  Some e \<Rightarrow> (Ret (None, Some e), s'')
                | None \<Rightarrow>
                    (case v of
                       None \<Rightarrow> (Panic ''nil pointer dereference'', s'')
                     | Some r \<Rightarrow> (Ret (Some ((CloneMsg r)\<lparr>msg_ID := msg_ID req\<rparr>), None), s''))))
      | _ \<Rightarrow> next c req s)"

text \<open>
  The documented behaviour of the group: a call either executes the function itself, or waits for
  the call in flight with the same key and receives its results; a waiting call always sees
  \<open>shared\<close>. The execution of the other call is that of another query for the same key.
\<close>

fun with_shared :: "bool \<Rightarrow> result go \<times> 'e st \<Rightarrow> (result \<times> bool) go \<times> 'e st" where
  "with_shared sh (Ret r, s) = (Ret (r, sh), s)"
| "with_shared sh (Panic p, s) = (Panic p, s)"

definition singleflight :: "'e sf_Do \<Rightarrow> 'e resolver \<Rightarrow> bool" where
  "singleflight Do next \<longleftrightarrow>
     (\<forall>c req q s. msg_Question req = [q] \<longrightarrow>
        (\<exists>sh. Do (Key q) (next c req) s = with_shared sh (next c req s))
        \<or> (\<exists>c' req' q' s0 out s1. msg_Question req' = [q'] \<and> Key q' = Key q
             \<and> next c' req' s0 = (out, s1)
             \<and> Do (Key q) (next c req) s = with_shared True (out, s)))"

text \<open>The group when no other call is in flight.\<close>

definition Do_alone :: "'e sf_Do" where
  "Do_alone key fn s = with_shared False (fn s)"

lemma singleflight_alone: "singleflight Do_alone next"
  by (auto simp: singleflight_def Do_alone_def)

section \<open>Block\<close>

definition nxdomain :: "msg \<Rightarrow> msg" where
  "nxdomain req =
     new_Msg\<lparr>msg_Response := True, msg_ID := msg_ID req, msg_Question := msg_Question req,
       msg_Rcode := RcodeNameError\<rparr>"

definition block_Resolve :: "'e resolver \<Rightarrow> 'e resolver" where
  "block_Resolve next c req s =
     (case msg_Question req of
        [q] \<Rightarrow>
          (case Current (st_holder s) of
             None \<Rightarrow> next c req s
           | Some m \<Rightarrow>
               if \<not> Match m (rr_Name q) then next c req s
               else (Ret (Some (nxdomain req), None), MarkBlocked c s))
      | _ \<Rightarrow> next c req s)"

section \<open>Query log\<close>

definition qlog_attrs :: "(u16 \<Rightarrow> string) \<Rightarrow> ctx \<Rightarrow> msg \<Rightarrow> msg option \<Rightarrow> goerror option \<Rightarrow> int \<Rightarrow> 'e st
    \<Rightarrow> attr list" where
  "qlog_attrs TypeToString c req resp err elapsed s =
     (let (qname, qtype) =
        (case msg_Question req of
           [] \<Rightarrow> ([], [])
         | q0 # _ \<Rightarrow> (rr_Name q0, TypeToString (RRToType q0))) in
      [AttrString ''qname'' qname, AttrString ''qtype'' qtype,
       AttrString ''outcome'' (Outcome c s resp err),
       AttrMicros ''duration_ms'' (go_quot elapsed 1000)]
      @ (case ClientInfoFrom c of
           None \<Rightarrow> []
         | Some info \<Rightarrow>
             if ci_Addr info = [] then []
             else AttrString ''client'' (ci_Addr info)
               # (if ci_Proto info = [] then [] else [AttrString ''proto'' (ci_Proto info)]))
      @ (case UpstreamInfoFrom c s of
           None \<Rightarrow> []
         | Some info \<Rightarrow>
             [AttrString ''upstream'' (ui_Name info),
              AttrString ''upstream_protocol'' (ui_Protocol info)]))"

definition qlog_Resolve :: "(u16 \<Rightarrow> string) \<Rightarrow> 'e resolver \<Rightarrow> 'e resolver" where
  "qlog_Resolve TypeToString next c req s =
     (case time_Now s of
        (start, s1) \<Rightarrow>
          (case next c req s1 of
             (Panic p, s2) \<Rightarrow> (Panic p, s2)
           | (Ret (resp, err), s2) \<Rightarrow>
               (case time_Now s2 of
                  (t, s3) \<Rightarrow>
                    (Ret (resp, err),
                     s3\<lparr>st_qlog := st_qlog s3 @
                         [qlog_attrs TypeToString c req resp err (time_Sub t start) s3]\<rparr>))))"

definition qlog_New :: "bool \<Rightarrow> (u16 \<Rightarrow> string) \<Rightarrow> 'e resolver \<Rightarrow> 'e resolver" where
  "qlog_New enabled TypeToString next =
     (if \<not> enabled then next else qlog_Resolve TypeToString next)"

section \<open>Metrics and recovery\<close>

definition query_label :: "(u16 \<Rightarrow> string) \<Rightarrow> msg \<Rightarrow> string" where
  "query_label TypeToString req =
     (case msg_Question req of
        [] \<Rightarrow> ''other''
      | q0 # _ \<Rightarrow> NormalizeQType (TypeToString (RRToType q0)))"

definition count_query :: "string \<Rightarrow> string \<Rightarrow> int \<Rightarrow> metrics \<Rightarrow> metrics" where
  "count_query outcome qtype elapsed m =
     m\<lparr>QueriesTotal := vec_Inc (QueriesTotal m) [outcome, qtype],
       QueryDurationSeconds := vec_Observe (QueryDurationSeconds m) [outcome] elapsed\<rparr>"

text \<open>The deferred function: a recovered panic becomes an error, then the query is counted. With
  a nil bundle the deferred function itself panics.\<close>

definition metric_defer :: "bool \<Rightarrow> (u16 \<Rightarrow> string) \<Rightarrow> ctx \<Rightarrow> msg \<Rightarrow> int \<Rightarrow> result go \<Rightarrow> 'e st
    \<Rightarrow> result go \<times> 'e st" where
  "metric_defer m TypeToString c req start out s =
     (if \<not> m then (Panic ''nil pointer dereference'', s)
      else
        let (resp, err, s1) =
          (case out of
             Ret (resp, err) \<Rightarrow> (resp, err, s)
           | Panic p \<Rightarrow> (None, Some (ErrNew (''panic: '' @ p)),
               upd_metrics (\<lambda>x. x\<lparr>PanicsTotal := Suc (PanicsTotal x)\<rparr>) s));
            outcome = Outcome c s1 resp err
        in case time_Now s1 of
             (t, s2) \<Rightarrow>
               (Ret (resp, err),
                upd_metrics (count_query outcome (query_label TypeToString req) (time_Sub t start)) s2))"

definition metric_Resolve :: "bool \<Rightarrow> (u16 \<Rightarrow> string) \<Rightarrow> 'e resolver \<Rightarrow> 'e resolver" where
  "metric_Resolve m TypeToString next c req s =
     (case time_Now s of
        (start, s1) \<Rightarrow>
          (case WithBlockMarker c s1 of
             (c1, s2) \<Rightarrow>
               (case WithUpstreamMarker c1 s2 of
                  (c2, s3) \<Rightarrow>
                    (case next c2 req s3 of
                       (out, s4) \<Rightarrow> metric_defer m TypeToString c2 req start out s4))))"

section \<open>The stages keep the contract\<close>

lemma forward_contract: "upstream_contract exch \<Longrightarrow> contract False (forward_Resolve exch)"
  using upstream_contract.as_resolver [of exch] by (simp add: forward_Resolve_def [abs_def])

lemma coalesce_one:
  assumes "msg_Question req = [q]"
    and "Do (Key q) (nxt c req) s = with_shared sh (Ret (v, err), s')"
  obtains s'' where "frame b c s' s''" and
    "coalesce_Resolve Do m nxt c req s =
      (case err of
         Some e \<Rightarrow> (Ret (None, Some e), s'')
       | None \<Rightarrow>
           (case v of
              None \<Rightarrow> (Panic ''nil pointer dereference'', s'')
            | Some r \<Rightarrow> (Ret (Some ((CloneMsg r)\<lparr>msg_ID := msg_ID req\<rparr>), None), s'')))"
    and "st_net s'' = st_net s'" "st_lru s'' = st_lru s'"
    and "st_metrics s'' = (if sh \<and> m then (st_metrics s')\<lparr>CoalescedQueriesTotal :=
        Suc (CoalescedQueriesTotal (st_metrics s'))\<rparr> else st_metrics s')"
proof -
  let ?f = "\<lambda>x. x\<lparr>CoalescedQueriesTotal := Suc (CoalescedQueriesTotal x)\<rparr>"
  have "frame b c s' (upd_metrics ?f s')" by (rule frame_metrics) (simp add: quiet_def)
  then show thesis
    using assms that [of "if sh \<and> m then upd_metrics ?f s' else s'"]
    by (auto simp: coalesce_Resolve_def Let_def)
qed

lemma coalesce_panic:
  assumes "msg_Question req = [q]"
    and "Do (Key q) (next c req) s = with_shared sh (Panic p, s')"
  shows "coalesce_Resolve Do m next c req s = (Panic p, s')"
  using assms by (simp add: coalesce_Resolve_def)

lemma coalesce_contract:
  assumes sf: "singleflight Do next" and n: "contract b next"
  shows "contract b (coalesce_Resolve Do m next)"
proof (rule contractI)
  fix c req s out s'
  assume r: "coalesce_Resolve Do m next c req s = (out, s')"
  show "frame b c s s' \<and> exclusive out"
  proof (cases "\<exists>q. msg_Question req = [q]")
    case False
    then have "next c req s = (out, s')"
      using r by (auto simp: coalesce_Resolve_def split: list.splits)
    then show ?thesis using contractD [OF n] by blast
  next
    case True
    then obtain q where q: "msg_Question req = [q]" ..
    obtain sh o1 s1 where d: "Do (Key q) (next c req) s = with_shared sh (o1, s1)" and f: "frame b c s s1"
      using sf q n unfolding singleflight_def by (metis contractD(1) frame_refl surj_pair)
    show ?thesis
    proof (cases o1)
      case (Panic p)
      then show ?thesis using r f d by (auto simp: coalesce_panic [OF q])
    next
      case (Ret x)
      obtain v err where x: "x = (v, err)" by fastforce
      obtain s'' where "frame b c s1 s''" and "coalesce_Resolve Do m next c req s =
          (case err of Some e \<Rightarrow> (Ret (None, Some e), s'')
           | None \<Rightarrow> (case v of None \<Rightarrow> (Panic ''nil pointer dereference'', s'')
              | Some r \<Rightarrow> (Ret (Some ((CloneMsg r)\<lparr>msg_ID := msg_ID req\<rparr>), None), s'')))"
        using coalesce_one [where Do = Do and nxt = "next" and c = c and req = req and s = s and b = b and m = m,
          OF q d [unfolded Ret x]] by blast
      then show ?thesis
        using r frame_trans [OF f] by (auto split: option.splits)
    qed
  qed
qed

lemma coalesce_stamps: "stamps (coalesce_Resolve Do m next)"
  by (auto simp: stamps_def coalesce_Resolve_def Let_def CloneMsg_def length_Suc_conv
      split: prod.splits go.splits option.splits)

lemma block_contract: "contract True next \<Longrightarrow> contract True (block_Resolve next)"
  by (rule contractI)
    (auto simp: block_Resolve_def split: list.splits option.splits if_splits dest: contractD)

lemma nxdomain_sel [simp]:
  "msg_ID (nxdomain req) = msg_ID req" "msg_Data (nxdomain req) = None"
  "msg_Rcode (nxdomain req) = RcodeNameError" "msg_Question (nxdomain req) = msg_Question req"
  "msg_Response (nxdomain req)"
  by (simp_all add: nxdomain_def new_Msg_def)

lemma block_stamps: "stamps next \<Longrightarrow> stamps (block_Resolve next)"
  by (auto simp: stamps_def block_Resolve_def split: list.splits option.splits if_splits)

lemma qlog_contract: "contract True next \<Longrightarrow> contract True (qlog_Resolve T next)"
proof (rule contractI)
  fix c req s out s'
  assume n: "contract True next" and r: "qlog_Resolve T next c req s = (out, s')"
  obtain s2 where nx: "next c req (ticked s) = (out, s2)"
    and s': "s' = s2 \<or> (\<exists>a. s' = (ticked s2)\<lparr>st_qlog := st_qlog s2 @ [a]\<rparr>)"
    using r by (auto simp: qlog_Resolve_def time_Now_def split: prod.splits go.splits)
  have "frame True c s s2"
    using frame_trans [OF frame_time_Now [of True c s]] contractD(1) [OF n nx]
    by (simp add: time_Now_def)
  moreover have "frame True c s2 s'" using s' by (auto simp: frame_def)
  ultimately show "frame True c s s' \<and> exclusive out"
    using frame_trans contractD(2) [OF n nx] by blast
qed

lemma qlog_stamps: "stamps next \<Longrightarrow> stamps (qlog_Resolve T next)"
  unfolding stamps_def
  by (auto simp: qlog_Resolve_def time_Now_def split: prod.splits go.splits) metis+

interpretation coal: chain_stage "coalesce_Resolve Do m" b "singleflight Do" for Do m b
  by unfold_locales (simp_all add: coalesce_contract coalesce_stamps)

interpretation blk: chain_stage block_Resolve True "\<lambda>_. True"
  by unfold_locales (simp_all add: block_contract block_stamps)

interpretation ql: chain_stage "qlog_New enabled T" True "\<lambda>_. True" for enabled T
  by unfold_locales (simp_all add: qlog_New_def qlog_contract qlog_stamps)

section \<open>What the outermost stage does\<close>

text \<open>The context and state with which the metrics stage calls the next one.\<close>

definition marked_ctx :: "ctx \<Rightarrow> 'e st \<Rightarrow> ctx" where
  "marked_ctx c s = c\<lparr>cx_block := Some (st_cells s), cx_up := Some (Suc (st_cells s))\<rparr>"

definition marked_st :: "'e st \<Rightarrow> 'e st" where
  "marked_st s = s\<lparr>st_tick := Suc (st_tick s), st_block := (st_block s)(st_cells s := False),
     st_cells := Suc (Suc (st_cells s)),
     st_upinfo := (st_upinfo s)(Suc (st_cells s) := zero_UpstreamInfo)\<rparr>"

lemma metric_Resolve_eq:
  "metric_Resolve m T next c req s =
     (case next (marked_ctx c s) req (marked_st s) of
        (out, s') \<Rightarrow> metric_defer m T (marked_ctx c s) req (now s) out s')"
  by (simp add: metric_Resolve_def time_Now_def WithBlockMarker_def WithUpstreamMarker_def Let_def
      marked_ctx_def marked_st_def)

lemma marked_st_sel [simp]:
  "st_lru (marked_st s) = st_lru s" "st_holder (marked_st s) = st_holder s"
  "st_metrics (marked_st s) = st_metrics s" "st_net (marked_st s) = st_net s"
  "st_qlog (marked_st s) = st_qlog s" "st_clock (marked_st s) = st_clock s"
  "\<not> block_flag (marked_ctx c s) (marked_st s)"
  by (simp_all add: marked_st_def block_flag_def marked_ctx_def)

text \<open>The result and the label of the query.\<close>

definition recovered :: "result go \<Rightarrow> result" where
  "recovered out = (case out of Ret r \<Rightarrow> r | Panic p \<Rightarrow> (None, Some (ErrNew (''panic: '' @ p))))"

definition is_panic :: "result go \<Rightarrow> bool" where
  "is_panic out = (case out of Ret r \<Rightarrow> False | Panic p \<Rightarrow> True)"

lemma block_flag_metrics [simp]: "block_flag c (upd_metrics f s) = block_flag c s"
  by (simp add: block_flag_def split: option.splits)

lemma Outcome_metrics [simp]: "Outcome c (upd_metrics f s) = Outcome c s"
  by (intro ext) (simp add: Outcome_def split: option.splits)

lemma metric_defer_eq:
  "metric_defer True T c req start out s =
     (Ret (recovered out),
      upd_metrics (count_query (case recovered out of (r, e) \<Rightarrow> Outcome c s r e) (query_label T req)
          (time_Sub (now s) start))
        (ticked (upd_metrics (\<lambda>x. if is_panic out then x\<lparr>PanicsTotal := Suc (PanicsTotal x)\<rparr> else x) s)))"
  by (cases out)
    (auto simp: metric_defer_def recovered_def is_panic_def time_Now_def upd_metrics_def
      Outcome_metrics [unfolded upd_metrics_def] split: prod.splits)

end
