(* ===== verification/Chain.thy ===== *)
theory Chain
  imports Stages
begin

text \<open>
  The assembled chain (\<open>internal/resolver/chain/chain.go\<close>) under the handler: metrics, query
  log, blocklist, cache, coalescing, forwarding. The cache and the blocklist holder are components
  of the state; \<open>d_Metrics\<close> tells whether the bundle is not nil.
\<close>

section \<open>Build\<close>

record 'e deps =
  d_Upstream :: "'e upstream"
  d_CacheCfg :: CacheCfg
  d_QueryLog :: bool
  d_Metrics :: bool
  d_TypeToString :: "u16 \<Rightarrow> string"
  d_Do :: "'e sf_Do"

definition Build :: "'e deps \<Rightarrow> 'e resolver" where
  "Build d =
     (let r = forward_Resolve (u_Exchange (d_Upstream d));
          r = coalesce_Resolve (d_Do d) (d_Metrics d) r;
          r = cache_Resolve (d_CacheCfg d) (d_Metrics d) r;
          r = block_Resolve r;
          r = qlog_New (d_QueryLog d) (d_TypeToString d) r
      in metric_Resolve (d_Metrics d) (d_TypeToString d) r)"

text \<open>The handler over a sequence of requests.\<close>

fun serve_all :: "'e resolver \<Rightarrow> (ctx \<times> ResponseWriter \<times> msg) list \<Rightarrow> 'e st \<Rightarrow> msg go list \<times> 'e st" where
  "serve_all r [] s = ([], s)"
| "serve_all r ((c, w, req) # xs) s =
     (case ServeDNS r c w req s of
        (m, s') \<Rightarrow> (case serve_all r xs s' of (ms, s'') \<Rightarrow> (m # ms, s'')))"

section \<open>What the parts promise\<close>

definition behind_block :: "'e deps \<Rightarrow> 'e resolver" where
  "behind_block d =
     cache_Resolve (d_CacheCfg d) (d_Metrics d)
       (coalesce_Resolve (d_Do d) (d_Metrics d) (forward_Resolve (u_Exchange (d_Upstream d))))"

definition behind_metrics :: "'e deps \<Rightarrow> 'e resolver" where
  "behind_metrics d = qlog_New (d_QueryLog d) (d_TypeToString d) (block_Resolve (behind_block d))"

lemma Build_eq: "Build d = metric_Resolve (d_Metrics d) (d_TypeToString d) (behind_metrics d)"
  by (simp add: Build_def behind_metrics_def behind_block_def Let_def)

text \<open>The hypotheses on the parts outside: a metrics bundle, an upstream that keeps its contract,
  a coalescing group that behaves as documented.\<close>

definition deps_ok :: "'e deps \<Rightarrow> bool" where
  "deps_ok d \<longleftrightarrow> d_Metrics d \<and> upstream_contract (u_Exchange (d_Upstream d))
     \<and> singleflight (d_Do d) (forward_Resolve (u_Exchange (d_Upstream d)))"

lemma behind_block_contract: "deps_ok d \<Longrightarrow> contract False (behind_block d)"
  unfolding behind_block_def deps_ok_def
  by (intro cst.keeps_contract coal.keeps_contract forward_contract) simp_all

lemma behind_metrics_contract: "deps_ok d \<Longrightarrow> contract True (behind_metrics d)"
  unfolding behind_metrics_def
  by (intro ql.keeps_contract blk.keeps_contract contract_front behind_block_contract) simp_all

lemma behind_metrics_stamps: "stamps (behind_metrics d)"
  unfolding behind_metrics_def behind_block_def
  by (intro ql.keeps_stamps blk.keeps_stamps cst.keeps_stamps coalesce_stamps)

text \<open>One query through the chain.\<close>

lemma Build_step:
  assumes ok: "deps_ok d" and b: "behind_metrics d (marked_ctx c s) req (marked_st s) = (out, s4)"
  shows "Build d c req s =
    (Ret (recovered out),
     upd_metrics (count_query (case recovered out of (r, e) \<Rightarrow> Outcome (marked_ctx c s) s4 r e)
         (query_label (d_TypeToString d) req) (time_Sub (now s4) (now s)))
       (ticked (upd_metrics (\<lambda>x. if is_panic out then x\<lparr>PanicsTotal := Suc (PanicsTotal x)\<rparr> else x) s4)))"
  using ok b by (simp add: Build_eq metric_Resolve_eq deps_ok_def metric_defer_eq)

lemma Build_returns:
  assumes "deps_ok d"
  obtains r e s' where "Build d c req s = (Ret (r, e), s')"
proof -
  obtain o1 s4 where b: "behind_metrics d (marked_ctx c s) req (marked_st s) = (o1, s4)" by fastforce
  obtain r e where "recovered o1 = (r, e)" by fastforce
  with that Build_step [OF assms b] show thesis by simp
qed

lemma recovered_exclusive: "exclusive out \<Longrightarrow> recovered out = (Some m, e) \<Longrightarrow> e = None"
  by (cases out) (auto simp: recovered_def exclusive_def split: option.splits)

lemma Build_frame:
  assumes ok: "deps_ok d" and r: "Build d c req s = (out, s')"
  shows "lru_inv (st_lru s) \<Longrightarrow> lru_inv (st_lru s')"
    and "l_capacity (st_lru s') = l_capacity (st_lru s)" and "st_holder s' = st_holder s"
proof -
  obtain o1 s4 where b: "behind_metrics d (marked_ctx c s) req (marked_st s) = (o1, s4)" by fastforce
  have "frame True (marked_ctx c s) (marked_st s) s4"
    by (rule contractD(1) [OF behind_metrics_contract [OF ok] b])
  moreover have "st_lru s' = st_lru s4" "st_holder s' = st_holder s4"
    using r by (auto simp: Build_step [OF ok b])
  ultimately show "lru_inv (st_lru s) \<Longrightarrow> lru_inv (st_lru s')"
    "l_capacity (st_lru s') = l_capacity (st_lru s)" "st_holder s' = st_holder s"
    by (simp_all add: frame_def)
qed

text \<open>The label under which a query is counted.\<close>

definition label_of :: "'e deps \<Rightarrow> ctx \<Rightarrow> msg \<Rightarrow> 'e st \<Rightarrow> string list" where
  "label_of d c req s =
     (case behind_metrics d (marked_ctx c s) req (marked_st s) of
        (out, s4) \<Rightarrow>
          [case recovered out of (r, e) \<Rightarrow> Outcome (marked_ctx c s) s4 r e,
           query_label (d_TypeToString d) req])"

definition all_labels :: "string list set" where
  "all_labels = {[x, y] | x y. x \<in> set all_outcomes \<and> y \<in> set (''other'' # known_qtypes)}"

lemma label_of_bounded: "label_of d c req s \<in> all_labels"
proof -
  have "query_label T req \<in> set (''other'' # known_qtypes)" for T
    using NormalizeQType_bounded by (simp add: query_label_def split: list.splits)
  then show ?thesis
    by (auto simp: label_of_def all_labels_def Outcome_known simp del: set_simps split: prod.splits)
qed

lemma Build_counts:
  assumes ok: "deps_ok d" and r: "Build d c req s = (out, s')"
  shows "count_of (QueriesTotal (st_metrics s')) k =
    count_of (QueriesTotal (st_metrics s)) k + (if k = label_of d c req s then 1 else 0)"
proof -
  obtain o1 s4 where b: "behind_metrics d (marked_ctx c s) req (marked_st s) = (o1, s4)" by fastforce
  have "quiet (st_metrics s) (st_metrics s4)"
    using contractD(1) [OF behind_metrics_contract [OF ok] b] by (simp add: frame_def)
  then show ?thesis
    using r by (auto simp: Build_step [OF ok b] count_query_def count_of_Inc label_of_def b quiet_def)
qed

lemma Build_blocked:
  assumes ok: "deps_ok d" and q: "msg_Question req = [q]"
    and m: "Current (st_holder s) = Some bl" "Match bl (rr_Name q)"
  shows "behind_metrics d (marked_ctx c s) req (marked_st s)
    = (Ret (Some (nxdomain req), None), snd (behind_metrics d (marked_ctx c s) req (marked_st s)))"
    and "st_lru (snd (behind_metrics d (marked_ctx c s) req (marked_st s))) = st_lru s"
    and "st_net (snd (behind_metrics d (marked_ctx c s) req (marked_st s))) = st_net s"
    and "block_flag (marked_ctx c s) (snd (behind_metrics d (marked_ctx c s) req (marked_st s)))"
  using q m
  by (simp_all add: behind_metrics_def qlog_New_def qlog_Resolve_def time_Now_def block_Resolve_def
      MarkBlocked_def marked_ctx_def block_flag_def)

text \<open>Behind the block stage the marker is never set.\<close>

lemma unblocked_flag:
  assumes ok: "deps_ok d"
    and nb: "\<forall>q bl. msg_Question req = [q] \<longrightarrow> Current (st_holder s) = Some bl \<longrightarrow> \<not> Match bl (rr_Name q)"
    and b: "behind_metrics d (marked_ctx c s) req (marked_st s) = (out, s4)"
  shows "\<not> block_flag (marked_ctx c s) s4"
proof -
  let ?c = "marked_ctx c s"
  have blk: "block_Resolve (behind_block d) ?c req s0 = behind_block d ?c req s0"
    if "st_holder s0 = st_holder s" for s0
    using nb that by (auto simp: block_Resolve_def split: list.splits option.splits)
  have "\<exists>s0 s2 o2. behind_block d ?c req s0 = (o2, s2) \<and> st_block s0 = st_block (marked_st s)
      \<and> st_block s4 = st_block s2"
    using b blk [of "marked_st s"] blk [of "ticked (marked_st s)"]
    by (cases "d_QueryLog d")
      (fastforce simp: behind_metrics_def qlog_New_def qlog_Resolve_def time_Now_def
        split: prod.splits go.splits)+
  then obtain s0 s2 o2 where n: "behind_block d ?c req s0 = (o2, s2)"
    and e: "st_block s0 = st_block (marked_st s)" "st_block s4 = st_block s2" by blast
  have "st_block s2 = st_block s0"
    using contractD(1) [OF behind_block_contract [OF ok] n] by (auto simp: frame_def)
  then show ?thesis
    using e marked_st_sel(7) [of c s] by (simp add: block_flag_def split: option.splits)
qed

lemma Build_blocked_counted:
  assumes "deps_ok d" and "msg_Question req = [q]"
    and "Current (st_holder s) = Some bl" and "Match bl (rr_Name q)"
  shows "\<exists>s'. Build d c req s = (Ret (Some (nxdomain req), None), s')
    \<and> st_net s' = st_net s \<and> st_lru s' = st_lru s
    \<and> (\<forall>k. count_of (QueriesTotal (st_metrics s')) k = count_of (QueriesTotal (st_metrics s)) k
          + (if k = [''blocked'', query_label (d_TypeToString d) req] then 1 else 0))"
proof -
  let ?b = "behind_metrics d (marked_ctx c s) req (marked_st s)"
  note bb = Build_blocked [OF assms, of c]
  note st = Build_step [OF assms(1) bb(1)]
  have lab: "label_of d c req s = [''blocked'', query_label (d_TypeToString d) req]"
    using bb(1,4) by (auto simp: label_of_def recovered_def Outcome_def split: prod.splits)
  obtain s' where s': "Build d c req s = (Ret (Some (nxdomain req), None), s')"
    and "st_net s' = st_net s" "st_lru s' = st_lru s"
    using st bb(2,3) by (simp add: recovered_def)
  then show ?thesis using Build_counts [OF assms(1) s'] lab by simp
qed

section \<open>Sample dependencies\<close>

definition sample_deps :: "unit deps" where
  "sample_deps = \<lparr>d_Upstream = NewPool True [NewUDPClient sample_lib ''192.0.2.53:53'' time_Second],
     d_CacheCfg = sample_cfg, d_QueryLog = False, d_Metrics = True,
     d_TypeToString = (\<lambda>t. if t = 1 then ''A'' else []), d_Do = Do_alone\<rparr>"

lemma sample_deps_ok: "deps_ok sample_deps"
proof -
  have "upstream_contract (u_Exchange (NewUDPClient sample_lib ''192.0.2.53:53'' time_Second))"
    using udp.upstream_contract_axioms by (simp add: NewUDPClient_def)
  then have "upstream_contract (pool_Exchange True [NewUDPClient sample_lib ''192.0.2.53:53'' time_Second])"
    by (intro pool_keeps) simp
  then show ?thesis
    by (simp add: deps_ok_def sample_deps_def NewPool_def singleflight_alone)
qed

lemma sample_q: "msg_Question sample_req = [sample_rr]"
  by (simp add: sample_req_def)

lemma sample_holder: "Current (st_holder (init_st clk cap bl e)) = Some bl"
  by (simp add: init_st_def)

lemma init_count [simp]: "count_of (QueriesTotal (st_metrics (init_st clk cap bl e))) k = 0"
  by (simp add: init_st_def metrics_New_def count_of_def)

lemma sample_match: "Match (NewMatcher [''example'']) (rr_Name sample_rr)"
proof -
  have "canonicalise ''example'' = ''example''" "canonicalise ''a.example.'' = ''a.example''"
    by (simp_all add: canonicalise_graphic graphic_def TrimSuffix_def char_eval suffix_def Cons_eq_append_conv)
  then show ?thesis by (simp add: mt.matches_iff sample_rr_def covers_def suffix_def)
qed

lemma sample_label: "query_label (d_TypeToString sample_deps) sample_req = ''A''"
  by (simp add: query_label_def sample_deps_def sample_req_def sample_rr_def RRToType_def TypeA_def
      NormalizeQType_def known_qtypes_def)

section \<open>Runs of the handler\<close>

lemma finite_all_labels: "finite all_labels"
proof -
  have "all_labels = (\<lambda>(x, y). [x, y]) ` (set all_outcomes \<times> set (''other'' # known_qtypes))"
    by (auto simp: all_labels_def)
  moreover have "finite \<dots>" by (intro finite_imageI finite_cartesian_product) simp_all
  ultimately show ?thesis by simp
qed

lemma ServeDNS_Build:
  assumes ok: "deps_ok d" and r: "ServeDNS (Build d) c w req s = (m, s')"
  shows "\<exists>x. m = Ret x" and "lru_inv (st_lru s) \<Longrightarrow> lru_inv (st_lru s')"
    and "l_capacity (st_lru s') = l_capacity (st_lru s)" and "st_holder s' = st_holder s"
    and "(\<Sum>l \<in> all_labels. count_of (QueriesTotal (st_metrics s')) l)
      = Suc (\<Sum>l \<in> all_labels. count_of (QueriesTotal (st_metrics s)) l)"
proof -
  let ?c = "withClientInfoFromWriter c w"
  obtain x e t where b0: "Build d ?c req s = (Ret (x, e), t)" by (rule Build_returns [OF ok])
  then have b: "Build d ?c req s = (Ret (x, e), s')" using r by (simp add: ServeDNS_def)
  show "\<exists>x. m = Ret x" using r b by (auto simp: ServeDNS_def)
  show "lru_inv (st_lru s) \<Longrightarrow> lru_inv (st_lru s')"
    "l_capacity (st_lru s') = l_capacity (st_lru s)" "st_holder s' = st_holder s"
    by (fact Build_frame [OF ok b])+
  show "(\<Sum>l \<in> all_labels. count_of (QueriesTotal (st_metrics s')) l)
      = Suc (\<Sum>l \<in> all_labels. count_of (QueriesTotal (st_metrics s)) l)"
    using label_of_bounded [of d ?c req s]
    by (simp add: Build_counts [OF ok b] sum.distrib finite_all_labels)
qed

lemma serve_all_keeps:
  assumes ok: "deps_ok d" and "serve_all (Build d) reqs s = (ms, s')"
  shows "length ms = length reqs \<and> (\<forall>m \<in> set ms. \<exists>x. m = Ret x)
    \<and> (lru_inv (st_lru s) \<longrightarrow> lru_inv (st_lru s')) \<and> l_capacity (st_lru s') = l_capacity (st_lru s)
    \<and> st_holder s' = st_holder s
    \<and> (\<Sum>l \<in> all_labels. count_of (QueriesTotal (st_metrics s')) l)
      = (\<Sum>l \<in> all_labels. count_of (QueriesTotal (st_metrics s)) l) + length reqs"
  using assms(2)
proof (induction reqs arbitrary: s ms)
  case (Cons x reqs)
  obtain c w req where x: "x = (c, w, req)" by (metis surj_pair)
  obtain m s1 where m: "ServeDNS (Build d) c w req s = (m, s1)" by fastforce
  obtain ms1 where r: "serve_all (Build d) reqs s1 = (ms1, s')" and ms: "ms = m # ms1"
    using Cons.prems m by (auto simp: x split: prod.splits)
  show ?case using Cons.IH [OF r] ServeDNS_Build [OF ok m] ms by auto
qed simp

section \<open>Properties\<close>

text \<open>C6: A query for a name covered by the active blocklist is answered NXDOMAIN with the caller's
  ID and question, without touching the cache or the network, and is counted as blocked.\<close>

theorem blocked_query_is_answered_locally:
  assumes "deps_ok d" and "msg_Question req = [q]"
    and "Current (st_holder s) = Some bl" and "Match bl (rr_Name q)"
  shows "\<exists>s'. Build d c req s = (Ret (Some (nxdomain req), None), s')
    \<and> st_net s' = st_net s \<and> st_lru s' = st_lru s
    \<and> (\<forall>k. count_of (QueriesTotal (st_metrics s')) k = count_of (QueriesTotal (st_metrics s)) k
          + (if k = [''blocked'', query_label (d_TypeToString d) req] then 1 else 0))"
  by (rule Build_blocked_counted [OF assms])

theorem blocked_query_is_answered_locally_witness:
  "\<exists>s'. Build sample_deps Background sample_req (init_st int 4 (NewMatcher [''example'']) ())
     = (Ret (Some (nxdomain sample_req), None), s')
     \<and> count_of (QueriesTotal (st_metrics s')) [''blocked'', ''A''] = 1"
  using blocked_query_is_answered_locally [OF sample_deps_ok sample_q sample_holder sample_match,
      of Background int 4] sample_label
  by force

text \<open>C23: The outcome \<open>blocked\<close> is recorded only for names the active blocklist covers: any other
  query leaves every \<open>blocked\<close> counter alone, even when an upstream answers NXDOMAIN.\<close>

theorem blocked_outcome_only_when_matched:
  assumes "deps_ok d" and "Build d c req s = (out, s')"
    and "count_of (QueriesTotal (st_metrics s')) [''blocked'', y]
       \<noteq> count_of (QueriesTotal (st_metrics s)) [''blocked'', y]"
  shows "\<exists>q bl. msg_Question req = [q] \<and> Current (st_holder s) = Some bl \<and> Match bl (rr_Name q)"
proof (rule ccontr)
  assume nb: "\<not> ?thesis"
  obtain o1 s4 where b: "behind_metrics d (marked_ctx c s) req (marked_st s) = (o1, s4)" by fastforce
  have "\<not> block_flag (marked_ctx c s) s4"
    by (rule unblocked_flag [OF assms(1) _ b]) (use nb in blast)
  then have "hd (label_of d c req s) \<noteq> ''blocked''"
    by (auto simp: label_of_def b Outcome_def split: prod.splits option.splits)
  then have "label_of d c req s \<noteq> [''blocked'', y]" by (metis list.sel(1))
  then show False using Build_counts [OF assms(1,2), of "[''blocked'', y]"] assms(3) by (simp add: eq_commute)
qed

theorem blocked_outcome_only_when_matched_witness:
  "\<exists>q bl. msg_Question sample_req = [q] \<and> Match bl (rr_Name q)
     \<and> Current (st_holder (init_st int 4 (NewMatcher [''example'']) ())) = Some bl"
proof -
  let ?s = "init_st int 4 (NewMatcher [''example'']) ()"
  from Build_blocked_counted [OF sample_deps_ok sample_q sample_holder sample_match, of Background]
  obtain s' where b: "Build sample_deps Background sample_req ?s = (Ret (Some (nxdomain sample_req), None), s')"
    and "count_of (QueriesTotal (st_metrics s')) [''blocked'', ''A'']
      = Suc (count_of (QueriesTotal (st_metrics ?s)) [''blocked'', ''A''])"
    using sample_label by fastforce
  then show ?thesis using blocked_outcome_only_when_matched [OF sample_deps_ok b, of "''A''"] by auto
qed

text \<open>Every query is counted exactly once, whatever happens to it (answered, blocked, failed,
  panicked): one series of the query counter grows by one and its labels are one of four outcomes
  and one of ten query types, so the number of series is bounded.\<close>

theorem every_query_counted_once:
  assumes "deps_ok d" and "Build d c req s = (out, s')"
  shows "\<exists>l \<in> all_labels. \<forall>k. count_of (QueriesTotal (st_metrics s')) k
    = count_of (QueriesTotal (st_metrics s)) k + (if k = l then 1 else 0)"
  using Build_counts [OF assms] label_of_bounded [of d c req s] by blast

theorem every_query_counted_once_witness:
  "\<exists>l \<in> all_labels. \<forall>k. count_of (QueriesTotal (st_metrics (snd (Build sample_deps Background
      sample_req (init_st int 4 (NewMatcher []) ()))))) k = (if k = l then 1 else 0)"
  using every_query_counted_once [OF sample_deps_ok, of Background sample_req
      "init_st int 4 (NewMatcher []) ()" "fst (Build sample_deps Background
      sample_req (init_st int 4 (NewMatcher []) ()))" "snd (Build sample_deps Background
      sample_req (init_st int 4 (NewMatcher []) ()))"]
  by simp

text \<open>C1: The handler always produces an answer. A panic anywhere behind the metrics stage is
  recovered, counted and turned into SERVFAIL; a query with one question is answered with its own
  ID, and the message handed to the writer has no packed buffer that could put another ID on the
  wire; a failed query is answered SERVFAIL with the query's question.\<close>

theorem handler_always_answers:
  assumes "deps_ok d"
  shows "\<exists>m s'. ServeDNS (Build d) c w req s = (Ret m, s')
    \<and> (length (msg_Question req) = 1 \<longrightarrow> msg_ID m = msg_ID req \<and> msg_Data m = None)
    \<and> (is_panic (fst (behind_metrics d (marked_ctx (withClientInfoFromWriter c w) s) req (marked_st s)))
        \<longrightarrow> m = servfail req \<and> PanicsTotal (st_metrics s') = Suc (PanicsTotal (st_metrics s)))"
proof -
  let ?c = "withClientInfoFromWriter c w"
  obtain o1 s4 where b: "behind_metrics d (marked_ctx ?c s) req (marked_st s) = (o1, s4)" by fastforce
  note ct = contractD [OF behind_metrics_contract [OF assms] b]
  obtain r e where re: "recovered o1 = (r, e)" by fastforce
  note st = Build_step [OF assms b, unfolded re]
  let ?m = "case (r, e) of (Some m, None) \<Rightarrow> m | _ \<Rightarrow> servfail req"
  obtain s' where s': "ServeDNS (Build d) c w req s = (Ret ?m, s')"
    and p: "PanicsTotal (st_metrics s') = (if is_panic o1 then Suc (PanicsTotal (st_metrics s4))
        else PanicsTotal (st_metrics s4))"
    by (simp add: ServeDNS_def st count_query_def)
  have "PanicsTotal (st_metrics s4) = PanicsTotal (st_metrics s)"
    using ct(1) by (simp add: frame_def quiet_def)
  moreover have "msg_ID ?m = msg_ID req \<and> msg_Data ?m = None" if "length (msg_Question req) = 1"
    using stampsD [OF behind_metrics_stamps _ that, of d] b re
    by (cases o1) (auto simp: recovered_def split: option.splits)
  moreover have "?m = servfail req" if "is_panic o1"
    using that re by (cases o1) (auto simp: is_panic_def recovered_def)
  ultimately show ?thesis using s' p b by auto
qed

definition panicking_deps :: "unit deps" where
  "panicking_deps = sample_deps\<lparr>d_Upstream := \<lparr>u_Exchange = (\<lambda>c req s. ((Panic ''x'', req), s)),
     u_Name = ''p'', u_Protocol = ''udp''\<rparr>\<rparr>"

theorem handler_always_answers_witness:
  "\<exists>s'. ServeDNS (Build panicking_deps) Background \<lparr>rw_RemoteAddr = None, rw_LocalNetwork = None\<rparr>
     (sample_req\<lparr>msg_Question := []\<rparr>) (init_st int 4 (NewMatcher []) ())
       = (Ret (servfail (sample_req\<lparr>msg_Question := []\<rparr>)), s') \<and> PanicsTotal (st_metrics s') = 1"
proof -
  let ?s = "init_st int 4 (NewMatcher []) () :: unit st"
  let ?w = "\<lparr>rw_RemoteAddr = None, rw_LocalNetwork = None\<rparr> :: ResponseWriter"
  let ?r = "sample_req\<lparr>msg_Question := []\<rparr>"
  have "upstream_contract (u_Exchange (d_Upstream panicking_deps))"
    by unfold_locales (auto simp: panicking_deps_def)
  then have ok: "deps_ok panicking_deps"
    by (simp add: deps_ok_def panicking_deps_def sample_deps_def singleflight_alone)
  have "is_panic (fst (behind_metrics panicking_deps (marked_ctx (withClientInfoFromWriter Background ?w) ?s)
      ?r (marked_st ?s)))"
    by (simp add: behind_metrics_def behind_block_def qlog_New_def panicking_deps_def sample_deps_def
        block_Resolve_def cache_Resolve_def coalesce_Resolve_def forward_Resolve_def is_panic_def)
  then show ?thesis
    using handler_always_answers [OF ok, of Background ?w ?r ?s]
    by (auto simp: init_st_def metrics_New_def)
qed

text \<open>Over any sequence of requests from startup every request gets an answer, the cache stays
  well formed and within its configured capacity, the blocklist is not changed, and the query
  counters over the bounded label set add up to the number of requests.\<close>

theorem serve_all_invariant:
  assumes "deps_ok d" and "serve_all (Build d) reqs (init_st clk cap bl net) = (ms, s')"
  shows "length ms = length reqs \<and> (\<forall>m \<in> set ms. \<exists>x. m = Ret x)
    \<and> lru_inv (st_lru s') \<and> int (Len (st_lru s')) \<le> max 1 cap
    \<and> Current (st_holder s') = Some bl
    \<and> (\<Sum>l \<in> all_labels. count_of (QueriesTotal (st_metrics s')) l) = length reqs"
proof -
  let ?s = "init_st clk cap bl net"
  have "l_capacity (st_lru ?s) = max 1 cap"
    by (simp add: init_st_def SetObserver_def NewLRU_def new_lru_def)
  moreover have "(\<Sum>l \<in> all_labels. count_of (QueriesTotal (st_metrics ?s)) l) = 0" by simp
  ultimately show ?thesis
    using serve_all_keeps [OF assms] lru_invD(3) [of "st_lru s'"] sample_holder [of clk cap bl net]
    by (simp add: Len_def)
qed

theorem serve_all_invariant_witness:
  "length (fst (serve_all (Build sample_deps)
      [(Background, \<lparr>rw_RemoteAddr = None, rw_LocalNetwork = None\<rparr>, sample_req)]
      (init_st int 4 (NewMatcher []) ()))) = 1"
  using serve_all_invariant [OF sample_deps_ok, of
      "[(Background, \<lparr>rw_RemoteAddr = None, rw_LocalNetwork = None\<rparr>, sample_req)]" int 4 "NewMatcher []" "()"]
  by (metis length_Cons list.size(3) One_nat_def prod.collapse)

end
