(* ===== verification/Chain_Steps.thy ===== *)
theory Chain_Steps
  imports Chain
begin

text \<open>
  The chain under concurrency. The listeners run the handler once per query, each in a goroutine of
  its own; between two actions of one query any other query, a reload of the blocklist or the
  fetcher may act. Here the stages of the chain are cut at the points where they touch shared state
  or may block: reading the clock, reading the holder, a lookup or a store under the lock of the
  cache, entering and leaving the coalescing group, waiting in it, the log line and the collectors.
  The bodies of the actions are those of the stages. A coalesced exchange with an upstream is in
  flight from the action that enters the group as the executing caller to the one that gives its
  result, with anything of the other queries between the two; what the exchange does to the state,
  which touches nothing of the other queries, comes with its result.
\<close>

section \<open>The coalescing group\<close>

text \<open>
  The group (\<open>golang.org/x/sync/singleflight\<close>) is a parameter: its state, the calls by which
  caller \<open>i\<close> enters \<open>Do\<close> for a key and by which the function run by \<open>i\<close> returns, and what
  can be observed of it: the caller executing the function for a key, the caller whose execution a
  duplicate waits for, the result of an execution, and the \<open>shared\<close> flag.
\<close>

record 'g sf =
  sf_enter :: "nat \<Rightarrow> string \<Rightarrow> 'g \<Rightarrow> 'g"
  sf_leave :: "nat \<Rightarrow> string \<Rightarrow> result go \<Rightarrow> 'g \<Rightarrow> 'g"
  sf_running :: "'g \<Rightarrow> string \<Rightarrow> nat option"
  sf_joined :: "'g \<Rightarrow> nat \<Rightarrow> nat option"
  sf_result :: "'g \<Rightarrow> nat \<Rightarrow> result go option"
  sf_shared :: "'g \<Rightarrow> nat \<Rightarrow> bool"

text \<open>Its documentation: one execution per key is in flight at a time; a duplicate caller waits for
  it and receives the same results.\<close>

definition sf_ok :: "'g sf \<Rightarrow> bool" where
  "sf_ok G \<longleftrightarrow>
     (\<forall>i k g. sf_running G (sf_enter G i k g) =
          (if sf_running G g k = None then (sf_running G g)(k \<mapsto> i) else sf_running G g)
        \<and> sf_joined G (sf_enter G i k g) =
          (case sf_running G g k of None \<Rightarrow> sf_joined G g | Some j \<Rightarrow> (sf_joined G g)(i \<mapsto> j))
        \<and> sf_result G (sf_enter G i k g) = sf_result G g)
     \<and> (\<forall>i k out g. sf_running G (sf_leave G i k out g) = (sf_running G g)(k := None)
        \<and> sf_joined G (sf_leave G i k out g) = sf_joined G g
        \<and> sf_result G (sf_leave G i k out g) = (sf_result G g)(i \<mapsto> out))"

definition sf_idle :: "'g sf \<Rightarrow> 'g \<Rightarrow> bool" where
  "sf_idle G g \<longleftrightarrow> sf_running G g = Map.empty \<and> sf_joined G g = Map.empty \<and> sf_result G g = Map.empty"

section \<open>One query\<close>

record query =
  qy_ctx :: ctx
  qy_w :: ResponseWriter
  qy_req :: msg

record locals =
  lc_ctx :: ctx
  lc_start :: int
  lc_qstart :: int

text \<open>The points at which a query can be interrupted.\<close>

datatype pc =
    AtMetrics
  | AtLog locals
  | AtBlock locals
  | AtLookup locals
  | AtDirect locals
  | AtEnter locals
  | AtExchange locals
  | AtWait locals
  | AtReturn locals "result go"
  | AtStamp locals "result go" bool
  | AtFill locals "result go"
  | AtLogEnd locals "result go"
  | AtDefer locals "result go"
  | Answered "msg go"

definition q_key :: "msg \<Rightarrow> string" where
  "q_key req = (case msg_Question req of [q] \<Rightarrow> Key q | _ \<Rightarrow> [])"

text \<open>What the coalescing stage does with the results of \<open>Do\<close>, and the query log and the handler
  with those of the stages behind them.\<close>

definition coalesce_finish :: "bool \<Rightarrow> msg \<Rightarrow> result go \<Rightarrow> bool \<Rightarrow> 'e st \<Rightarrow> result go \<times> 'e st" where
  "coalesce_finish m req out shared s =
     (case out of
        Panic p \<Rightarrow> (Panic p, s)
      | Ret (v, err) \<Rightarrow>
          (let s' = (if shared \<and> m
                     then upd_metrics (\<lambda>x. x\<lparr>CoalescedQueriesTotal := Suc (CoalescedQueriesTotal x)\<rparr>) s
                     else s) in
           case err of
             Some e \<Rightarrow> (Ret (None, Some e), s')
           | None \<Rightarrow>
               (case v of
                  None \<Rightarrow> (Panic ''nil pointer dereference'', s')
                | Some r \<Rightarrow> (Ret (Some ((CloneMsg r)\<lparr>msg_ID := msg_ID req\<rparr>), None), s'))))"

definition qlog_finish :: "'e deps \<Rightarrow> msg \<Rightarrow> locals \<Rightarrow> result go \<Rightarrow> 'e st \<Rightarrow> 'e st" where
  "qlog_finish d req l out s =
     (case out of
        Panic p \<Rightarrow> s
      | Ret (resp, err) \<Rightarrow>
          if \<not> d_QueryLog d then s
          else case time_Now s of
              (t, s') \<Rightarrow> s'\<lparr>st_qlog := st_qlog s' @
                [qlog_attrs (d_TypeToString d) (lc_ctx l) req resp err (time_Sub t (lc_qstart l)) s']\<rparr>)"

definition respond :: "msg \<Rightarrow> result go \<Rightarrow> msg go" where
  "respond req out =
     (case out of
        Panic p \<Rightarrow> Panic p
      | Ret (resp, err) \<Rightarrow> Ret (case (resp, err) of (Some m, None) \<Rightarrow> m | _ \<Rightarrow> servfail req))"

text \<open>The next action of query \<open>i\<close>; \<open>None\<close> when it is answered or has to wait for another caller.\<close>

definition q_step :: "'e deps \<Rightarrow> 'g sf \<Rightarrow> nat \<Rightarrow> query \<Rightarrow> pc \<times> 'e st \<times> 'g \<Rightarrow> (pc \<times> 'e st \<times> 'g) option" where
  "q_step d G i y x =
     (let req = qy_req y; key = q_key req; fwd = forward_Resolve (u_Exchange (d_Upstream d)) in
      case x of
        (AtMetrics, s, g) \<Rightarrow>
          (case time_Now s of
             (start, s1) \<Rightarrow>
               (case WithBlockMarker (withClientInfoFromWriter (qy_ctx y) (qy_w y)) s1 of
                  (c1, s2) \<Rightarrow>
                    (case WithUpstreamMarker c1 s2 of
                       (c2, s3) \<Rightarrow> Some (AtLog \<lparr>lc_ctx = c2, lc_start = start, lc_qstart = 0\<rparr>, s3, g))))
      | (AtLog l, s, g) \<Rightarrow>
          if d_QueryLog d then (case time_Now s of (t, s') \<Rightarrow> Some (AtBlock (l\<lparr>lc_qstart := t\<rparr>), s', g))
          else Some (AtBlock l, s, g)
      | (AtBlock l, s, g) \<Rightarrow>
          (case msg_Question req of
             [q] \<Rightarrow>
               (case Current (st_holder s) of
                  None \<Rightarrow> Some (AtLookup l, s, g)
                | Some m \<Rightarrow>
                    if \<not> Match m (rr_Name q) then Some (AtLookup l, s, g)
                    else Some (AtLogEnd l (Ret (Some (nxdomain req), None)), MarkBlocked (lc_ctx l) s, g))
           | _ \<Rightarrow> Some (AtDirect l, s, g))
      | (AtLookup l, s, g) \<Rightarrow>
          (case time_Now s of
             (t, s1) \<Rightarrow>
               (case Get (st_lru s1) key t of
                  (Some resp, lru) \<Rightarrow>
                    Some (AtLogEnd l (Ret (Some (resp\<lparr>msg_ID := msg_ID req\<rparr>), None)),
                      recordLookup (d_Metrics d) ''hit'' (s1\<lparr>st_lru := lru\<rparr>), g)
                | (None, lru) \<Rightarrow>
                    Some (AtEnter l, recordLookup (d_Metrics d) ''miss'' (s1\<lparr>st_lru := lru\<rparr>), g)))
      | (AtDirect l, s, g) \<Rightarrow> (case fwd (lc_ctx l) req s of (out, s') \<Rightarrow> Some (AtLogEnd l out, s', g))
      | (AtEnter l, s, g) \<Rightarrow>
          (let g' = sf_enter G i key g in
           Some (if sf_running G g' key = Some i then AtExchange l else AtWait l, s, g'))
      | (AtExchange l, s, g) \<Rightarrow> (case fwd (lc_ctx l) req s of (out, s') \<Rightarrow> Some (AtReturn l out, s', g))
      | (AtWait l, s, g) \<Rightarrow>
          (case sf_joined G g i of
             None \<Rightarrow> None
           | Some j \<Rightarrow>
               (case sf_result G g j of
                  None \<Rightarrow> None
                | Some out \<Rightarrow> Some (AtStamp l out (sf_shared G g i), s, g)))
      | (AtReturn l out, s, g) \<Rightarrow>
          (let g' = sf_leave G i key out g in Some (AtStamp l out (sf_shared G g' i), s, g'))
      | (AtStamp l out shared, s, g) \<Rightarrow>
          (case coalesce_finish (d_Metrics d) req out shared s of (out', s') \<Rightarrow> Some (AtFill l out', s', g))
      | (AtFill l out, s, g) \<Rightarrow>
          (case cache_fill (d_CacheCfg d) key (out, s) of (out', s') \<Rightarrow> Some (AtLogEnd l out', s', g))
      | (AtLogEnd l out, s, g) \<Rightarrow> Some (AtDefer l out, qlog_finish d req l out s, g)
      | (AtDefer l out, s, g) \<Rightarrow>
          (case metric_defer (d_Metrics d) (d_TypeToString d) (lc_ctx l) req (lc_start l) out s of
             (out', s') \<Rightarrow> Some (Answered (respond req out'), s', g))
      | (Answered m, s, g) \<Rightarrow> None)"

section \<open>All queries\<close>

record ('e, 'g) conc =
  cn_st :: "'e st"
  cn_grp :: 'g
  cn_qs :: "(query \<times> pc) list"

text \<open>What the rest of the program does to the shared state: the clock goes on, a reload installs
  one of the matchers \<open>B\<close>, other collectors change. The cache and the markers of queries are only
  touched by queries.\<close>

definition outside :: "Matcher set \<Rightarrow> 'e st \<Rightarrow> 'e st \<Rightarrow> bool" where
  "outside B s s' \<longleftrightarrow> st_lru s' = st_lru s \<and> st_block s' = st_block s \<and> st_upinfo s' = st_upinfo s
     \<and> st_cells s' = st_cells s \<and> quiet (st_metrics s) (st_metrics s')
     \<and> (\<forall>m. Current (st_holder s') = Some m \<longrightarrow> m \<in> B)"

inductive conc_act :: "'e deps \<Rightarrow> 'g sf \<Rightarrow> ('e, 'g) conc \<Rightarrow> ('e, 'g) conc \<Rightarrow> bool"
  for d :: "'e deps" and G :: "'g sf" where
  act: "i < length (cn_qs y) \<Longrightarrow> cn_qs y ! i = (q, p) \<Longrightarrow>
    q_step d G i q (p, cn_st y, cn_grp y) = Some (p', s', g') \<Longrightarrow>
    conc_act d G y \<lparr>cn_st = s', cn_grp = g', cn_qs = (cn_qs y)[i := (q, p')]\<rparr>"

inductive conc_step :: "'e deps \<Rightarrow> 'g sf \<Rightarrow> Matcher set \<Rightarrow> ('e, 'g) conc \<Rightarrow> ('e, 'g) conc \<Rightarrow> bool"
  for d :: "'e deps" and G :: "'g sf" and B :: "Matcher set" where
  step_act: "conc_act d G y y' \<Longrightarrow> conc_step d G B y y'"
| step_arrive: "conc_step d G B y (y\<lparr>cn_qs := cn_qs y @ [(q, AtMetrics)]\<rparr>)"
| step_outside: "outside B (cn_st y) s' \<Longrightarrow> conc_step d G B y (y\<lparr>cn_st := s'\<rparr>)"

definition conc_init :: "'e st \<Rightarrow> 'g \<Rightarrow> ('e, 'g) conc" where
  "conc_init s g = \<lparr>cn_st = s, cn_grp = g, cn_qs = []\<rparr>"

definition conc_reach :: "'e deps \<Rightarrow> 'g sf \<Rightarrow> Matcher set \<Rightarrow> 'e st \<Rightarrow> 'g \<Rightarrow> ('e, 'g) conc \<Rightarrow> bool" where
  "conc_reach d G B s g y \<longleftrightarrow> (conc_step d G B)\<^sup>*\<^sup>* (conc_init s g) y"

inductive_cases conc_stepE: "conc_step d G B y y'"
inductive_cases conc_actE: "conc_act d G y y'"

section \<open>What the upstreams leave alone\<close>

text \<open>The clients and the pool never touch the cache.\<close>

locale cache_free = upstream_contract +
  assumes lru_kept: "st_lru (snd (exch c req s)) = st_lru s"
begin

lemma forward_lru: "forward_Resolve exch c req s = (out, s') \<Longrightarrow> st_lru s' = st_lru s"
  using lru_kept [of c req s] by (auto simp: forward_Resolve_def split: prod.splits)

lemma forward_frame: "forward_Resolve exch c req s = (out, s') \<Longrightarrow> frame True c s s'"
  by (rule frame_front [OF contractD(1) [OF forward_contract [OF upstream_contract_axioms]]])

end

lemma client_Exchange_lru [simp]: "st_lru (snd (client_Exchange L c req nw addr t s)) = st_lru s"
  by (simp add: client_Exchange_def split: prod.splits)

interpretation udp_free: cache_free "udp_Exchange L addr t" for L addr t
proof unfold_locales
  fix c req and s :: "'a st"
  obtain o1 r1 s1 where e1: "client_Exchange L c req ''udp'' addr t s = ((o1, r1), s1)"
    by (metis prod.collapse)
  obtain o2 r2 s2 where e2: "client_Exchange L c r1 ''tcp'' addr t s1 = ((o2, r2), s2)"
    by (metis prod.collapse)
  have "st_lru s1 = st_lru s" "st_lru s2 = st_lru s1"
    using client_Exchange_lru [of L c req "''udp''" addr t s]
      client_Exchange_lru [of L c r1 "''tcp''" addr t s1] e1 e2 by simp_all
  then show "st_lru (snd (udp_Exchange L addr t c req s)) = st_lru s"
    using e1 e2 by (auto simp: udp_Exchange_def split: prod.splits option.splits)
qed

interpretation doh_free: cache_free "doh_Exchange L cl" for L cl
  by unfold_locales (auto simp: doh_Exchange_def Let_def split: sum.splits option.splits prod.splits)

lemma attempt_lru:
  assumes "cache_free (u_Exchange u)"
  shows "st_lru (snd (attempt m u c req s)) = st_lru s"
proof -
  obtain o1 r1 s2 where e: "u_Exchange u c req (ticked s) = ((o1, r1), s2)" by (metis prod.collapse)
  then have "st_lru s2 = st_lru s" using cache_free.lru_kept [OF assms, of c req "ticked s"] by simp
  then show ?thesis using e by (auto simp: attempt_def time_Now_def split: go.splits)
qed

lemma MarkUpstream_lru [simp]: "st_lru (MarkUpstream c n p s) = st_lru s"
  by (simp add: MarkUpstream_def split: option.splits)

lemma pool_loop_lru:
  assumes "\<forall>u \<in> set us. cache_free (u_Exchange u)"
  shows "st_lru (snd (pool_loop m us errs c req s)) = st_lru s"
  using assms
proof (induction us arbitrary: errs req s)
  case (Cons u us)
  obtain o1 r1 s1 where a: "attempt m u c req s = ((o1, r1), s1)" by (metis prod.collapse)
  have "st_lru s1 = st_lru s" using attempt_lru [of u m c req s] Cons.prems a by simp
  then show ?case
    using Cons a
    by (auto simp: Let_def ctx_Err_def time_Now_def split: go.splits prod.splits option.splits)
qed simp

lemma pool_free:
  assumes "\<forall>u \<in> set us. cache_free (u_Exchange u)"
  shows "cache_free (pool_Exchange m us)"
proof -
  have "upstream_contract (pool_Exchange m us)"
    using assms by (intro pool_keeps) (simp add: cache_free_def)
  moreover have "st_lru (snd (pool_Exchange m us c req s)) = st_lru s" for c req s
    using pool_loop_lru [OF assms] by (simp add: pool_Exchange_def)
  ultimately show ?thesis by (simp add: cache_free_def cache_free_axioms_def)
qed

lemma build_upstreams_free:
  "build_upstreams L us = Inr xs \<Longrightarrow> \<forall>x \<in> set xs. cache_free (u_Exchange x)"
proof (induction us arbitrary: xs)
  case (Cons u us)
  have "cache_free (u_Exchange x)" if "upstream_New L u = Inr x" for x
    using that udp_free.cache_free_axioms doh_free.cache_free_axioms
    by (auto simp: upstream_New_def NewUDPClient_def NewDoHClient_def Let_def
        split: if_splits sum.splits option.splits)
  with Cons show ?case by (auto split: sum.splits)
qed simp

definition conc_deps :: "'e deps \<Rightarrow> bool" where
  "conc_deps d \<longleftrightarrow> d_Metrics d \<and> cache_free (u_Exchange (d_Upstream d))"

text \<open>The dependencies the server is built with qualify.\<close>

lemma built_conc_deps:
  assumes "build_upstreams L us = Inr ups" and "d_Upstream d = NewPool m ups" and "d_Metrics d"
  shows "conc_deps d"
  using assms pool_free [OF build_upstreams_free [OF assms(1)]] by (simp add: conc_deps_def NewPool_def)

section \<open>One action\<close>

text \<open>What an action of a query keeps of the shared state.\<close>

definition kept :: "'e st \<Rightarrow> 'e st \<Rightarrow> bool" where
  "kept s s' \<longleftrightarrow> (lru_inv (st_lru s) \<longrightarrow> lru_inv (st_lru s'))
     \<and> l_capacity (st_lru s') = l_capacity (st_lru s) \<and> st_holder s' = st_holder s"

definition queries_counted :: "'e st \<Rightarrow> nat" where
  "queries_counted s = (\<Sum>l \<in> all_labels. count_of (QueriesTotal (st_metrics s)) l)"

definition is_answered :: "pc \<Rightarrow> bool" where
  "is_answered p = (case p of Answered m \<Rightarrow> True | _ \<Rightarrow> False)"

lemma is_answered_simps [simp]:
  "is_answered (Answered m)" "\<not> is_answered AtMetrics" "\<not> is_answered (AtLog l)"
  "\<not> is_answered (AtBlock l)" "\<not> is_answered (AtLookup l)" "\<not> is_answered (AtDirect l)"
  "\<not> is_answered (AtEnter l)" "\<not> is_answered (AtExchange l)" "\<not> is_answered (AtWait l)" "\<not> is_answered (AtReturn l r)"
  "\<not> is_answered (AtStamp l r sh)" "\<not> is_answered (AtFill l r)" "\<not> is_answered (AtLogEnd l r)"
  "\<not> is_answered (AtDefer l r)"
  by (simp_all add: is_answered_def)

lemma quiet_counted: "quiet (st_metrics s) (st_metrics s') \<Longrightarrow> queries_counted s' = queries_counted s"
  by (simp add: quiet_def queries_counted_def)

lemma frame_action: "frame b c s s' \<Longrightarrow> kept s s' \<and> queries_counted s' = queries_counted s"
  by (simp add: frame_def kept_def quiet_counted)

lemma coalesce_finish_frame:
  "coalesce_finish m req out sh s = (out', s') \<Longrightarrow> frame b c s s' \<and> st_lru s' = st_lru s"
  by (auto simp: coalesce_finish_def Let_def quiet_def intro!: frame_metrics
      split: go.splits prod.splits option.splits if_splits)

lemma qlog_finish_kept [simp]:
  "st_lru (qlog_finish d req l out s) = st_lru s" "st_holder (qlog_finish d req l out s) = st_holder s"
  "st_metrics (qlog_finish d req l out s) = st_metrics s"
  by (auto simp: qlog_finish_def time_Now_def split: go.splits prod.splits)

lemma marked_kept:
  "kept s (marked_st s)" "queries_counted (marked_st s) = queries_counted s"
  by (simp_all add: kept_def queries_counted_def)

lemma q_step_metrics:
  "q_step d G i y (AtMetrics, s, g) =
     Some (AtLog \<lparr>lc_ctx = marked_ctx (withClientInfoFromWriter (qy_ctx y) (qy_w y)) s,
       lc_start = now s, lc_qstart = 0\<rparr>, marked_st s, g)"
  by (simp add: q_step_def time_Now_def WithBlockMarker_def WithUpstreamMarker_def Let_def
      marked_ctx_def marked_st_def)

lemma defer_counted:
  assumes "metric_defer True T c req start out s = (out', s')"
  shows "kept s s' \<and> queries_counted s' = Suc (queries_counted s) \<and> out' = Ret (recovered out)"
proof -
  have "query_label T req \<in> set (''other'' # known_qtypes)"
    using NormalizeQType_bounded by (simp add: query_label_def split: list.splits)
  moreover obtain r e where re: "recovered out = (r, e)" by fastforce
  ultimately have "[Outcome c s r e, query_label T req] \<in> all_labels"
    using Outcome_known [of c s r e] by (auto simp: all_labels_def simp del: set_simps)
  then show ?thesis
    using assms re
    by (auto simp: metric_defer_eq queries_counted_def count_query_def count_of_Inc sum.distrib
        finite_all_labels kept_def)
qed

text \<open>The actions, one by one.\<close>

lemma q_stepE:
  assumes st: "q_step d G i y (p, s, g) = Some (p', s', g')"
  obtains
    (metrics) l where "p = AtMetrics" "p' = AtLog l" "s' = marked_st s" "g' = g"
  | (log) l l' where "p = AtLog l" "p' = AtBlock l'" "s' = s \<or> s' = ticked s" "g' = g"
  | (blocked) l q bl where "p = AtBlock l" "msg_Question (qy_req y) = [q]"
      "Current (st_holder s) = Some bl" "Match bl (rr_Name q)"
      "p' = AtLogEnd l (Ret (Some (nxdomain (qy_req y)), None))" "s' = MarkBlocked (lc_ctx l) s" "g' = g"
  | (pass) l q where "p = AtBlock l" "msg_Question (qy_req y) = [q]" "p' = AtLookup l" "s' = s" "g' = g"
  | (bypass) l where "p = AtBlock l" "\<nexists>q. msg_Question (qy_req y) = [q]" "p' = AtDirect l" "s' = s" "g' = g"
  | (hit) l resp lru where "p = AtLookup l" "Get (st_lru s) (q_key (qy_req y)) (now s) = (Some resp, lru)"
      "p' = AtLogEnd l (Ret (Some (resp\<lparr>msg_ID := msg_ID (qy_req y)\<rparr>), None))"
      "s' = recordLookup (d_Metrics d) ''hit'' ((ticked s)\<lparr>st_lru := lru\<rparr>)" "g' = g"
  | (miss) l lru where "p = AtLookup l" "Get (st_lru s) (q_key (qy_req y)) (now s) = (None, lru)"
      "p' = AtEnter l" "s' = recordLookup (d_Metrics d) ''miss'' ((ticked s)\<lparr>st_lru := lru\<rparr>)" "g' = g"
  | (direct) l out where "p = AtDirect l" "p' = AtLogEnd l out" "g' = g"
      "forward_Resolve (u_Exchange (d_Upstream d)) (lc_ctx l) (qy_req y) s = (out, s')"
  | (lead) l where "p = AtEnter l" "p' = AtExchange l" "s' = s" "g' = sf_enter G i (q_key (qy_req y)) g"
      "sf_running G g' (q_key (qy_req y)) = Some i"
  | (wait) l where "p = AtEnter l" "p' = AtWait l" "s' = s" "g' = sf_enter G i (q_key (qy_req y)) g"
      "sf_running G g' (q_key (qy_req y)) \<noteq> Some i"
  | (exchange) l out where "p = AtExchange l" "p' = AtReturn l out" "g' = g"
      "forward_Resolve (u_Exchange (d_Upstream d)) (lc_ctx l) (qy_req y) s = (out, s')"
  | (join) l j out where "p = AtWait l" "sf_joined G g i = Some j" "sf_result G g j = Some out"
      "p' = AtStamp l out (sf_shared G g i)" "s' = s" "g' = g"
  | (leave) l out where "p = AtReturn l out" "p' = AtStamp l out (sf_shared G g' i)" "s' = s"
      "g' = sf_leave G i (q_key (qy_req y)) out g"
  | (stamp) l out sh out' where "p = AtStamp l out sh" "p' = AtFill l out'" "g' = g"
      "coalesce_finish (d_Metrics d) (qy_req y) out sh s = (out', s')"
  | (fill) l out out' where "p = AtFill l out" "p' = AtLogEnd l out'" "g' = g"
      "cache_fill (d_CacheCfg d) (q_key (qy_req y)) (out, s) = (out', s')"
  | (logend) l out where "p = AtLogEnd l out" "p' = AtDefer l out" "s' = qlog_finish d (qy_req y) l out s" "g' = g"
  | (final) l out out' where "p = AtDefer l out" "p' = Answered (respond (qy_req y) out')" "g' = g"
      "metric_defer (d_Metrics d) (d_TypeToString d) (lc_ctx l) (qy_req y) (lc_start l) out s = (out', s')"
proof (cases p)
  case AtMetrics
  then show thesis using st metrics [OF AtMetrics] by (auto simp: q_step_metrics)
next
  case (AtLog l)
  then show thesis using st log [OF AtLog] by (auto simp: q_step_def time_Now_def Let_def split: if_splits)
next
  case (AtBlock l)
  then show thesis using st blocked [OF AtBlock] pass [OF AtBlock] bypass [OF AtBlock]
    by (auto simp: q_step_def Let_def split: list.splits option.splits if_splits)
next
  case (AtLookup l)
  obtain h lru where g: "Get (st_lru s) (q_key (qy_req y)) (now s) = (h, lru)" by fastforce
  show thesis
    using st g hit [OF AtLookup] miss [OF AtLookup]
    by (cases h) (simp_all add: q_step_def time_Now_def Let_def AtLookup)
next
  case (AtExchange l)
  then show thesis using st exchange [OF AtExchange] by (auto simp: q_step_def Let_def split: prod.splits)
next
  case (AtWait l)
  then obtain j out where j: "sf_joined G g i = Some j" "sf_result G g j = Some out"
    using st by (simp add: q_step_def Let_def split: option.splits)
  show thesis by (rule join [OF AtWait j]) (use st j in \<open>auto simp: q_step_def Let_def AtWait\<close>)
next
  case (AtFill l out)
  then show thesis using st fill [OF AtFill] by (auto simp: q_step_def Let_def split: prod.splits)
next
  case (AtDirect l)
  then show thesis using st direct [OF AtDirect] by (auto simp: q_step_def Let_def split: prod.splits)
next
  case (AtEnter l)
  then show thesis using st lead [OF AtEnter] wait [OF AtEnter]
    by (auto simp: q_step_def Let_def split: if_splits)
next
  case (AtReturn l out)
  show thesis by (rule leave [OF AtReturn]) (use st AtReturn in \<open>auto simp: q_step_def Let_def\<close>)
next
  case (AtStamp l out sh)
  then show thesis using st stamp [OF AtStamp] by (auto simp: q_step_def Let_def split: prod.splits)
next
  case (AtLogEnd l out)
  then show thesis using st logend [OF AtLogEnd] by (auto simp: q_step_def Let_def)
next
  case (AtDefer l out)
  then show thesis using st final [OF AtDefer] by (auto simp: q_step_def Let_def split: prod.splits)
qed (use st in \<open>simp add: q_step_def Let_def\<close>)

lemma cache_fill_kept:
  assumes "cache_fill cfg k (out, s) = (out', s')"
  shows "kept s s' \<and> queries_counted s' = queries_counted s"
  by (rule cache_fill_cases [where x = "(out, s)" and cfg = cfg])
    (use assms in \<open>auto simp: cache_fill_store cache_fill_no_store kept_def queries_counted_def Store_inv\<close>)

lemma q_step_kept:
  assumes d: "conc_deps d" and st: "q_step d G i y (p, s, g) = Some (p', s', g')"
  shows "kept s s' \<and> queries_counted s' = queries_counted s + (if is_answered p' then 1 else 0)"
proof -
  have f: "cache_free (u_Exchange (d_Upstream d))" and m: "d_Metrics d"
    using d by (simp_all add: conc_deps_def)
  show ?thesis
    using st
  proof (cases rule: q_stepE)
    case metrics
    then show ?thesis using marked_kept [of s] by simp
  next
    case (blocked l q bl)
    then show ?thesis using frame_action [OF frame_MarkBlocked, of s "lc_ctx l"] by simp
  next
    case (hit l resp lru)
    then show ?thesis using frame_action [OF frame_lookup] by simp
  next
    case (miss l lru)
    then show ?thesis using frame_action [OF frame_lookup] by simp
  next
    case (direct l out)
    then show ?thesis using frame_action [OF cache_free.forward_frame [OF f direct(4)]] by simp
  next
    case (exchange l out)
    then show ?thesis using frame_action [OF cache_free.forward_frame [OF f exchange(4)]] by simp
  next
    case (stamp l out sh out')
    then show ?thesis using frame_action [OF conjunct1 [OF coalesce_finish_frame]] by fastforce
  next
    case (fill l out out')
    then show ?thesis using cache_fill_kept by fastforce
  next
    case (final l out out')
    then show ?thesis using defer_counted m by fastforce
  qed (auto simp: kept_def queries_counted_def)
qed

section \<open>Where answers come from\<close>

text \<open>A result of an exchange for a question with key \<open>k\<close>.\<close>

definition fwd_out :: "'e deps \<Rightarrow> string \<Rightarrow> result go \<Rightarrow> bool" where
  "fwd_out d k out \<longleftrightarrow> (\<exists>c req q s. msg_Question req = [q] \<and> Key q = k
     \<and> fst (forward_Resolve (u_Exchange (d_Upstream d)) c req s) = out)"

text \<open>The answers a client may get: SERVFAIL; NXDOMAIN for a name one of the installed blocklists
  covers; or a copy, possibly aged, of what an upstream answered to the same question, with the
  client's ID. A request without exactly one question gets what the upstream answered to it.\<close>

definition genuine :: "'e deps \<Rightarrow> Matcher set \<Rightarrow> msg \<Rightarrow> msg \<Rightarrow> bool" where
  "genuine d B req m \<longleftrightarrow> m = servfail req \<or>
     (case msg_Question req of
        [q] \<Rightarrow> (m = nxdomain req \<and> (\<exists>bl \<in> B. Match bl (rr_Name q)))
          \<or> (\<exists>r n. fwd_out d (Key q) (Ret (Some r, None))
               \<and> m = (decrementTTLs (CloneMsg r) n)\<lparr>msg_ID := msg_ID req\<rparr>)
      | _ \<Rightarrow> (\<exists>c s. fst (forward_Resolve (u_Exchange (d_Upstream d)) c req s) = Ret (Some m, None)))"

definition genuine_out :: "'e deps \<Rightarrow> Matcher set \<Rightarrow> msg \<Rightarrow> result go \<Rightarrow> bool" where
  "genuine_out d B req out \<longleftrightarrow> (\<forall>m. out = Ret (Some m, None) \<longrightarrow> genuine d B req m)"

definition fresh_out :: "'e deps \<Rightarrow> msg \<Rightarrow> result go \<Rightarrow> bool" where
  "fresh_out d req out \<longleftrightarrow> (\<forall>m. out = Ret (Some m, None) \<longrightarrow>
     (\<exists>r. fwd_out d (q_key req) (Ret (Some r, None)) \<and> m = (CloneMsg r)\<lparr>msg_ID := msg_ID req\<rparr>))"

definition entry_ok :: "'e deps \<Rightarrow> msg entry \<Rightarrow> bool" where
  "entry_ok d e \<longleftrightarrow> (\<exists>r n. fwd_out d (e_key e) (Ret (Some r, None)) \<and> e_response e = (CloneMsg r)\<lparr>msg_ID := n\<rparr>)"

definition cache_ok :: "'e deps \<Rightarrow> msg LRU \<Rightarrow> bool" where
  "cache_ok d c \<longleftrightarrow> lru_inv c \<and> (\<forall>e \<in> set (lru_abs c). entry_ok d e)"

abbreviation single :: "msg \<Rightarrow> bool" where
  "single req \<equiv> \<exists>q. msg_Question req = [q]"

definition q_ok :: "'e deps \<Rightarrow> Matcher set \<Rightarrow> msg \<Rightarrow> pc \<Rightarrow> bool" where
  "q_ok d B req p =
     (case p of
        AtLookup l \<Rightarrow> single req
      | AtDirect l \<Rightarrow> \<not> single req
      | AtEnter l \<Rightarrow> single req
      | AtExchange l \<Rightarrow> single req
      | AtWait l \<Rightarrow> single req
      | AtReturn l out \<Rightarrow> single req \<and> fwd_out d (q_key req) out
      | AtStamp l out sh \<Rightarrow> single req \<and> fwd_out d (q_key req) out
      | AtFill l out \<Rightarrow> single req \<and> fresh_out d req out
      | AtLogEnd l out \<Rightarrow> genuine_out d B req out
      | AtDefer l out \<Rightarrow> genuine_out d B req out
      | Answered m \<Rightarrow> (\<exists>x. m = Ret x \<and> genuine d B req x)
      | _ \<Rightarrow> True)"

lemma q_key_single [simp]: "msg_Question req = [q] \<Longrightarrow> q_key req = Key q"
  by (simp add: q_key_def)

lemma Clone_stamped [simp]: "CloneMsg ((CloneMsg r)\<lparr>msg_ID := n\<rparr>) = (CloneMsg r)\<lparr>msg_ID := n\<rparr>"
  by (simp add: CloneMsg_def cloneRRs_def)

lemma decrementTTLs_ID [simp]:
  "(decrementTTLs (m\<lparr>msg_ID := i\<rparr>) n)\<lparr>msg_ID := j\<rparr> = (decrementTTLs m n)\<lparr>msg_ID := j\<rparr>"
  by (simp add: decrementTTLs_def)

lemma decrementTTLs_0 [simp]: "decrementTTLs m 0 = m"
proof -
  have "map (age_rr 0) rs = rs" for rs by (simp add: map_idI)
  then show ?thesis by (simp add: decrementTTLs_def)
qed

lemma genuine_copyI:
  assumes "single req" and "fwd_out d (q_key req) (Ret (Some r, None))"
    and "m = (decrementTTLs (CloneMsg r) n)\<lparr>msg_ID := msg_ID req\<rparr>"
  shows "genuine d B req m"
proof -
  obtain q where q: "msg_Question req = [q]" using assms(1) ..
  with assms(2) have "fwd_out d (Key q) (Ret (Some r, None))" by simp
  then show ?thesis using assms(3) unfolding genuine_def q by (simp del: decrementTTLs_ID) blast
qed

text \<open>The cache only ever holds what it was given, under the key it was given for.\<close>

lemma cache_ok_Store:
  assumes "cache_ok d c" and "entry_ok d (new_entry k (CloneMsg m) ttl t)"
  shows "cache_ok d (Store c k m ttl t)"
  using assms
  by (auto simp: cache_ok_def Store_inv Store_abs spec_store_def dest!: in_set_takeD)

lemma spec_find_sub:
  "set (snd (spec_find k t es)) \<subseteq> set es"
  "fst (spec_find k t es) = Some e \<Longrightarrow> e \<in> set es \<and> e_key e = k"
  by (auto simp: spec_find_def Let_def find_Some_iff split: option.splits if_splits)

lemma cache_ok_Get:
  assumes c: "cache_ok d c" and g: "Get c k t = (h, c')"
  shows "cache_ok d c'" and "h = Some m \<Longrightarrow> \<exists>r n. fwd_out d k (Ret (Some r, None))
    \<and> m\<lparr>msg_ID := i\<rparr> = (decrementTTLs (CloneMsg r) n)\<lparr>msg_ID := i\<rparr>"
proof -
  have inv: "lru_inv c" using c by (simp add: cache_ok_def)
  have h: "h = map_option (served t) (fst (spec_find k t (lru_abs c)))"
    and a: "lru_abs c' = snd (spec_find k t (lru_abs c))"
    using Get_abs [OF inv, of k t] g by (auto simp: spec_get_def split: prod.splits)
  have "lru_inv c'" using Get_inv [OF inv, of k t] g by simp
  then show "cache_ok d c'" using c a spec_find_sub(1) by (fastforce simp: cache_ok_def)
  assume "h = Some m"
  then obtain e where e: "fst (spec_find k t (lru_abs c)) = Some e" "m = served t e" using h by auto
  then have "entry_ok d e" "e_key e = k" using c spec_find_sub(2) by (fastforce simp: cache_ok_def)+
  then obtain r n where "fwd_out d k (Ret (Some r, None))" "e_response e = (CloneMsg r)\<lparr>msg_ID := n\<rparr>"
    by (auto simp: entry_ok_def)
  then show "\<exists>r n. fwd_out d k (Ret (Some r, None))
      \<and> m\<lparr>msg_ID := i\<rparr> = (decrementTTLs (CloneMsg r) n)\<lparr>msg_ID := i\<rparr>"
    using e(2) by (auto simp: served_def)
qed

lemma coalesce_finish_fresh:
  assumes "fwd_out d (q_key req) out" and "coalesce_finish m req out sh s = (out', s')"
  shows "fresh_out d req out'"
  using assms
  by (auto simp: fresh_out_def coalesce_finish_def Let_def split: go.splits prod.splits option.splits)

lemma fresh_genuine:
  assumes "single req" and "fresh_out d req out"
  shows "genuine_out d B req out"
proof (unfold genuine_out_def, intro allI impI)
  fix m
  assume "out = Ret (Some m, None)"
  then obtain r where "fwd_out d (q_key req) (Ret (Some r, None))"
    "m = (decrementTTLs (CloneMsg r) 0)\<lparr>msg_ID := msg_ID req\<rparr>"
    using assms(2) by (auto simp: fresh_out_def)
  with assms(1) show "genuine d B req m" by (rule genuine_copyI)
qed

lemma cache_fill_fresh:
  assumes "cache_ok d (st_lru s)" and "fresh_out d req out"
    and "cache_fill cfg (q_key req) (out, s) = (out', s')"
  shows "cache_ok d (st_lru s') \<and> fresh_out d req out'"
proof (cases rule: cache_fill_cases [where x = "(out, s)" and cfg = cfg])
  case (4 r t)
  then obtain r0 where "fwd_out d (q_key req) (Ret (Some r0, None))"
    "r = (CloneMsg r0)\<lparr>msg_ID := msg_ID req\<rparr>" using assms(2) by (auto simp: fresh_out_def)
  then have "entry_ok d (new_entry (q_key req) (CloneMsg r) ttl u)" for ttl u
    by (auto simp: entry_ok_def)
  then show ?thesis using assms 4 by (auto simp: cache_fill_store cache_ok_Store)
qed (use assms in \<open>auto simp: cache_fill_no_store fresh_out_def\<close>)

lemma respond_genuine:
  "genuine_out d B req out \<Longrightarrow> \<exists>x. respond req (Ret (recovered out)) = Ret x \<and> genuine d B req x"
  by (cases out)
    (auto simp: respond_def recovered_def genuine_out_def genuine_def split: option.splits prod.splits)

text \<open>One action keeps the facts about the query and about the cache.\<close>

lemma q_step_ok:
  assumes d: "conc_deps d" and st: "q_step d G i y (p, s, g) = Some (p', s', g')"
    and q: "q_ok d B (qy_req y) p" and c: "cache_ok d (st_lru s)"
    and b: "\<forall>m. Current (st_holder s) = Some m \<longrightarrow> m \<in> B"
    and r: "\<And>j out. sf_joined G g i = Some j \<Longrightarrow> sf_result G g j = Some out \<Longrightarrow> fwd_out d (q_key (qy_req y)) out"
  shows "q_ok d B (qy_req y) p' \<and> cache_ok d (st_lru s')"
proof -
  have f: "cache_free (u_Exchange (d_Upstream d))" and m: "d_Metrics d"
    using d by (simp_all add: conc_deps_def)
  note lru = cache_free.forward_lru [OF f]
  show ?thesis
    using st
  proof (cases rule: q_stepE)
    case (blocked l q bl)
    then show ?thesis using b c
      by (auto simp: q_ok_def genuine_out_def genuine_def MarkBlocked_def split: option.splits)
  next
    case (hit l resp lru)
    have "genuine d B (qy_req y) (resp\<lparr>msg_ID := msg_ID (qy_req y)\<rparr>)"
      using cache_ok_Get(2) [OF c hit(2), of resp "msg_ID (qy_req y)"] q hit(1)
      by (auto simp: q_ok_def intro: genuine_copyI)
    then show ?thesis using cache_ok_Get(1) [OF c hit(2)] hit
      by (simp add: q_ok_def genuine_out_def recordLookup_def)
  next
    case (miss l lru)
    then show ?thesis using cache_ok_Get(1) [OF c miss(2)] q by (simp add: q_ok_def recordLookup_def)
  next
    case (direct l out)
    have "\<exists>c s. fst (forward_Resolve (u_Exchange (d_Upstream d)) c (qy_req y) s) = out"
      using direct(4) by (metis fst_conv)
    then show ?thesis using direct lru [OF direct(4)] q c
      by (auto simp: q_ok_def genuine_out_def genuine_def split: list.splits)
  next
    case (exchange l out)
    have "fwd_out d (q_key (qy_req y)) out"
      using exchange q by (auto simp: q_ok_def fwd_out_def) (metis fst_conv)
    then show ?thesis using exchange lru [OF exchange(4)] q c by (simp add: q_ok_def)
  next
    case (join l j out)
    then show ?thesis using q c r by (simp add: q_ok_def)
  next
    case (stamp l out sh out')
    then show ?thesis using q c coalesce_finish_fresh coalesce_finish_frame by (fastforce simp: q_ok_def)
  next
    case (fill l out out')
    then show ?thesis using q cache_fill_fresh [OF c _ fill(4)] fresh_genuine [of "qy_req y" d out' B]
      by (auto simp: q_ok_def)
  next
    case (final l out out')
    then show ?thesis using q c m respond_genuine [of d B "qy_req y" out]
      by (auto simp: q_ok_def metric_defer_eq)
  qed (use q c in \<open>auto simp: q_ok_def\<close>)
qed

end
