(* ===== verification/Chain_Concurrent.thy ===== *)
theory Chain_Concurrent
  imports Chain_Steps
begin

text \<open>
  What holds of any number of concurrent queries: the invariant that ties the queries, the
  coalescing group, the cache and the counters together, progress, and the agreement of the actions
  of a lone query with the sequential chain.
\<close>

section \<open>The group and the queries\<close>

definition key_at :: "(query \<times> pc) list \<Rightarrow> nat \<Rightarrow> string" where
  "key_at qs i = q_key (qy_req (fst (qs ! i)))"

text \<open>A query whose exchange is in flight, or whose result is not yet in the group.\<close>

definition executing :: "pc \<Rightarrow> bool" where
  "executing p = (case p of AtExchange l \<Rightarrow> True | AtReturn l out \<Rightarrow> True | _ \<Rightarrow> False)"

text \<open>The caller the group runs for a key is the one that executes for that key; a waiting caller
  has joined an execution, for the same key, that has a result or is still in flight; results are
  results of exchanges.\<close>

definition grp_ok :: "'e deps \<Rightarrow> 'g sf \<Rightarrow> 'g \<Rightarrow> (query \<times> pc) list \<Rightarrow> bool" where
  "grp_ok d G g qs \<longleftrightarrow>
     (\<forall>k i. sf_running G g k = Some i \<longrightarrow> i < length qs \<and> key_at qs i = k \<and> executing (snd (qs ! i)))
     \<and> (\<forall>i l. i < length qs \<longrightarrow> snd (qs ! i) = AtWait l \<longrightarrow> sf_joined G g i \<noteq> None)
     \<and> (\<forall>i. i < length qs \<longrightarrow> executing (snd (qs ! i)) \<longrightarrow> sf_running G g (key_at qs i) = Some i)
     \<and> (\<forall>i j. sf_joined G g i = Some j \<longrightarrow> i < length qs \<and> j < length qs \<and> i \<noteq> j \<and> key_at qs j = key_at qs i
          \<and> (sf_result G g j \<noteq> None \<or> sf_running G g (key_at qs i) = Some j))
     \<and> (\<forall>j out. sf_result G g j = Some out \<longrightarrow> j < length qs \<and> fwd_out d (key_at qs j) out)"

lemma grp_okD:
  assumes "grp_ok d G g qs"
  shows "sf_running G g k = Some i \<Longrightarrow> i < length qs \<and> key_at qs i = k \<and> executing (snd (qs ! i))"
    and "i < length qs \<Longrightarrow> snd (qs ! i) = AtWait l \<Longrightarrow> sf_joined G g i \<noteq> None"
    and "i < length qs \<Longrightarrow> executing (snd (qs ! i)) \<Longrightarrow> sf_running G g (key_at qs i) = Some i"
    and "sf_joined G g i = Some j \<Longrightarrow> i < length qs \<and> j < length qs \<and> i \<noteq> j \<and> key_at qs j = key_at qs i
      \<and> (sf_result G g j \<noteq> None \<or> sf_running G g (key_at qs i) = Some j)"
    and "sf_result G g j = Some out \<Longrightarrow> j < length qs \<and> fwd_out d (key_at qs j) out"
  using assms unfolding grp_ok_def by blast+

lemma grp_okI:
  assumes "\<And>k i. sf_running G g k = Some i \<Longrightarrow> i < length qs \<and> key_at qs i = k \<and> executing (snd (qs ! i))"
    and "\<And>i l. i < length qs \<Longrightarrow> snd (qs ! i) = AtWait l \<Longrightarrow> sf_joined G g i \<noteq> None"
    and "\<And>i. i < length qs \<Longrightarrow> executing (snd (qs ! i)) \<Longrightarrow> sf_running G g (key_at qs i) = Some i"
    and "\<And>i j. sf_joined G g i = Some j \<Longrightarrow> i < length qs \<and> j < length qs \<and> i \<noteq> j \<and> key_at qs j = key_at qs i
      \<and> (sf_result G g j \<noteq> None \<or> sf_running G g (key_at qs i) = Some j)"
    and "\<And>j out. sf_result G g j = Some out \<Longrightarrow> j < length qs \<and> fwd_out d (key_at qs j) out"
  shows "grp_ok d G g qs"
  using assms unfolding grp_ok_def by blast

lemma executing_simps [simp]:
  "executing (AtExchange l)" "executing (AtReturn l out)" "\<not> executing AtMetrics" "\<not> executing (AtLog l)"
  "\<not> executing (AtBlock l)" "\<not> executing (AtLookup l)" "\<not> executing (AtDirect l)"
  "\<not> executing (AtEnter l)" "\<not> executing (AtWait l)" "\<not> executing (AtStamp l out sh)"
  "\<not> executing (AtFill l out)" "\<not> executing (AtLogEnd l out)" "\<not> executing (AtDefer l out)"
  "\<not> executing (Answered m)"
  by (simp_all add: executing_def)

lemma key_at_update [simp]:
  "qs ! i = (q, p) \<Longrightarrow> key_at (qs[i := (q, p')]) j = key_at qs j"
  by (cases "i < length qs") (auto simp: key_at_def nth_list_update list_update_beyond)

lemma sf_okD:
  assumes "sf_ok G"
  shows "sf_running G (sf_enter G i k g) =
      (if sf_running G g k = None then (sf_running G g)(k \<mapsto> i) else sf_running G g)"
    and "sf_joined G (sf_enter G i k g) =
      (case sf_running G g k of None \<Rightarrow> sf_joined G g | Some j \<Rightarrow> (sf_joined G g)(i \<mapsto> j))"
    and "sf_result G (sf_enter G i k g) = sf_result G g"
    and "sf_running G (sf_leave G i k out g) = (sf_running G g)(k := None)"
    and "sf_joined G (sf_leave G i k out g) = sf_joined G g"
    and "sf_result G (sf_leave G i k out g) = (sf_result G g)(i \<mapsto> out)"
  using assms unfolding sf_ok_def by blast+

text \<open>An action that does not enter or leave.\<close>

lemma grp_ok_same:
  assumes ok: "grp_ok d G g qs" and i: "i < length qs" "qs ! i = (q, p)"
    and p': "sf_running G g (key_at qs i) = Some i \<longleftrightarrow> executing p'" "\<And>l. p' \<noteq> AtWait l"
  shows "grp_ok d G g (qs[i := (q, p')])"
proof (rule grp_okI)
  fix k j
  assume "sf_running G g k = Some j"
  then show "j < length (qs[i := (q, p')]) \<and> key_at (qs[i := (q, p')]) j = k
      \<and> executing (snd (qs[i := (q, p')] ! j))"
    using grp_okD(1) [OF ok] i p'(1) by (fastforce simp: nth_list_update)
next
  fix j l
  assume "j < length (qs[i := (q, p')])" "snd (qs[i := (q, p')] ! j) = AtWait l"
  then show "sf_joined G g j \<noteq> None"
    using grp_okD(2) [OF ok] i p'(2) by (auto simp: nth_list_update split: if_splits)
next
  fix j
  assume "j < length (qs[i := (q, p')])" "executing (snd (qs[i := (q, p')] ! j))"
  then show "sf_running G g (key_at (qs[i := (q, p')]) j) = Some j"
    using grp_okD(3) [OF ok] i p'(1) by (auto simp: nth_list_update split: if_splits)
next
  fix a b
  assume "sf_joined G g a = Some b"
  then show "a < length (qs[i := (q, p')]) \<and> b < length (qs[i := (q, p')]) \<and> a \<noteq> b
      \<and> key_at (qs[i := (q, p')]) b = key_at (qs[i := (q, p')]) a
      \<and> (sf_result G g b \<noteq> None \<or> sf_running G g (key_at (qs[i := (q, p')]) a) = Some b)"
    using grp_okD(4) [OF ok] i by simp
next
  fix j out
  assume "sf_result G g j = Some out"
  then show "j < length (qs[i := (q, p')]) \<and> fwd_out d (key_at (qs[i := (q, p')]) j) out"
    using grp_okD(5) [OF ok] i by simp
qed

lemma grp_ok_enter:
  assumes G: "sf_ok G" and ok: "grp_ok d G g qs" and i: "i < length qs" "qs ! i = (q, AtEnter l)"
    and p': "p' = (if sf_running G (sf_enter G i (key_at qs i) g) (key_at qs i) = Some i
      then AtExchange l else AtWait l)"
  shows "grp_ok d G (sf_enter G i (key_at qs i) g) (qs[i := (q, p')])"
proof -
  let ?k = "key_at qs i" and ?qs = "qs[i := (q, p')]" and ?g = "sf_enter G i (key_at qs i) g"
  note d = grp_okD [OF ok] and e = sf_okD(1-3) [OF G, of i ?k g]
  have other: "sf_running G g k \<noteq> Some i" for k using d(1) [of k i] i by auto
  have leader: "j < length qs \<and> key_at qs j = ?k" if "sf_running G g ?k = Some j" for j
    using d(1) [OF that] by simp
  have lead: "sf_running G ?g ?k = Some i \<longleftrightarrow> sf_running G g ?k = None" using e(1) other by auto
  show ?thesis
  proof (rule grp_okI)
    fix k j
    assume "sf_running G ?g k = Some j"
    then show "j < length ?qs \<and> key_at ?qs j = k \<and> executing (snd (?qs ! j))"
      using e(1) d(1) [of k j] other [of k] i lead p' by (auto simp: nth_list_update split: if_splits)
  next
    fix j m
    assume j: "j < length ?qs" "snd (?qs ! j) = AtWait m"
    show "sf_joined G ?g j \<noteq> None"
    proof (cases "j = i")
      case True
      then show ?thesis using e(2) i j lead p' by (auto split: if_splits option.splits)
    next
      case False
      then have "sf_joined G g j \<noteq> None" using d(2) [of j m] j by simp
      then show ?thesis using e(2) by (auto split: option.splits)
    qed
  next
    fix j
    assume j: "j < length ?qs" "executing (snd (?qs ! j))"
    show "sf_running G ?g (key_at ?qs j) = Some j"
    proof (cases "j = i")
      case True
      then show ?thesis using i j p' by (auto split: if_splits)
    next
      case False
      then have "sf_running G g (key_at qs j) = Some j" using d(3) [of j] j by simp
      then show ?thesis using e(1) i by (auto split: if_splits)
    qed
  next
    fix a b
    assume ab: "sf_joined G ?g a = Some b"
    show "a < length ?qs \<and> b < length ?qs \<and> a \<noteq> b \<and> key_at ?qs b = key_at ?qs a
        \<and> (sf_result G ?g b \<noteq> None \<or> sf_running G ?g (key_at ?qs a) = Some b)"
    proof (cases "sf_joined G g a = Some b")
      case True
      then show ?thesis using d(4) [OF True] e(1,3) i by (auto split: if_splits)
    next
      case False
      then have "a = i" "sf_running G g ?k = Some b" using ab e(2) by (auto split: option.splits if_splits)
      then show ?thesis using leader e(1) i other by auto
    qed
  next
    fix j out
    assume "sf_result G ?g j = Some out"
    then show "j < length ?qs \<and> fwd_out d (key_at ?qs j) out" using e(3) d(5) [of j out] i by simp
  qed
qed

lemma grp_ok_leave:
  assumes G: "sf_ok G" and ok: "grp_ok d G g qs" and i: "i < length qs" "qs ! i = (q, AtReturn l out)"
    and out: "fwd_out d (key_at qs i) out"
  shows "grp_ok d G (sf_leave G i (key_at qs i) out g) (qs[i := (q, AtStamp l out sh)])"
proof -
  let ?k = "key_at qs i" and ?qs = "qs[i := (q, AtStamp l out sh)]"
  note d = grp_okD [OF ok] and e = sf_okD(4-6) [OF G, of i ?k out g]
  have run: "sf_running G g ?k = Some i" using d(3) [of i] i by simp
  show ?thesis
  proof (rule grp_okI)
    fix a b
    assume "sf_joined G (sf_leave G i ?k out g) a = Some b"
    with e d(4) [of a b] i run show "a < length ?qs \<and> b < length ?qs \<and> a \<noteq> b \<and> key_at ?qs b = key_at ?qs a
      \<and> (sf_result G (sf_leave G i ?k out g) b \<noteq> None
          \<or> sf_running G (sf_leave G i ?k out g) (key_at ?qs a) = Some b)"
      by auto
  next
    fix k j
    assume "sf_running G (sf_leave G i ?k out g) k = Some j"
    with e d(1) [of k j] i show "j < length ?qs \<and> key_at ?qs j = k \<and> executing (snd (?qs ! j))"
      by (auto simp: nth_list_update split: if_splits)
  next
    fix j l
    assume "j < length ?qs" "snd (?qs ! j) = AtWait l"
    with e d(2) [of j l] i run show "sf_joined G (sf_leave G i ?k out g) j \<noteq> None"
      by (auto simp: nth_list_update split: if_splits)
  next
    fix j
    assume "j < length ?qs" "executing (snd (?qs ! j))"
    with e d(3) [of j] i run
    show "sf_running G (sf_leave G i ?k out g) (key_at ?qs j) = Some j"
      by (auto simp: nth_list_update split: if_splits)
  next
    fix j o'
    assume "sf_result G (sf_leave G i ?k out g) j = Some o'"
    with e d(5) [of j o'] i out show "j < length ?qs \<and> fwd_out d (key_at ?qs j) o'"
      by (auto split: if_splits)
  qed
qed

lemma grp_ok_arrive:
  assumes ok: "grp_ok d G g qs"
  shows "grp_ok d G g (qs @ [(q, AtMetrics)])"
proof -
  have k: "key_at (qs @ [x]) i = key_at qs i" if "i < length qs" for i x
    using that by (simp add: key_at_def nth_append)
  note d = grp_okD [OF ok]
  show ?thesis
  proof (rule grp_okI)
    fix j i
    assume "sf_running G g j = Some i"
    with d(1) [OF this] k show "i < length (qs @ [(q, AtMetrics)]) \<and> key_at (qs @ [(q, AtMetrics)]) i = j
      \<and> executing (snd ((qs @ [(q, AtMetrics)]) ! i))" by (auto simp: nth_append)
  next
    fix i l
    assume "i < length (qs @ [(q, AtMetrics)])" "snd ((qs @ [(q, AtMetrics)]) ! i) = AtWait l"
    with d(2) [of i l] show "sf_joined G g i \<noteq> None"
      by (auto simp: nth_append less_Suc_eq split: if_splits)
  next
    fix i
    assume "i < length (qs @ [(q, AtMetrics)])" "executing (snd ((qs @ [(q, AtMetrics)]) ! i))"
    with d(3) [of i] k show "sf_running G g (key_at (qs @ [(q, AtMetrics)]) i) = Some i"
      by (auto simp: nth_append less_Suc_eq split: if_splits)
  next
    fix i j
    assume "sf_joined G g i = Some j"
    with d(4) [OF this] k show "i < length (qs @ [(q, AtMetrics)]) \<and> j < length (qs @ [(q, AtMetrics)]) \<and> i \<noteq> j
      \<and> key_at (qs @ [(q, AtMetrics)]) j = key_at (qs @ [(q, AtMetrics)]) i
      \<and> (sf_result G g j \<noteq> None \<or> sf_running G g (key_at (qs @ [(q, AtMetrics)]) i) = Some j)" by auto
  next
    fix j out
    assume "sf_result G g j = Some out"
    with d(5) [OF this] k show "j < length (qs @ [(q, AtMetrics)])
      \<and> fwd_out d (key_at (qs @ [(q, AtMetrics)]) j) out" by auto
  qed
qed

section \<open>The invariant\<close>

lemma q_step_grp:
  assumes G: "sf_ok G" and ok: "grp_ok d G g qs" and i: "i < length qs" "qs ! i = (q, p)"
    and qk: "q_ok d B (qy_req q) p" and st: "q_step d G i q (p, s, g) = Some (p', s', g')"
  shows "grp_ok d G g' (qs[i := (q, p')])"
proof -
  have k: "q_key (qy_req q) = key_at qs i" using i by (simp add: key_at_def)
  have idle: "sf_running G g (key_at qs i) = Some i \<longleftrightarrow> executing p"
    using grp_okD(1) [OF ok, of "key_at qs i" i] grp_okD(3) [OF ok i(1)] i by auto
  note same = grp_ok_same [OF ok i]
  show ?thesis
    using st
  proof (cases rule: q_stepE)
    case (lead l)
    then show ?thesis using grp_ok_enter [OF G ok i(1), of q l p'] i(2) k by simp
  next
    case (wait l)
    then show ?thesis using grp_ok_enter [OF G ok i(1), of q l p'] i(2) k by simp
  next
    case (leave l out)
    then show ?thesis using grp_ok_leave [OF G ok i(1), of q l out] i(2) k qk by (simp add: q_ok_def)
  qed (use same idle in \<open>auto\<close>)
qed

definition conc_inv :: "'e deps \<Rightarrow> 'g sf \<Rightarrow> Matcher set \<Rightarrow> int \<Rightarrow> ('e, 'g) conc \<Rightarrow> bool" where
  "conc_inv d G B cap y \<longleftrightarrow>
     cache_ok d (st_lru (cn_st y)) \<and> l_capacity (st_lru (cn_st y)) = cap
     \<and> (\<forall>m. Current (st_holder (cn_st y)) = Some m \<longrightarrow> m \<in> B)
     \<and> grp_ok d G (cn_grp y) (cn_qs y)
     \<and> (\<forall>x \<in> set (cn_qs y). q_ok d B (qy_req (fst x)) (snd x))
     \<and> queries_counted (cn_st y) = length (filter (\<lambda>x. is_answered (snd x)) (cn_qs y))"

lemma filter_update_length:
  "i < length xs \<Longrightarrow> \<not> P (xs ! i) \<Longrightarrow>
     length (filter P (xs[i := x])) = length (filter P xs) + (if P x then 1 else 0)"
  by (induction xs arbitrary: i) (auto split: nat.splits simp: nth_Cons')

lemma q_step_answered: "q_step d G i y (Answered m, s, g) = None"
  by (simp add: q_step_def Let_def)

lemma conc_act_inv:
  assumes d: "conc_deps d" and G: "sf_ok G" and y: "conc_inv d G B cap y" and st: "conc_act d G y y'"
  shows "conc_inv d G B cap y'"
  using st
proof (cases rule: conc_act.cases)
  case (act i q p p' s' g')
  have q: "q_ok d B (qy_req q) p" and c: "cache_ok d (st_lru (cn_st y))"
    and ok: "grp_ok d G (cn_grp y) (cn_qs y)" and b: "\<forall>m. Current (st_holder (cn_st y)) = Some m \<longrightarrow> m \<in> B"
    and all: "\<forall>x \<in> set (cn_qs y). q_ok d B (qy_req (fst x)) (snd x)"
    using y act(2,3) by (auto simp: conc_inv_def) (metis fst_conv nth_mem snd_conv)
  have r: "fwd_out d (q_key (qy_req q)) out"
    if "sf_joined G (cn_grp y) i = Some j" "sf_result G (cn_grp y) j = Some out" for j out
    using grp_okD(4) [OF ok that(1)] grp_okD(5) [OF ok that(2)] act(3) by (simp add: key_at_def)
  have n: "\<not> is_answered p" using act(4) by (cases p) (auto simp: q_step_answered)
  note k = q_step_kept [OF d act(4)] and o = q_step_ok [OF d act(4) q c b r]
  have "\<forall>x \<in> set ((cn_qs y)[i := (q, p')]). q_ok d B (qy_req (fst x)) (snd x)"
    using all o set_update_subset_insert [of "cn_qs y" i "(q, p')"] by fastforce
  moreover have "grp_ok d G g' ((cn_qs y)[i := (q, p')])" by (rule q_step_grp [OF G ok act(2,3) q act(4)])
  moreover have "length (filter (\<lambda>x. is_answered (snd x)) ((cn_qs y)[i := (q, p')]))
      = length (filter (\<lambda>x. is_answered (snd x)) (cn_qs y)) + (if is_answered p' then 1 else 0)"
    using filter_update_length [of i "cn_qs y" "\<lambda>x. is_answered (snd x)" "(q, p')"] act(2,3) n by simp
  ultimately show ?thesis
    using y k o by (simp add: conc_inv_def act(1) kept_def)
qed

lemma conc_step_inv:
  assumes d: "conc_deps d" and G: "sf_ok G" and y: "conc_inv d G B cap y" and st: "conc_step d G B y y'"
  shows "conc_inv d G B cap y'"
  using st
proof (cases rule: conc_step.cases)
  case step_act
  then show ?thesis using conc_act_inv [OF d G y] by blast
next
  case (step_arrive q)
  then show ?thesis using y grp_ok_arrive [of d G "cn_grp y" "cn_qs y" q] by (auto simp: conc_inv_def q_ok_def)
next
  case (step_outside s')
  then show ?thesis using y quiet_counted [of "cn_st y" s'] by (auto simp: conc_inv_def outside_def)
qed

lemma conc_init_inv:
  assumes "sf_idle G g" and "bl \<in> B"
  shows "conc_inv d G B (max 1 cap) (conc_init (init_st clk cap bl net) g)"
proof -
  have "lru_abs (st_lru (init_st clk cap bl net)) = []"
    by (simp add: init_st_def SetObserver_def NewLRU_def new_lru_def lru_abs_def)
  moreover have "l_capacity (st_lru (init_st clk cap bl net)) = max 1 cap"
    by (simp add: init_st_def SetObserver_def NewLRU_def new_lru_def)
  moreover have "grp_ok d G g []"
    by (rule grp_okI) (use assms(1) in \<open>auto simp: sf_idle_def\<close>)
  ultimately show ?thesis
    using assms(2) sample_holder [of clk cap bl net]
    by (simp add: conc_inv_def conc_init_def cache_ok_def queries_counted_def)
qed

interpretation conc_sys: step_invariant "conc_step d G B"
    "\<lambda>y. conc_deps d \<and> sf_ok G \<and> conc_inv d G B cap y" for d G B cap
  by unfold_locales (auto intro: conc_step_inv)

lemma conc_steps_inv:
  "(conc_step d G B)\<^sup>*\<^sup>* y y' \<Longrightarrow> conc_deps d \<Longrightarrow> sf_ok G \<Longrightarrow> conc_inv d G B cap y \<Longrightarrow> conc_inv d G B cap y'"
  using conc_sys.runs_keep by blast

lemma conc_reach_inv:
  assumes "conc_deps d" "sf_ok G" "sf_idle G g" "bl \<in> B"
    and "conc_reach d G B (init_st clk cap bl net) g y"
  shows "conc_inv d G B (max 1 cap) y"
  using conc_steps_inv [OF assms(5) [unfolded conc_reach_def] assms(1,2) conc_init_inv [OF assms(3,4)]] .

section \<open>Coalescing\<close>

definition asks :: "(query \<times> pc) list \<Rightarrow> nat \<Rightarrow> rr \<Rightarrow> bool" where
  "asks qs i q \<longleftrightarrow> i < length qs \<and> msg_Question (qy_req (fst (qs ! i))) = [q]"

lemma asks_key: "asks qs i q \<Longrightarrow> key_at qs i = Key q"
  by (simp add: asks_def key_at_def)

lemma asks_same: "asks qs i a \<Longrightarrow> asks qs j b \<Longrightarrow> key_at qs i = key_at qs j \<longleftrightarrow> same_question a b"
  by (simp add: asks_key Key_eq_iff)

lemma asks_of_key: "i < length qs \<Longrightarrow> key_at qs i = Key b \<Longrightarrow> \<exists>a. asks qs i a"
  by (auto simp: asks_def key_at_def q_key_def Key_def split: list.splits)

lemma coalesced:
  assumes inv: "conc_inv d G B cap y" and G: "sf_ok G" and b: "asks (cn_qs y) j b"
  shows "asks (cn_qs y) i a \<Longrightarrow> i \<noteq> j \<Longrightarrow> same_question a b \<Longrightarrow> executing (snd (cn_qs y ! i)) \<Longrightarrow>
      \<not> executing (snd (cn_qs y ! j))
      \<and> (\<forall>p' s' g'. q_step d G j (fst (cn_qs y ! j)) (snd (cn_qs y ! j), cn_st y, cn_grp y) = Some (p', s', g')
           \<longrightarrow> \<not> executing p')"
    and "snd (cn_qs y ! j) = AtWait l \<Longrightarrow>
      \<exists>k a. sf_joined G (cn_grp y) j = Some k \<and> k \<noteq> j \<and> asks (cn_qs y) k a \<and> same_question a b
        \<and> (executing (snd (cn_qs y ! k)) \<or> sf_result G (cn_grp y) k \<noteq> None)"
    and "snd (cn_qs y ! j) = AtWait l \<Longrightarrow>
      q_step d G j (fst (cn_qs y ! j)) (snd (cn_qs y ! j), cn_st y, cn_grp y) = Some (p', s', g') \<Longrightarrow>
      \<exists>out sh c req a s. p' = AtStamp l out sh \<and> msg_Question req = [a] \<and> same_question a b
        \<and> out = fst (forward_Resolve (u_Exchange (d_Upstream d)) c req s)"
proof -
  let ?qs = "cn_qs y" and ?g = "cn_grp y"
  have ok: "grp_ok d G ?g ?qs" and jn: "j < length ?qs"
    using inv b by (simp_all add: conc_inv_def asks_def)
  note d = grp_okD [OF ok]
  {
    assume i: "asks ?qs i a" "i \<noteq> j" "same_question a b" "executing (snd (?qs ! i))"
    have k: "key_at ?qs j = key_at ?qs i" using asks_same [OF i(1) b] i(3) by simp
    have run: "sf_running G ?g (key_at ?qs j) = Some i"
      using d(3) [of i] i k by (simp add: asks_def)
    have j: "\<not> executing (snd (?qs ! j))" using d(3) [OF jn] run i(2) by auto
    have "sf_running G (sf_enter G j (key_at ?qs j) ?g) (key_at ?qs j) = Some i"
      using sf_okD(1) [OF G, of j "key_at ?qs j" ?g] run by simp
    then show "\<not> executing (snd (?qs ! j))
      \<and> (\<forall>p' s' g'. q_step d G j (fst (?qs ! j)) (snd (?qs ! j), cn_st y, ?g) = Some (p', s', g')
           \<longrightarrow> \<not> executing p')"
      using j i(2) by (auto simp: key_at_def elim!: q_stepE)
  }
  {
    assume w: "snd (?qs ! j) = AtWait l"
    then obtain k where k: "sf_joined G ?g j = Some k" using d(2) [OF jn] by blast
    show "\<exists>k a. sf_joined G ?g j = Some k \<and> k \<noteq> j \<and> asks ?qs k a \<and> same_question a b
        \<and> (executing (snd (?qs ! k)) \<or> sf_result G ?g k \<noteq> None)"
      using k d(4) [OF k] d(1) asks_of_key [of k ?qs b] asks_key [OF b] asks_same [OF _ b] by metis
  }
  {
    assume w: "snd (?qs ! j) = AtWait l"
      and st: "q_step d G j (fst (?qs ! j)) (snd (?qs ! j), cn_st y, ?g) = Some (p', s', g')"
    from st show "\<exists>out sh c req a s. p' = AtStamp l out sh \<and> msg_Question req = [a] \<and> same_question a b
        \<and> out = fst (forward_Resolve (u_Exchange (d_Upstream d)) c req s)"
    proof (cases rule: q_stepE)
      case (join m k out)
      then have "fwd_out d (Key b) out" using d(4) [OF join(2)] d(5) [OF join(3)] asks_key [OF b] by simp
      then show ?thesis using join w by (auto simp: fwd_out_def Key_eq_iff)
    qed (use w in simp_all)
  }
qed

section \<open>Progress\<close>

text \<open>How many actions a query still has in front of it, at most.\<close>

definition pc_rank :: "pc \<Rightarrow> nat" where
  "pc_rank p =
     (case p of
        AtMetrics \<Rightarrow> 11 | AtLog l \<Rightarrow> 10 | AtBlock l \<Rightarrow> 9 | AtLookup l \<Rightarrow> 8 | AtDirect l \<Rightarrow> 3
      | AtEnter l \<Rightarrow> 7 | AtExchange l \<Rightarrow> 6 | AtWait l \<Rightarrow> 6 | AtReturn l out \<Rightarrow> 5 | AtStamp l out sh \<Rightarrow> 4
      | AtFill l out \<Rightarrow> 3 | AtLogEnd l out \<Rightarrow> 2 | AtDefer l out \<Rightarrow> 1 | Answered m \<Rightarrow> 0)"

definition work_left :: "('e, 'g) conc \<Rightarrow> nat" where
  "work_left y = sum_list (map (\<lambda>x. pc_rank (snd x)) (cn_qs y))"

lemma q_step_rank: "q_step d G i y (p, s, g) = Some (p', s', g') \<Longrightarrow> pc_rank p' < pc_rank p"
  by (erule q_stepE) (simp_all add: pc_rank_def)

lemma sum_update_less:
  fixes f :: "'a \<Rightarrow> nat"
  shows "i < length xs \<Longrightarrow> f x < f (xs ! i) \<Longrightarrow> sum_list (map f (xs[i := x])) < sum_list (map f xs)"
  by (induction xs arbitrary: i) (auto simp: nth_Cons' split: nat.splits)

lemma conc_act_work: "conc_act d G y y' \<Longrightarrow> work_left y' < work_left y \<and> length (cn_qs y') = length (cn_qs y)"
proof (erule conc_actE, goal_cases)
  case (1 i q p p' s' g')
  then show ?case
    using sum_update_less [of i "cn_qs y" "\<lambda>x. pc_rank (snd x)" "(q, p')"] q_step_rank [OF 1(4)]
    by (simp add: work_left_def)
qed

lemma conc_acts_work: "(conc_act d G ^^ n) y y' \<Longrightarrow> n + work_left y' \<le> work_left y"
proof (induction n arbitrary: y')
  case (Suc n)
  then obtain z where "(conc_act d G ^^ n) y z" "conc_act d G z y'" by (auto elim: relpowp_Suc_E)
  then show ?case using Suc.IH conc_act_work by fastforce
qed simp

lemma pc_rank_le: "pc_rank p \<le> 11"
  by (cases p) (simp_all add: pc_rank_def)

lemma work_left_le: "work_left y \<le> 11 * length (cn_qs y)"
  using sum_list_mono [of "cn_qs y" "\<lambda>x. pc_rank (snd x)" "\<lambda>_. 11"] pc_rank_le
  by (simp add: work_left_def sum_list_triv mult.commute)

text \<open>Only a caller that joined an execution without a result waits.\<close>

lemma q_step_enabled:
  assumes "\<not> is_answered p"
    and "\<And>l. p = AtWait l \<Longrightarrow> \<exists>j out. sf_joined G g i = Some j \<and> sf_result G g j = Some out"
  shows "\<exists>p' s' g'. q_step d G i y (p, s, g) = Some (p', s', g')"
proof -
  have "q_step d G i y (p, s, g) \<noteq> None"
  proof (cases p)
    case (AtWait l)
    then show ?thesis using assms(2) [OF AtWait] by (auto simp: q_step_def Let_def)
  qed (use assms(1) in \<open>simp_all add: q_step_def Let_def time_Now_def split: prod.split option.split list.split\<close>)
  then show ?thesis by (metis not_None_eq prod_cases3)
qed

lemma conc_progress:
  assumes inv: "conc_inv d G B cap y" and x: "x \<in> set (cn_qs y)" "\<not> is_answered (snd x)"
  shows "\<exists>y'. conc_act d G y y'"
proof -
  obtain i where i: "i < length (cn_qs y)" "cn_qs y ! i = x" using x(1) by (auto simp: in_set_conv_nth)
  have ok: "grp_ok d G (cn_grp y) (cn_qs y)" using inv by (simp add: conc_inv_def)
  have go: "\<exists>y'. conc_act d G y y'" if "j < length (cn_qs y)" "\<not> is_answered (snd (cn_qs y ! j))"
    "\<And>l. snd (cn_qs y ! j) = AtWait l \<Longrightarrow>
      \<exists>k out. sf_joined G (cn_grp y) j = Some k \<and> sf_result G (cn_grp y) k = Some out" for j
    using q_step_enabled [of "snd (cn_qs y ! j)" G "cn_grp y" j d "fst (cn_qs y ! j)" "cn_st y"] that
    by (metis conc_act.act prod.collapse)
  show ?thesis
  proof (cases "\<exists>l. snd x = AtWait l
      \<and> (\<nexists>k out. sf_joined G (cn_grp y) i = Some k \<and> sf_result G (cn_grp y) k = Some out)")
    case False
    then show ?thesis using go [of i] i x by auto
  next
    case True
    then obtain j where j: "sf_joined G (cn_grp y) i = Some j" "sf_result G (cn_grp y) j = None"
      using grp_okD(2) [OF ok, of i] i by fastforce
    then have run: "sf_running G (cn_grp y) (key_at (cn_qs y) j) = Some j"
      using grp_okD(4) [OF ok j(1)] by auto
    then have "j < length (cn_qs y)" "executing (snd (cn_qs y ! j))" using grp_okD(1) [OF ok run] by auto
    then show ?thesis using go [of j] run by (cases "snd (cn_qs y ! j)") auto
  qed
qed

section \<open>A query on its own\<close>

definition q_next :: "'e deps \<Rightarrow> 'g sf \<Rightarrow> nat \<Rightarrow> query \<Rightarrow> pc \<times> 'e st \<times> 'g \<Rightarrow> pc \<times> 'e st \<times> 'g \<Rightarrow> bool" where
  "q_next d G i y x x' \<longleftrightarrow> q_step d G i y x = Some x'"

abbreviation alone :: "'e deps \<Rightarrow> 'e deps" where
  "alone d \<equiv> d\<lparr>d_Do := Do_alone\<rparr>"

lemma coalesce_alone:
  assumes "msg_Question req = [q]" and "nxt c req s = (out, s1)"
  shows "coalesce_Resolve Do_alone m nxt c req s = coalesce_finish m req out False s1"
  using assms
  by (cases out) (auto simp: coalesce_Resolve_def coalesce_finish_def Do_alone_def split: prod.splits)

lemma qlog_finish_alone [simp]: "qlog_finish (alone d) req l out s = qlog_finish d req l out s"
  by (cases out) (auto simp: qlog_finish_def split: prod.splits)

lemma behind_metrics_finish:
  assumes "block_Resolve (behind_block d) c req (if d_QueryLog d then ticked s else s) = (out, s2)"
    and "lc_ctx l = c" and "d_QueryLog d \<Longrightarrow> lc_qstart l = now s"
  shows "behind_metrics d c req s = (out, qlog_finish d req l out s2)"
  using assms
  by (cases out) (auto simp: behind_metrics_def qlog_New_def qlog_Resolve_def qlog_finish_def time_Now_def
      split: prod.splits)

text \<open>From a miss to the end of the cache stage.\<close>

lemma miss_run:
  assumes G: "sf_ok G" and k: "sf_running G g (q_key (qy_req y)) = None"
    and sh: "\<And>out. \<not> sf_shared G (sf_leave G i (q_key (qy_req y)) out (sf_enter G i (q_key (qy_req y)) g)) i"
    and fwd: "forward_Resolve (u_Exchange (d_Upstream d)) (lc_ctx l) (qy_req y) s = (o1, s1)"
    and cf: "coalesce_finish (d_Metrics d) (qy_req y) o1 False s1 = (o2, s2)"
    and fill: "cache_fill (d_CacheCfg d) (q_key (qy_req y)) (o2, s2) = (o3, s3)"
  shows "\<exists>g'. (q_next d G i y)\<^sup>*\<^sup>* (AtEnter l, s, g) (AtLogEnd l o3, s3, g')"
proof -
  let ?k = "q_key (qy_req y)"
  let ?g1 = "sf_enter G i ?k g"
  let ?g2 = "sf_leave G i ?k o1 ?g1"
  have "sf_running G ?g1 ?k = Some i" using sf_okD(1) [OF G, of i ?k g] k by simp
  then have "q_next d G i y (AtEnter l, s, g) (AtExchange l, s, ?g1)"
    "q_next d G i y (AtExchange l, s, ?g1) (AtReturn l o1, s1, ?g1)"
    "q_next d G i y (AtReturn l o1, s1, ?g1) (AtStamp l o1 False, s1, ?g2)"
    "q_next d G i y (AtStamp l o1 False, s1, ?g2) (AtFill l o2, s2, ?g2)"
    "q_next d G i y (AtFill l o2, s2, ?g2) (AtLogEnd l o3, s3, ?g2)"
    using sh fwd cf fill by (simp_all add: q_next_def q_step_def Let_def)
  then have "(q_next d G i y)\<^sup>*\<^sup>* (AtEnter l, s, g) (AtLogEnd l o3, s3, ?g2)"
    by (meson converse_rtranclp_into_rtranclp rtranclp.rtrancl_refl)
  then show ?thesis ..
qed

text \<open>From the block stage to the query log.\<close>

lemma block_run:
  assumes G: "sf_ok G" and k: "sf_running G g (q_key (qy_req y)) = None"
    and sh: "\<And>out. \<not> sf_shared G (sf_leave G i (q_key (qy_req y)) out (sf_enter G i (q_key (qy_req y)) g)) i"
    and b: "block_Resolve (behind_block (alone d)) (lc_ctx l) (qy_req y) s = (out, s')"
  shows "\<exists>g'. (q_next d G i y)\<^sup>*\<^sup>* (AtBlock l, s, g) (AtLogEnd l out, s', g')"
proof (cases "single (qy_req y)")
  case False
  then have "forward_Resolve (u_Exchange (d_Upstream d)) (lc_ctx l) (qy_req y) s = (out, s')"
    using b by (auto simp: block_Resolve_def behind_block_def cache_bypass coalesce_Resolve_def split: list.splits)
  then have "q_next d G i y (AtBlock l, s, g) (AtDirect l, s, g)"
    "q_next d G i y (AtDirect l, s, g) (AtLogEnd l out, s', g)"
    using False by (auto simp: q_next_def q_step_def Let_def split: list.splits)
  then show ?thesis by (meson converse_rtranclp_into_rtranclp rtranclp.rtrancl_refl)
next
  case True
  then obtain q where q: "msg_Question (qy_req y) = [q]" ..
  show ?thesis
  proof (cases "\<exists>m. Current (st_holder s) = Some m \<and> Match m (rr_Name q)")
    case True
    then have "q_next d G i y (AtBlock l, s, g) (AtLogEnd l out, s', g)"
      using b q by (auto simp: q_next_def q_step_def Let_def block_Resolve_def)
    then show ?thesis by blast
  next
    case False
    then have look: "q_next d G i y (AtBlock l, s, g) (AtLookup l, s, g)"
      and bb: "behind_block (alone d) (lc_ctx l) (qy_req y) s = (out, s')"
      using b q by (auto simp: q_next_def q_step_def Let_def block_Resolve_def split: option.splits)
    obtain h lru where g: "Get (st_lru s) (Key q) (now s) = (h, lru)" by fastforce
    show ?thesis
    proof (cases h)
      case (Some resp)
      then have "q_next d G i y (AtLookup l, s, g) (AtLogEnd l out, s', g)"
        using bb g q by (simp add: behind_block_def cache_hit q_next_def q_step_def Let_def time_Now_def)
      with look show ?thesis by (meson converse_rtranclp_into_rtranclp rtranclp.rtrancl_refl)
    next
      case None
      let ?s = "recordLookup (d_Metrics d) ''miss'' ((ticked s)\<lparr>st_lru := lru\<rparr>)"
      obtain o1 s1 where f: "forward_Resolve (u_Exchange (d_Upstream d)) (lc_ctx l) (qy_req y) ?s = (o1, s1)"
        by fastforce
      obtain o2 s2 where cf: "coalesce_finish (d_Metrics d) (qy_req y) o1 False s1 = (o2, s2)" by fastforce
      have fill: "cache_fill (d_CacheCfg d) (q_key (qy_req y)) (o2, s2) = (out, s')"
        using bb cache_miss [OF q g [unfolded None]] coalesce_alone [where nxt = "forward_Resolve (u_Exchange (d_Upstream d))", OF q f] cf q
        by (simp add: behind_block_def)
      have "q_next d G i y (AtLookup l, s, g) (AtEnter l, ?s, g)"
        using None g q by (simp add: q_next_def q_step_def Let_def time_Now_def)
      with look miss_run [OF G k sh f cf fill] show ?thesis
        by (meson converse_rtranclp_into_rtranclp)
    qed
  qed
qed

lemma defer_run:
  assumes "metric_defer (d_Metrics d) (d_TypeToString d) (lc_ctx l) (qy_req y) (lc_start l) out s = (o4, s4)"
  shows "q_next d G i y (AtDefer l out, s, g) (Answered (respond (qy_req y) o4), s4, g)"
  using assms by (simp add: q_next_def q_step_def Let_def)

lemma lone_run:
  assumes "sf_ok G" and "sf_running G g (q_key (qy_req y)) = None"
    and "\<And>out. \<not> sf_shared G (sf_leave G i (q_key (qy_req y)) out (sf_enter G i (q_key (qy_req y)) g)) i"
    and "ServeDNS (Build (alone d)) (qy_ctx y) (qy_w y) (qy_req y) s = (m, s')"
  shows "\<exists>g'. (q_next d G i y)\<^sup>*\<^sup>* (AtMetrics, s, g) (Answered m, s', g')"
proof -
  let ?c = "withClientInfoFromWriter (qy_ctx y) (qy_w y)" and ?req = "qy_req y"
  let ?c2 = "marked_ctx ?c s" and ?s1 = "marked_st s"
  let ?s2 = "if d_QueryLog d then ticked ?s1 else ?s1"
  let ?start = "\<lparr>lc_ctx = ?c2, lc_start = now s, lc_qstart = 0\<rparr>"
  let ?l = "if d_QueryLog d then ?start\<lparr>lc_qstart := now ?s1\<rparr> else ?start"
  have lc: "lc_ctx ?l = ?c2" "lc_start ?l = now s" by simp_all
  obtain out s3 where b: "block_Resolve (behind_block (alone d)) ?c2 ?req ?s2 = (out, s3)" by fastforce
  have bm: "behind_metrics (alone d) ?c2 ?req ?s1 = (out, qlog_finish d ?req ?l out s3)"
    using behind_metrics_finish [of "alone d" ?c2 ?req ?s1 out s3 ?l] b by simp
  obtain o4 s4 where df: "metric_defer (d_Metrics d) (d_TypeToString d) ?c2 ?req (now s) out
      (qlog_finish d ?req ?l out s3) = (o4, s4)" by fastforce
  have m: "m = respond ?req o4" "s' = s4"
    using assms(4) bm df
    by (auto simp: ServeDNS_def Build_eq metric_Resolve_eq respond_def split: go.splits prod.splits)
  have "q_next d G i y (AtMetrics, s, g) (AtLog ?start, ?s1, g)" by (simp add: q_next_def q_step_metrics)
  moreover have "q_next d G i y (AtLog ?start, ?s1, g) (AtBlock ?l, ?s2, g)"
    by (simp add: q_next_def q_step_def Let_def time_Now_def)
  moreover obtain g' where "(q_next d G i y)\<^sup>*\<^sup>* (AtBlock ?l, ?s2, g) (AtLogEnd ?l out, s3, g')"
    using block_run [OF assms(1-3), where l = ?l and s = ?s2 and d = d, unfolded lc, OF b] by blast
  moreover have "q_next d G i y (AtLogEnd ?l out, s3, g') (AtDefer ?l out, qlog_finish d ?req ?l out s3, g')"
    by (simp add: q_next_def q_step_def Let_def)
  moreover have "q_next d G i y (AtDefer ?l out, qlog_finish d ?req ?l out s3, g') (Answered m, s', g')"
    unfolding m by (rule defer_run) (unfold lc, rule df)
  ultimately have "(q_next d G i y)\<^sup>*\<^sup>* (AtMetrics, s, g) (Answered m, s', g')"
    by (meson converse_rtranclp_into_rtranclp rtranclp.rtrancl_into_rtrancl)
  then show ?thesis ..
qed

text \<open>Actions of one query are actions of the system.\<close>

lemma conc_lift:
  assumes "(q_next d G i q)\<^sup>*\<^sup>* (p, cn_st y, cn_grp y) (p', s', g')"
    and "i < length (cn_qs y)" "cn_qs y ! i = (q, p)"
  shows "(conc_act d G)\<^sup>*\<^sup>* y \<lparr>cn_st = s', cn_grp = g', cn_qs = (cn_qs y)[i := (q, p')]\<rparr>"
  using assms(1)
proof (induction "(p', s', g')" arbitrary: p' s' g' rule: rtranclp_induct)
  case base
  then show ?case using assms(2,3) by (metis conc.surjective list_update_id old.unit.exhaust rtranclp.rtrancl_refl)
next
  case (step z)
  obtain p1 s1 g1 where z: "z = (p1, s1, g1)" by (metis prod_cases3)
  let ?y = "\<lparr>cn_st = s1, cn_grp = g1, cn_qs = (cn_qs y)[i := (q, p1)]\<rparr>"
  have "conc_act d G ?y \<lparr>cn_st = s', cn_grp = g', cn_qs = (cn_qs ?y)[i := (q, p')]\<rparr>"
    by (rule conc_act.act) (use step.hyps(2) assms(2) z in \<open>simp_all add: q_next_def\<close>)
  then show ?case using step.hyps(3) [OF z] by (simp add: rtranclp.rtrancl_into_rtrancl)
qed

lemma conc_reach_acts: "conc_reach d G B s g y \<Longrightarrow> (conc_act d G)\<^sup>*\<^sup>* y y' \<Longrightarrow> conc_reach d G B s g y'"
proof -
  assume r: "conc_reach d G B s g y" and "(conc_act d G)\<^sup>*\<^sup>* y y'"
  then have "(conc_step d G B)\<^sup>*\<^sup>* y y'" by (metis mono_rtranclp step_act)
  then show ?thesis using r by (simp add: conc_reach_def)
qed

section \<open>A group made of maps\<close>

record map_group =
  mg_running :: "string \<rightharpoonup> nat"
  mg_joined :: "nat \<rightharpoonup> nat"
  mg_result :: "nat \<rightharpoonup> result go"
  mg_dups :: "nat list"

definition map_sf :: "map_group sf" where
  "map_sf = \<lparr>
     sf_enter = (\<lambda>i k g. case mg_running g k of
         None \<Rightarrow> g\<lparr>mg_running := (mg_running g)(k \<mapsto> i)\<rparr>
       | Some j \<Rightarrow> g\<lparr>mg_joined := (mg_joined g)(i \<mapsto> j), mg_dups := j # mg_dups g\<rparr>),
     sf_leave = (\<lambda>i k out g. g\<lparr>mg_running := (mg_running g)(k := None), mg_result := (mg_result g)(i \<mapsto> out)\<rparr>),
     sf_running = mg_running, sf_joined = mg_joined, sf_result = mg_result,
     sf_shared = (\<lambda>g i. mg_joined g i \<noteq> None \<or> i \<in> set (mg_dups g))\<rparr>"

definition map_group0 :: map_group where
  "map_group0 = \<lparr>mg_running = Map.empty, mg_joined = Map.empty, mg_result = Map.empty, mg_dups = []\<rparr>"

lemma map_sf_ok: "sf_ok map_sf" "sf_idle map_sf map_group0"
  by (auto simp: sf_ok_def sf_idle_def map_sf_def map_group0_def split: option.splits)

lemma map_sf_alone:
  "sf_running map_sf map_group0 k = None"
  "\<not> sf_shared map_sf (sf_leave map_sf i k out (sf_enter map_sf i k map_group0)) i"
  by (simp_all add: map_sf_def map_group0_def)

lemma sample_conc_deps: "conc_deps sample_deps"
  using pool_free [of "[NewUDPClient sample_lib ''192.0.2.53:53'' time_Second]" True]
    udp_free.cache_free_axioms [of sample_lib "''192.0.2.53:53''" time_Second]
  by (simp add: conc_deps_def sample_deps_def NewPool_def NewUDPClient_def)

definition sample_query :: query where
  "sample_query = \<lparr>qy_ctx = Background, qy_w = \<lparr>rw_RemoteAddr = None, rw_LocalNetwork = None\<rparr>, qy_req = sample_req\<rparr>"

text \<open>Two clients asking the same question, the second under another ID and in another spelling;
  none of them has acted yet.\<close>

definition other_query :: query where
  "other_query = sample_query\<lparr>qy_req := sample_req\<lparr>msg_ID := 77,
     msg_Question := [sample_rr\<lparr>rr_Name := ''A.EXAMPLE.''\<rparr>]\<rparr>\<rparr>"

definition sample_st :: "unit st" where
  "sample_st = init_st int 4 (NewMatcher []) ()"

definition two_queries :: "(unit, map_group) conc" where
  "two_queries = \<lparr>cn_st = sample_st, cn_grp = map_group0,
     cn_qs = [(sample_query, AtMetrics), (other_query, AtMetrics)]\<rparr>"

lemma two_reach: "conc_reach sample_deps map_sf B sample_st map_group0 two_queries"
proof -
  let ?y = "conc_init sample_st map_group0"
  let ?z = "?y\<lparr>cn_qs := cn_qs ?y @ [(sample_query, AtMetrics)]\<rparr>"
  have "conc_step sample_deps map_sf B ?y ?z" by (rule step_arrive)
  moreover have "conc_step sample_deps map_sf B ?z (?z\<lparr>cn_qs := cn_qs ?z @ [(other_query, AtMetrics)]\<rparr>)"
    by (rule step_arrive)
  moreover have "?z\<lparr>cn_qs := cn_qs ?z @ [(other_query, AtMetrics)]\<rparr> = two_queries"
    by (simp add: conc_init_def two_queries_def)
  ultimately show ?thesis unfolding conc_reach_def
    by (metis converse_rtranclp_into_rtranclp rtranclp.rtrancl_refl)
qed

lemma sample_unmatched: "\<not> Match (NewMatcher []) n"
  by (simp add: mt.matches_iff)

text \<open>The first of two clients runs to its answer.\<close>

lemma first_answered:
  "\<exists>m s' g'. conc_reach sample_deps map_sf B sample_st map_group0
     \<lparr>cn_st = s', cn_grp = g', cn_qs = [(sample_query, Answered m), (other_query, AtMetrics)]\<rparr>"
proof -
  obtain m s' where "ServeDNS (Build (alone sample_deps)) (qy_ctx sample_query) (qy_w sample_query)
      (qy_req sample_query) sample_st = (m, s')" by fastforce
  from lone_run [OF map_sf_ok(1) map_sf_alone(1) map_sf_alone(2) this] obtain g' where
    "(q_next sample_deps map_sf 0 sample_query)\<^sup>*\<^sup>*
      (AtMetrics, cn_st two_queries, cn_grp two_queries) (Answered m, s', g')"
    by (auto simp: two_queries_def)
  from conc_lift [OF this] conc_reach_acts [OF two_reach] show ?thesis
    by (fastforce simp: two_queries_def)
qed

text \<open>The two clients at the same time: the exchange of the first is in flight, the second has
  met it in the group.\<close>

lemma enter_run:
  assumes q: "msg_Question (qy_req y) = [q]" and h: "Current (st_holder s) = Some bl" "\<not> Match bl (rr_Name q)"
    and c: "\<forall>k t. Get (st_lru s) k t = (None, st_lru s)"
  shows "\<exists>l s'. (q_next d G i y)\<^sup>*\<^sup>* (AtMetrics, s, g) (AtEnter l, s', g)
    \<and> st_holder s' = st_holder s \<and> st_lru s' = st_lru s"
proof -
  let ?n = "q_next d G i y" and ?s = "marked_st s"
  let ?c = "marked_ctx (withClientInfoFromWriter (qy_ctx y) (qy_w y)) s"
  let ?start = "\<lparr>lc_ctx = ?c, lc_start = now s, lc_qstart = 0\<rparr>"
  obtain l s1 where l: "?n (AtLog ?start, ?s, g) (AtBlock l, s1, g)" "s1 = ?s \<or> s1 = ticked ?s"
    by (cases "d_QueryLog d") (auto simp: q_next_def q_step_def Let_def time_Now_def)
  then have k: "st_holder s1 = st_holder s" "st_lru s1 = st_lru s" by auto
  let ?t = "recordLookup (d_Metrics d) ''miss'' ((ticked s1)\<lparr>st_lru := st_lru s1\<rparr>)"
  have "?n (AtMetrics, s, g) (AtLog ?start, ?s, g)" by (simp add: q_next_def q_step_metrics)
  moreover have "?n (AtBlock l, s1, g) (AtLookup l, s1, g)"
    using q h k by (simp add: q_next_def q_step_def)
  moreover have "?n (AtLookup l, s1, g) (AtEnter l, ?t, g)"
    using c k by (simp add: q_next_def q_step_def time_Now_def Let_def)
  ultimately have "?n\<^sup>*\<^sup>* (AtMetrics, s, g) (AtEnter l, ?t, g)"
    using l(1) by (meson converse_rtranclp_into_rtranclp rtranclp.rtrancl_refl)
  moreover have "st_holder ?t = st_holder s" "st_lru ?t = st_lru s" using k by (simp_all add: recordLookup_def)
  ultimately show ?thesis by blast
qed

lemma other_spelling: "ToLower ''A.EXAMPLE.'' = ToLower ''a.example.''"
  by (simp add: ToLower_def is_ascii_def lower_char_def ascii_lower_def)

lemma both_in_group:
  "\<exists>l l' s'. conc_reach sample_deps map_sf B sample_st map_group0
     \<lparr>cn_st = s', cn_grp = map_group0\<lparr>mg_running := [Key sample_rr \<mapsto> 0], mg_joined := [1 \<mapsto> 0], mg_dups := [0]\<rparr>,
      cn_qs = [(sample_query, AtExchange l), (other_query, AtWait l')]\<rparr>"
proof -
  let ?k = "Key sample_rr" and ?g1 = "map_group0\<lparr>mg_running := [Key sample_rr \<mapsto> 0]\<rparr>"
  have q: "msg_Question (qy_req sample_query) = [sample_rr]"
    "msg_Question (qy_req other_query) = [sample_rr\<lparr>rr_Name := ''A.EXAMPLE.''\<rparr>]"
    by (simp_all add: sample_query_def other_query_def sample_req_def)
  have key: "Key (sample_rr\<lparr>rr_Name := ''A.EXAMPLE.''\<rparr>) = ?k"
    by (simp add: Key_eq_iff same_question_def sample_rr_def other_spelling RRToType_def)
  have c: "\<forall>k t. Get (st_lru sample_st) k t = (None, st_lru sample_st)"
    by (simp add: sample_st_def init_st_def SetObserver_def NewLRU_def new_lru_def Get_def lru_find_def)
  have h: "Current (st_holder sample_st) = Some (NewMatcher [])" by (simp add: sample_st_def sample_holder)
  obtain l s1 where r1: "(q_next sample_deps map_sf 0 sample_query)\<^sup>*\<^sup>* (AtMetrics, sample_st, map_group0) (AtEnter l, s1, map_group0)"
    "st_holder s1 = st_holder sample_st" "st_lru s1 = st_lru sample_st"
    using enter_run [OF q(1) h sample_unmatched c, of sample_deps map_sf 0 map_group0] by blast
  obtain l' s2 where r2: "(q_next sample_deps map_sf 1 other_query)\<^sup>*\<^sup>* (AtMetrics, s1, ?g1) (AtEnter l', s2, ?g1)"
    using enter_run [OF q(2), of s1 "NewMatcher []" sample_deps map_sf 1 ?g1] h c r1(2,3) sample_unmatched by auto
  have "q_next sample_deps map_sf 0 sample_query (AtEnter l, s1, map_group0) (AtExchange l, s1, ?g1)"
    using q(1) by (simp add: q_next_def q_step_def Let_def map_sf_def map_group0_def)
  with r1(1) have a: "(q_next sample_deps map_sf 0 sample_query)\<^sup>*\<^sup>* (AtMetrics, cn_st two_queries, cn_grp two_queries)
      (AtExchange l, s1, ?g1)" by (simp add: two_queries_def)
  let ?y = "\<lparr>cn_st = s1, cn_grp = ?g1, cn_qs = [(sample_query, AtExchange l), (other_query, AtMetrics)]\<rparr>"
  have y: "conc_reach sample_deps map_sf B sample_st map_group0 ?y"
    using conc_reach_acts [OF two_reach conc_lift [OF a]] by (simp add: two_queries_def)
  have "q_next sample_deps map_sf 1 other_query (AtEnter l', s2, ?g1)
      (AtWait l', s2, ?g1\<lparr>mg_joined := [1 \<mapsto> 0], mg_dups := [0]\<rparr>)"
    using q(2) key by (simp add: q_next_def q_step_def Let_def map_sf_def map_group0_def)
  with r2 have b: "(q_next sample_deps map_sf 1 other_query)\<^sup>*\<^sup>* (AtMetrics, cn_st ?y, cn_grp ?y)
      (AtWait l', s2, ?g1\<lparr>mg_joined := [1 \<mapsto> 0], mg_dups := [0]\<rparr>)" by simp
  show ?thesis using conc_reach_acts [OF y conc_lift [OF b]] by (auto intro!: exI)
qed

text \<open>A genuine answer to one question is the caller's own.\<close>

lemma genuine_single:
  "genuine d B req x \<Longrightarrow> single req \<Longrightarrow> msg_ID x = msg_ID req \<and> msg_Data x = None"
  by (auto simp: genuine_def decrementTTLs_def CloneMsg_def)

section \<open>Properties\<close>

text \<open>Any number of concurrent queries, interleaved in any way with each other and with reloads
  of the blocklist: the cache stays well formed and within its capacity, and the query counters
  over the bounded label set add up to exactly the number of queries that have been answered.\<close>

theorem concurrent_queries_safe:
  assumes "conc_deps d" and "sf_ok G" and "sf_idle G g" and "bl \<in> B"
    and "conc_reach d G B (init_st clk cap bl net) g y"
  shows "lru_inv (st_lru (cn_st y)) \<and> int (Len (st_lru (cn_st y))) \<le> max 1 cap
    \<and> queries_counted (cn_st y) = length (filter (\<lambda>x. is_answered (snd x)) (cn_qs y))"
  using conc_reach_inv [OF assms] lru_invD(3) [of "st_lru (cn_st y)"]
  by (auto simp: conc_inv_def cache_ok_def Len_def)

theorem concurrent_queries_safe_witness:
  "\<exists>m s' g'. conc_reach sample_deps map_sf UNIV sample_st map_group0
       \<lparr>cn_st = s', cn_grp = g', cn_qs = [(sample_query, Answered m), (other_query, AtMetrics)]\<rparr>
     \<and> queries_counted s' = 1 \<and> Len (st_lru s') \<le> 4"
proof -
  obtain m s' g' where r: "conc_reach sample_deps map_sf UNIV sample_st map_group0
      \<lparr>cn_st = s', cn_grp = g', cn_qs = [(sample_query, Answered m), (other_query, AtMetrics)]\<rparr>"
    using first_answered by blast
  show ?thesis
    using concurrent_queries_safe [OF sample_conc_deps map_sf_ok _ r [unfolded sample_st_def]] r
    by (fastforce simp: is_answered_def)
qed

text \<open>Every answer under concurrency is genuine: a client gets SERVFAIL, NXDOMAIN for a name that
  one of the blocklists installed so far covers, or a copy of what an upstream answered to the same
  question (its own exchange, the exchange of another client it was coalesced with, or an aged
  copy from the cache), and a query with one question gets its own ID and no packed buffer.\<close>

theorem concurrent_answers_genuine:
  assumes "conc_deps d" and "sf_ok G" and "sf_idle G g" and "bl \<in> B"
    and "conc_reach d G B (init_st clk cap bl net) g y" and "(q, Answered m) \<in> set (cn_qs y)"
  shows "\<exists>x. m = Ret x \<and> genuine d B (qy_req q) x
    \<and> (single (qy_req q) \<longrightarrow> msg_ID x = msg_ID (qy_req q) \<and> msg_Data x = None)"
proof -
  have "q_ok d B (qy_req q) (Answered m)"
    using conc_reach_inv [OF assms(1-5)] assms(6) by (fastforce simp: conc_inv_def)
  then obtain x where "m = Ret x" "genuine d B (qy_req q) x" by (auto simp: q_ok_def)
  then show ?thesis using genuine_single by blast
qed

theorem concurrent_answers_genuine_witness:
  "\<exists>m g' s'. genuine sample_deps UNIV sample_req m \<and> msg_ID m = msg_ID sample_req
     \<and> conc_reach sample_deps map_sf UNIV sample_st map_group0
         \<lparr>cn_st = s', cn_grp = g', cn_qs = [(sample_query, Answered (Ret m)), (other_query, AtMetrics)]\<rparr>"
proof -
  obtain m s' g' where r: "conc_reach sample_deps map_sf UNIV sample_st map_group0
      \<lparr>cn_st = s', cn_grp = g', cn_qs = [(sample_query, Answered m), (other_query, AtMetrics)]\<rparr>"
    using first_answered by blast
  show ?thesis
    using concurrent_answers_genuine [OF sample_conc_deps map_sf_ok _ r [unfolded sample_st_def],
        of sample_query m] sample_q r
    by (auto simp: sample_query_def)
qed

text \<open>C13: Coalescing goes by the question, that is by the name in any spelling, the type and the
  class, and by nothing else of a request: while the exchange of one query is in flight, or its
  result is not yet in the group, no other query for the same question has an exchange in flight
  or can begin one; a query that waits does so for another query that asked the same question and
  is executing or has left its result; and what it then goes on with is what an upstream answered
  to that question.\<close>

theorem one_exchange_per_question:
  assumes "conc_deps d" and "sf_ok G" and "sf_idle G g" and "bl \<in> B"
    and "conc_reach d G B (init_st clk cap bl net) g y" and "asks (cn_qs y) j b"
  shows "(\<forall>i a. asks (cn_qs y) i a \<and> i \<noteq> j \<and> same_question a b \<and> executing (snd (cn_qs y ! i)) \<longrightarrow>
      \<not> executing (snd (cn_qs y ! j))
      \<and> (\<forall>p' s' g'. q_step d G j (fst (cn_qs y ! j)) (snd (cn_qs y ! j), cn_st y, cn_grp y) = Some (p', s', g')
           \<longrightarrow> \<not> executing p'))
    \<and> (\<forall>l. snd (cn_qs y ! j) = AtWait l \<longrightarrow>
      (\<exists>k a. sf_joined G (cn_grp y) j = Some k \<and> k \<noteq> j \<and> asks (cn_qs y) k a \<and> same_question a b
         \<and> (executing (snd (cn_qs y ! k)) \<or> sf_result G (cn_grp y) k \<noteq> None)))
    \<and> (\<forall>l p' s' g'. snd (cn_qs y ! j) = AtWait l \<and>
      q_step d G j (fst (cn_qs y ! j)) (snd (cn_qs y ! j), cn_st y, cn_grp y) = Some (p', s', g') \<longrightarrow>
      (\<exists>out sh c req a s. p' = AtStamp l out sh \<and> msg_Question req = [a] \<and> same_question a b
         \<and> out = fst (forward_Resolve (u_Exchange (d_Upstream d)) c req s)))"
  using coalesced [OF conc_reach_inv [OF assms(1-5)] assms(2,6)] by blast

theorem one_exchange_per_question_witness:
  "\<exists>l l' s' g'. conc_reach sample_deps map_sf UNIV sample_st map_group0
     \<lparr>cn_st = s', cn_grp = g', cn_qs = [(sample_query, AtExchange l), (other_query, AtWait l')]\<rparr>
     \<and> msg_ID (qy_req other_query) \<noteq> msg_ID (qy_req sample_query)
     \<and> sf_joined map_sf g' 1 = Some 0
     \<and> (\<nexists>l'' s'' g''. q_step sample_deps map_sf 1 other_query (AtWait l', s', g') = Some (AtExchange l'', s'', g''))"
proof -
  let ?q = "sample_rr\<lparr>rr_Name := ''A.EXAMPLE.''\<rparr>"
  obtain l l' s' where r: "conc_reach sample_deps map_sf UNIV sample_st map_group0
      \<lparr>cn_st = s', cn_grp = map_group0\<lparr>mg_running := [Key sample_rr \<mapsto> 0], mg_joined := [1 \<mapsto> 0], mg_dups := [0]\<rparr>,
       cn_qs = [(sample_query, AtExchange l), (other_query, AtWait l')]\<rparr>" (is "conc_reach _ _ _ _ _ ?y")
    using both_in_group by blast
  have a: "asks (cn_qs ?y) 0 sample_rr" "asks (cn_qs ?y) 1 ?q" "same_question sample_rr ?q"
    by (simp_all add: asks_def sample_query_def other_query_def sample_req_def same_question_def
        sample_rr_def other_spelling RRToType_def)
  have "\<not> executing p'" if "q_step sample_deps map_sf 1 other_query (AtWait l', s', cn_grp ?y) = Some (p', s'', g'')"
    for p' s'' g''
    using one_exchange_per_question [OF sample_conc_deps map_sf_ok UNIV_I r [unfolded sample_st_def] a(2)]
      a(1,3) that by fastforce
  then have "\<nexists>l'' s'' g''. q_step sample_deps map_sf 1 other_query (AtWait l', s', cn_grp ?y) = Some (AtExchange l'', s'', g'')"
    by fastforce
  moreover have "sf_joined map_sf (cn_grp ?y) 1 = Some 0" by (simp add: map_sf_def)
  moreover have "msg_ID (qy_req other_query) \<noteq> msg_ID (qy_req sample_query)"
    by (simp add: other_query_def sample_query_def sample_req_def)
  ultimately show ?thesis using r by auto
qed

text \<open>C5: Every concurrent query is answered: no interleaving of the queries in flight is longer
  than eleven actions per query, and none ends with a query waiting (in particular nobody waits
  for ever for a coalesced exchange).\<close>

theorem concurrent_queries_finish:
  assumes "conc_deps d" and "sf_ok G" and "sf_idle G g" and "bl \<in> B"
    and "conc_reach d G B (init_st clk cap bl net) g y" and "(conc_act d G ^^ n) y y'"
  shows "n \<le> 11 * length (cn_qs y)
    \<and> ((\<nexists>y''. conc_act d G y' y'') \<longrightarrow> (\<forall>x \<in> set (cn_qs y'). is_answered (snd x)))"
proof -
  have "n \<le> 11 * length (cn_qs y)" using conc_acts_work [OF assms(6)] work_left_le [of y] by linarith
  then show ?thesis
    using conc_progress [OF conc_reach_inv [OF assms(1-4) conc_reach_acts [OF assms(5) relpowp_imp_rtranclp [OF assms(6)]]]] by blast
qed

theorem concurrent_queries_finish_witness:
  "\<not> (\<exists>y. (conc_act sample_deps map_sf ^^ 23) two_queries y)"
  using concurrent_queries_finish [OF sample_conc_deps map_sf_ok, of "NewMatcher []" UNIV int 4 "()" two_queries 23]
    two_reach [unfolded sample_st_def]
  by (auto simp: two_queries_def)

text \<open>The actions are those of the chain: a query that meets no other query for its question
  ends with exactly the answer and the state of the sequential handler over \<open>Build\<close>.\<close>

theorem lone_query_runs_ServeDNS:
  assumes "sf_ok G" and "sf_running G g (q_key (qy_req y)) = None"
    and "\<And>out. \<not> sf_shared G (sf_leave G i (q_key (qy_req y)) out (sf_enter G i (q_key (qy_req y)) g)) i"
    and "ServeDNS (Build (alone d)) (qy_ctx y) (qy_w y) (qy_req y) s = (m, s')"
  shows "\<exists>g'. (q_next d G i y)\<^sup>*\<^sup>* (AtMetrics, s, g) (Answered m, s', g')"
  by (rule lone_run [OF assms])

theorem lone_query_runs_ServeDNS_witness:
  "\<exists>m s' g'. (q_next sample_deps map_sf 0 sample_query)\<^sup>*\<^sup>* (AtMetrics, sample_st, map_group0) (Answered m, s', g')
     \<and> ServeDNS (Build (alone sample_deps)) Background \<lparr>rw_RemoteAddr = None, rw_LocalNetwork = None\<rparr>
         sample_req sample_st = (m, s')"
proof -
  obtain m s' where "ServeDNS (Build (alone sample_deps)) (qy_ctx sample_query) (qy_w sample_query)
      (qy_req sample_query) sample_st = (m, s')" by fastforce
  with lone_query_runs_ServeDNS [OF map_sf_ok(1) map_sf_alone(1) map_sf_alone(2) this] show ?thesis
    by (auto simp: sample_query_def)
qed

end
