(* ===== verification/Blocklist_Store.thy ===== *)
theory Blocklist_Store
  imports Blocklist_Matcher "HOL-Library.AList" "HOL-Library.Char_ord" "HOL-Library.List_Lexorder"
begin

text \<open>
  The on-disk cache of fetched blocklists (\<open>internal/blocklist/cache_store.go\<close>). The cache
  directory is an association list from file names to contents. Every operating-system call may
  fail: a fault oracle, indexed by the number of calls made so far, decides; a failing write leaves
  a prefix of the data behind. Every change of the directory is recorded in a history, so that
  what another reader could see at any moment can be stated. Syncing is a call that may fail; which
  changes survive a loss of power is not part of the model.
  The hash and the JSON codec are parameters.
\<close>

section \<open>The directory\<close>

record fsys =
  fs_exists :: bool
  fs_files :: "(string \<times> string) list"
  fs_hist :: "(string \<times> string) list list"
  fs_calls :: nat
  fs_fault :: "nat \<Rightarrow> goerror option"
  fs_partial :: "nat \<Rightarrow> nat"

text \<open>One call: the fault of this call, if any, and the state after counting it.\<close>

definition sys_call :: "fsys \<Rightarrow> goerror option \<times> fsys" where
  "sys_call f = (fs_fault f (fs_calls f), f\<lparr>fs_calls := Suc (fs_calls f)\<rparr>)"

definition set_files :: "(string \<times> string) list \<Rightarrow> fsys \<Rightarrow> fsys" where
  "set_files fl f = f\<lparr>fs_files := fl, fs_hist := fs_hist f @ [fl]\<rparr>"

definition os_ReadFile :: "string \<Rightarrow> fsys \<Rightarrow> (goerror + string) \<times> fsys" where
  "os_ReadFile name f =
     (case sys_call f of
        (Some e, f') \<Rightarrow> (Inl e, f')
      | (None, f') \<Rightarrow>
          (case map_of (fs_files f') name of
             None \<Rightarrow> (Inl (ErrSentinel ErrNotExist), f')
           | Some data \<Rightarrow> (Inr data, f')))"

text \<open>The names in the directory, sorted.\<close>

definition os_ReadDir :: "fsys \<Rightarrow> (goerror + string list) \<times> fsys" where
  "os_ReadDir f =
     (case sys_call f of
        (Some e, f') \<Rightarrow> (Inl e, f')
      | (None, f') \<Rightarrow>
          (if \<not> fs_exists f' then Inl (ErrSentinel ErrNotExist) else Inr (sort (map fst (fs_files f'))), f'))"

definition os_MkdirAll :: "fsys \<Rightarrow> goerror option \<times> fsys" where
  "os_MkdirAll f =
     (case sys_call f of (Some e, f') \<Rightarrow> (Some e, f') | (None, f') \<Rightarrow> (None, f'\<lparr>fs_exists := True\<rparr>))"

definition os_Create :: "string \<Rightarrow> fsys \<Rightarrow> goerror option \<times> fsys" where
  "os_Create name f =
     (case sys_call f of
        (Some e, f') \<Rightarrow> (Some e, f')
      | (None, f') \<Rightarrow> (None, set_files (AList.update name [] (fs_files f')) f'))"

definition file_Write :: "string \<Rightarrow> string \<Rightarrow> fsys \<Rightarrow> goerror option \<times> fsys" where
  "file_Write name data f =
     (case sys_call f of
        (Some e, f') \<Rightarrow>
          (Some e, set_files (AList.update name (take (fs_partial f (fs_calls f)) data) (fs_files f')) f')
      | (None, f') \<Rightarrow> (None, set_files (AList.update name data (fs_files f')) f'))"

definition os_Remove :: "string \<Rightarrow> fsys \<Rightarrow> goerror option \<times> fsys" where
  "os_Remove name f =
     (case sys_call f of
        (Some e, f') \<Rightarrow> (Some e, f')
      | (None, f') \<Rightarrow>
          (case map_of (fs_files f') name of
             None \<Rightarrow> (Some (ErrSentinel ErrNotExist), f')
           | Some _ \<Rightarrow> (None, set_files (AList.delete name (fs_files f')) f')))"

definition os_Rename :: "string \<Rightarrow> string \<Rightarrow> fsys \<Rightarrow> goerror option \<times> fsys" where
  "os_Rename old new f =
     (case sys_call f of
        (Some e, f') \<Rightarrow> (Some e, f')
      | (None, f') \<Rightarrow>
          (case map_of (fs_files f') old of
             None \<Rightarrow> (Some (ErrSentinel ErrNotExist), f')
           | Some data \<Rightarrow>
               (None, set_files (AList.update new data (AList.delete old (fs_files f'))) f')))"

section \<open>Atomic writes\<close>

definition writeFileAtomic :: "string \<Rightarrow> string \<Rightarrow> fsys \<Rightarrow> goerror option \<times> fsys" where
  "writeFileAtomic path data f =
     (let tmp = path @ ''.tmp'' in
      case os_Create tmp f of
        (Some e, f1) \<Rightarrow> (Some e, f1)
      | (None, f1) \<Rightarrow>
          (case file_Write tmp data f1 of
             (Some e, f2) \<Rightarrow> (Some e, snd (os_Remove tmp (snd (sys_call f2))))
           | (None, f2) \<Rightarrow>
               (case sys_call f2 of
                  (Some e, f3) \<Rightarrow> (Some e, snd (os_Remove tmp (snd (sys_call f3))))
                | (None, f3) \<Rightarrow>
                    (case sys_call f3 of
                       (Some e, f4) \<Rightarrow> (Some e, snd (os_Remove tmp f4))
                     | (None, f4) \<Rightarrow> os_Rename tmp path f4))))"

section \<open>The store\<close>

record CacheMeta =
  mt_URL :: string
  mt_ETag :: string
  mt_LastModified :: string
  mt_FetchedAt :: int
  mt_Bytes :: int
  mt_Entries :: int

definition zero_meta :: CacheMeta where
  "zero_meta = \<lparr>mt_URL = [], mt_ETag = [], mt_LastModified = [], mt_FetchedAt = 0, mt_Bytes = 0,
     mt_Entries = 0\<rparr>"

text \<open>\<open>json_Unmarshal\<close> is the value of the zero-initialised struct after the call, whatever the
  error.\<close>

record codec =
  sha256 :: "string \<Rightarrow> string"
  json_Marshal :: "CacheMeta \<Rightarrow> goerror + string"
  json_Unmarshal :: "string \<Rightarrow> CacheMeta"

definition hex_digits :: string where "hex_digits = ''0123456789abcdef''"

definition hex_EncodeToString :: "string \<Rightarrow> string" where
  "hex_EncodeToString bs =
     concat (map (\<lambda>b. [hex_digits ! (byte b div 16), hex_digits ! (byte b mod 16)]) bs)"

definition hex_DecodeString_ok :: "string \<Rightarrow> bool" where
  "hex_DecodeString_ok s \<longleftrightarrow>
     even (length s) \<and> list_all (\<lambda>c. c \<in> set ''0123456789abcdefABCDEF'') s"

definition CacheKey :: "codec \<Rightarrow> string \<Rightarrow> string" where
  "CacheKey K u = hex_EncodeToString (sha256 K u)"

definition bodyPath :: "codec \<Rightarrow> string \<Rightarrow> string" where
  "bodyPath K u = CacheKey K u @ ''.txt''"

definition metaPath :: "codec \<Rightarrow> string \<Rightarrow> string" where
  "metaPath K u = CacheKey K u @ ''.meta.json''"

definition ReadMeta :: "codec \<Rightarrow> string \<Rightarrow> fsys \<Rightarrow> (CacheMeta \<times> goerror option) \<times> fsys" where
  "ReadMeta K u f =
     (case os_ReadFile (metaPath K u) f of
        (Inl e, f') \<Rightarrow>
          if errors_Is e ErrNotExist then ((zero_meta, None), f')
          else ((zero_meta, Some (ErrWrap ''read cache meta'' e)), f')
      | (Inr raw, f') \<Rightarrow> ((json_Unmarshal K raw, None), f'))"

definition store_Read :: "codec \<Rightarrow> string \<Rightarrow> fsys \<Rightarrow> (goerror + string \<times> CacheMeta) \<times> fsys" where
  "store_Read K u f =
     (case os_ReadFile (bodyPath K u) f of
        (Inl e, f') \<Rightarrow>
          if errors_Is e ErrNotExist then (Inl (ErrSentinel ErrCacheMiss), f')
          else (Inl (ErrWrap ''read cache body'' e), f')
      | (Inr body, f') \<Rightarrow>
          (case ReadMeta K u f' of ((meta, _), f'') \<Rightarrow> (Inr (body, meta), f'')))"

text \<open>The directory is opened, synced and closed after a write; errors of these calls are dropped.\<close>

definition sync_dir :: "fsys \<Rightarrow> fsys" where
  "sync_dir f =
     (case sys_call f of
        (Some _, f1) \<Rightarrow> f1
      | (None, f1) \<Rightarrow> snd (sys_call (snd (sys_call f1))))"

definition store_Write :: "codec \<Rightarrow> string \<Rightarrow> string \<Rightarrow> CacheMeta \<Rightarrow> fsys \<Rightarrow> goerror option \<times> fsys" where
  "store_Write K u body meta f =
     (case os_MkdirAll f of
        (Some e, f1) \<Rightarrow> (Some (ErrWrap ''mkdir cache_dir'' e), f1)
      | (None, f1) \<Rightarrow>
          (case writeFileAtomic (bodyPath K u) body f1 of
             (Some e, f2) \<Rightarrow> (Some (ErrWrap ''write body'' e), f2)
           | (None, f2) \<Rightarrow>
               (case json_Marshal K meta of
                  Inl e \<Rightarrow> (Some (ErrWrap ''marshal meta'' e), f2)
                | Inr metaJSON \<Rightarrow>
                    (case writeFileAtomic (metaPath K u) metaJSON f2 of
                       (Some e, f3) \<Rightarrow> (Some (ErrWrap ''write meta'' e), f3)
                     | (None, f3) \<Rightarrow> (None, sync_dir f3)))))"

definition sha256_Size :: nat where "sha256_Size = 32"

fun cache_suffix :: "string list \<Rightarrow> string \<Rightarrow> bool" where
  "cache_suffix [] name = False"
| "cache_suffix (suf # sufs) name =
     (case CutSuffix name suf of
        (stem, ok) \<Rightarrow>
          if \<not> ok then cache_suffix sufs name
          else if length stem \<noteq> sha256_Size * 2 then False
          else hex_DecodeString_ok stem)"

definition isCacheFilename :: "string \<Rightarrow> bool" where
  "isCacheFilename name = cache_suffix [''.txt'', ''.meta.json'', ''.txt.tmp'', ''.meta.json.tmp''] name"

definition keepSet :: "codec \<Rightarrow> string list \<Rightarrow> string set" where
  "keepSet K keep = (bodyPath K) ` set keep \<union> (metaPath K) ` set keep"

fun sweep_loop :: "string set \<Rightarrow> string list \<Rightarrow> nat \<Rightarrow> fsys \<Rightarrow> (nat \<times> goerror option) \<times> fsys" where
  "sweep_loop ks [] removed f = ((removed, None), f)"
| "sweep_loop ks (name # names) removed f =
     (if name \<in> ks then sweep_loop ks names removed f
      else if \<not> isCacheFilename name then sweep_loop ks names removed f
      else case os_Remove name f of
          (Some e, f') \<Rightarrow> ((removed, Some (ErrWrap (''remove orphan '' @ name) e)), f')
        | (None, f') \<Rightarrow> sweep_loop ks names (Suc removed) f')"

definition Sweep :: "codec \<Rightarrow> string list \<Rightarrow> fsys \<Rightarrow> (nat \<times> goerror option) \<times> fsys" where
  "Sweep K keep f =
     (case os_ReadDir f of
        (Inl e, f') \<Rightarrow>
          if errors_Is e ErrNotExist then ((0, None), f')
          else ((0, Some (ErrWrap ''read cache_dir'' e)), f')
      | (Inr entries, f') \<Rightarrow> sweep_loop (keepSet K keep) entries 0 f')"

section \<open>What can be seen while an operation runs\<close>

text \<open>\<open>visible Q f f'\<close>: the step from \<open>f\<close> to \<open>f'\<close> keeps \<open>Q\<close> in every directory it
  passes through, if it held at the start.\<close>

definition visible :: "((string \<times> string) list \<Rightarrow> bool) \<Rightarrow> fsys \<Rightarrow> fsys \<Rightarrow> bool" where
  "visible Q f f' \<longleftrightarrow> fs_fault f' = fs_fault f
     \<and> (Q (fs_files f) \<longrightarrow> Q (fs_files f') \<and> (\<exists>h. fs_hist f' = fs_hist f @ h \<and> list_all Q h))"

lemma visible_refl [simp]: "visible Q f f"
  by (simp add: visible_def)

lemma visible_trans: "visible Q f f' \<Longrightarrow> visible Q f' f'' \<Longrightarrow> visible Q f f''"
  by (auto simp: visible_def)

lemma visible_sys_call [simp]: "visible Q f (snd (sys_call f))"
  by (simp add: visible_def sys_call_def)

lemma visible_set_files: "(Q (fs_files f) \<Longrightarrow> Q fl) \<Longrightarrow> visible Q f (set_files fl f)"
  by (simp add: visible_def set_files_def)

lemma sys_call_sel [simp]:
  "fs_files (snd (sys_call f)) = fs_files f" "fs_hist (snd (sys_call f)) = fs_hist f"
  "fs_exists (snd (sys_call f)) = fs_exists f" "fs_fault (snd (sys_call f)) = fs_fault f"
  by (simp_all add: sys_call_def)

lemma sync_dir_sel [simp]:
  "fs_files (sync_dir f) = fs_files f" "fs_hist (sync_dir f) = fs_hist f" "fs_fault (sync_dir f) = fs_fault f"
  by (simp_all add: sync_dir_def sys_call_def split: option.splits)

lemma visible_sync_dir: "visible Q f f' \<Longrightarrow> visible Q f (sync_dir f')"
  by (simp add: visible_def)

lemma set_files_sel [simp]:
  "fs_files (set_files fl f) = fl" "fs_exists (set_files fl f) = fs_exists f"
  "fs_fault (set_files fl f) = fs_fault f"
  by (simp_all add: set_files_def)

abbreviation called :: "fsys \<Rightarrow> fsys" where
  "called f \<equiv> f\<lparr>fs_calls := Suc (fs_calls f)\<rparr>"

abbreviation fault :: "fsys \<Rightarrow> goerror option" where
  "fault f \<equiv> fs_fault f (fs_calls f)"

lemma os_eqs:
  "os_Create n f = (case fault f of Some e \<Rightarrow> (Some e, called f)
     | None \<Rightarrow> (None, set_files (AList.update n [] (fs_files f)) (called f)))"
  "file_Write n d f = (case fault f of
       Some e \<Rightarrow> (Some e, set_files (AList.update n (take (fs_partial f (fs_calls f)) d) (fs_files f)) (called f))
     | None \<Rightarrow> (None, set_files (AList.update n d (fs_files f)) (called f)))"
  "os_Remove n f = (case fault f of Some e \<Rightarrow> (Some e, called f)
     | None \<Rightarrow> (case map_of (fs_files f) n of None \<Rightarrow> (Some (ErrSentinel ErrNotExist), called f)
         | Some _ \<Rightarrow> (None, set_files (AList.delete n (fs_files f)) (called f))))"
  "os_Rename o' n f = (case fault f of Some e \<Rightarrow> (Some e, called f)
     | None \<Rightarrow> (case map_of (fs_files f) o' of None \<Rightarrow> (Some (ErrSentinel ErrNotExist), called f)
         | Some d \<Rightarrow> (None, set_files (AList.update n d (AList.delete o' (fs_files f))) (called f))))"
  "os_ReadFile n f = (case fault f of Some e \<Rightarrow> (Inl e, called f)
     | None \<Rightarrow> (case map_of (fs_files f) n of None \<Rightarrow> (Inl (ErrSentinel ErrNotExist), called f)
         | Some d \<Rightarrow> (Inr d, called f)))"
  by (simp_all add: os_Create_def file_Write_def os_Remove_def os_Rename_def os_ReadFile_def
      sys_call_def split: option.splits)

lemma visible_called [simp]: "visible Q f (called f)"
  by (simp add: visible_def)

text \<open>A property of directories that does not depend on the file \<open>n\<close>.\<close>

definition ignores :: "string \<Rightarrow> ((string \<times> string) list \<Rightarrow> bool) \<Rightarrow> bool" where
  "ignores n Q \<longleftrightarrow> (\<forall>fl v. Q fl \<longrightarrow> Q (AList.update n v fl)) \<and> (\<forall>fl. Q fl \<longrightarrow> Q (AList.delete n fl))"

lemma visible_ignored:
  assumes "ignores n Q"
  shows "visible Q f (snd (os_Create n f))" "visible Q f (snd (file_Write n d f))"
    "visible Q f (snd (os_Remove n f))"
  using assms
  by (auto simp: ignores_def os_eqs visible_def set_files_def split: option.splits)

lemma visible_Rename:
  assumes "map_of (fs_files f) o' = Some d"
    and "Q (fs_files f) \<Longrightarrow> Q (AList.update n d (AList.delete o' (fs_files f)))"
  shows "visible Q f (snd (os_Rename o' n f))"
  using assms by (auto simp: os_eqs visible_def set_files_def split: option.splits)

text \<open>The phases of an atomic write up to the rename.\<close>

lemma writeFileAtomic_cases:
  obtains
    (failed) e f' where "writeFileAtomic path data f = (Some e, f')"
      "\<And>Q. ignores (path @ ''.tmp'') Q \<Longrightarrow> visible Q f f'"
  | (renamed) f4 where "writeFileAtomic path data f = os_Rename (path @ ''.tmp'') path f4"
      "map_of (fs_files f4) = (map_of (fs_files f))(path @ ''.tmp'' \<mapsto> data)"
      "\<And>Q. ignores (path @ ''.tmp'') Q \<Longrightarrow> visible Q f f4"
proof -
  let ?tmp = "path @ ''.tmp''"
  obtain e1 f1 where c: "os_Create ?tmp f = (e1, f1)" by fastforce
  obtain e2 f2 where w: "file_Write ?tmp data f1 = (e2, f2)" by fastforce
  have v1: "visible Q f f1" if "ignores ?tmp Q" for Q
    using visible_ignored(1) [OF that, of f] c by simp
  have v2: "visible Q f f2" if "ignores ?tmp Q" for Q
    using visible_trans [OF v1 [OF that] visible_ignored(2) [OF that]] w by (metis snd_conv)
  have v3: "visible Q f (called f2)" "visible Q f (called (called f2))" if "ignores ?tmp Q" for Q
    using visible_trans [OF v2 [OF that] visible_called]
      visible_trans [OF visible_trans [OF v2 [OF that] visible_called] visible_called] by simp_all
  have rm: "visible Q f (snd (os_Remove ?tmp g))" if "ignores ?tmp Q" "visible Q f g" for Q g
    by (rule visible_trans [OF that(2) visible_ignored(3) [OF that(1)]])
  consider "e1 \<noteq> None" | "e1 = None" "e2 \<noteq> None" | "e1 = None" "e2 = None" "fault f2 \<noteq> None"
    | "e1 = None" "e2 = None" "fault f2 = None" "fault (called f2) \<noteq> None"
    | "e1 = None" "e2 = None" "fault f2 = None" "fault (called f2) = None" by blast
  then show thesis
  proof cases
    case 1
    then show ?thesis using failed c v1 by (auto simp: writeFileAtomic_def Let_def)
  next
    case 2
    then show ?thesis
      using failed [of "the e2" "snd (os_Remove ?tmp (called f2))"] c w v3(1) rm
      by (auto simp: writeFileAtomic_def Let_def sys_call_def)
  next
    case 3
    then show ?thesis
      using failed [of "the (fault f2)" "snd (os_Remove ?tmp (called (called f2)))"] c w v3(2) rm
      by (auto simp: writeFileAtomic_def Let_def sys_call_def)
  next
    case 4
    then show ?thesis
      using failed [of "the (fault (called f2))" "snd (os_Remove ?tmp (called (called f2)))"] c w v3(2) rm
      by (auto simp: writeFileAtomic_def Let_def sys_call_def)
  next
    case 5
    have "map_of (fs_files f2) = (map_of (fs_files f))(?tmp \<mapsto> data)"
      using c w 5(1,2) by (auto simp: os_eqs update_conv' split: option.splits)
    then show ?thesis
      using renamed [of "called (called f2)"] c w 5 v3(2)
      by (auto simp: writeFileAtomic_def Let_def sys_call_def)
  qed
qed

text \<open>The final content: all or nothing.\<close>

lemma tmp_neq [simp]: "path @ ''.tmp'' \<noteq> path" "path \<noteq> path @ ''.tmp''"
  by simp_all

lemma writeFileAtomic_final:
  assumes "writeFileAtomic path data f = (e, f')"
  shows "e = None \<Longrightarrow> map_of (fs_files f') = (map_of (fs_files f))(path @ ''.tmp'' := None, path \<mapsto> data)"
    and "e \<noteq> None \<Longrightarrow> n \<noteq> path @ ''.tmp'' \<Longrightarrow> map_of (fs_files f') n = map_of (fs_files f) n"
proof -
  let ?tmp = "path @ ''.tmp''"
  let ?Q = "\<lambda>n fl. map_of fl n = map_of (fs_files f) n"
  have ig: "ignores ?tmp (?Q n)" if "n \<noteq> ?tmp" for n
    using that by (simp add: ignores_def update_conv' delete_conv')
  show "map_of (fs_files f') = (map_of (fs_files f))(?tmp := None, path \<mapsto> data)" if "e = None"
    using that assms
    by (cases rule: writeFileAtomic_cases [of path data f])
      (auto simp: os_eqs update_conv' delete_conv' split: option.splits)
  show "map_of (fs_files f') n = map_of (fs_files f) n" if "e \<noteq> None" "n \<noteq> ?tmp"
  proof (cases rule: writeFileAtomic_cases [of path data f])
    case (failed e' g)
    then show ?thesis using failed(2) [OF ig [OF that(2)]] assms by (simp add: visible_def)
  next
    case (renamed f4)
    then show ?thesis
      using renamed(3) [OF ig [OF that(2)]] assms that(1)
      by (auto simp: os_eqs visible_def split: option.splits)
  qed
qed

text \<open>At every moment the target holds its old content or the complete new one, and no file other
  than the target and its temporary file changes.\<close>

definition old_or_new :: "string \<Rightarrow> string \<Rightarrow> (string \<times> string) list \<Rightarrow> (string \<times> string) list \<Rightarrow> bool" where
  "old_or_new path data old fl \<longleftrightarrow>
     map_of fl path \<in> {map_of old path, Some data}
     \<and> (\<forall>n. n \<notin> {path, path @ ''.tmp''} \<longrightarrow> map_of fl n = map_of old n)"

lemma writeFileAtomic_visible:
  "visible (old_or_new path data (fs_files f)) f (snd (writeFileAtomic path data f))"
proof -
  let ?Q = "old_or_new path data (fs_files f)" and ?tmp = "path @ ''.tmp''"
  have ig: "ignores ?tmp ?Q"
    by (simp add: ignores_def old_or_new_def update_conv' delete_conv')
  show ?thesis
  proof (cases rule: writeFileAtomic_cases [of path data f])
    case (failed e' g)
    then show ?thesis using failed(2) [OF ig] by simp
  next
    case (renamed f4)
    have "visible ?Q f4 (snd (os_Rename ?tmp path f4))"
      by (rule visible_Rename [of _ _ data])
        (use renamed(2) in \<open>auto simp: old_or_new_def update_conv' delete_conv'\<close>)
    then show ?thesis using visible_trans [OF renamed(3) [OF ig]] renamed(1) by simp
  qed
qed

lemma old_or_new_refl: "old_or_new path data fl fl"
  by (simp add: old_or_new_def)

section \<open>The files of one URL\<close>

text \<open>What is assumed of the hash: its length.\<close>

definition codec_ok :: "codec \<Rightarrow> bool" where
  "codec_ok K \<longleftrightarrow> (\<forall>u. length (sha256 K u) = sha256_Size)"

definition own_names :: "codec \<Rightarrow> string \<Rightarrow> string set" where
  "own_names K u = {bodyPath K u, bodyPath K u @ ''.tmp'', metaPath K u, metaPath K u @ ''.tmp''}"

lemma length_hex: "length (hex_EncodeToString bs) = 2 * length bs"
  by (induction bs) (auto simp: hex_EncodeToString_def)

lemma length_CacheKey: "codec_ok K \<Longrightarrow> length (CacheKey K u) = 64"
  by (simp add: CacheKey_def length_hex codec_ok_def sha256_Size_def)

lemma take_own_name: "codec_ok K \<Longrightarrow> n \<in> own_names K u \<Longrightarrow> take 64 n = CacheKey K u"
  using length_CacheKey [of K u] by (auto simp: own_names_def bodyPath_def metaPath_def)

lemma own_names_disjoint:
  "codec_ok K \<Longrightarrow> CacheKey K u \<noteq> CacheKey K v \<Longrightarrow> own_names K u \<inter> own_names K v = {}"
  using take_own_name [of K _ u] take_own_name [of K _ v] by fastforce

lemma body_meta_distinct [simp]:
  "bodyPath K u \<noteq> metaPath K u" "metaPath K u \<noteq> bodyPath K u"
  "metaPath K u @ ''.tmp'' \<noteq> bodyPath K u" "bodyPath K u \<noteq> metaPath K u @ ''.tmp''"
  "bodyPath K u @ ''.tmp'' \<noteq> metaPath K u" "metaPath K u \<noteq> bodyPath K u @ ''.tmp''"
  by (simp_all add: bodyPath_def metaPath_def)

lemma visible_mono:
  "visible Q f f' \<Longrightarrow> Q (fs_files f) \<Longrightarrow> (\<And>fl. Q fl \<Longrightarrow> Q' fl) \<Longrightarrow> visible Q' f f'"
  by (auto simp: visible_def list_all_iff)

definition body_old_or_new :: "codec \<Rightarrow> string \<Rightarrow> string \<Rightarrow> fsys \<Rightarrow> (string \<times> string) list \<Rightarrow> bool" where
  "body_old_or_new K u body f fl \<longleftrightarrow>
     map_of fl (bodyPath K u) \<in> {map_of (fs_files f) (bodyPath K u), Some body}
     \<and> (\<forall>n. n \<notin> own_names K u \<longrightarrow> map_of fl n = map_of (fs_files f) n)"

lemma store_Write_visible:
  "visible (body_old_or_new K u body f) f (snd (store_Write K u body meta f))"
proof -
  let ?Q = "body_old_or_new K u body f"
  obtain e1 f1 where d: "os_MkdirAll f = (e1, f1)" by fastforce
  obtain e2 f2 where b: "writeFileAtomic (bodyPath K u) body f1 = (e2, f2)" by fastforce
  have same: "fs_files f1 = fs_files f" and v1: "visible ?Q f f1"
    using d by (auto simp: os_MkdirAll_def sys_call_def visible_def split: option.splits)
  have "visible ?Q f1 f2"
    by (rule visible_mono [OF writeFileAtomic_visible [of "bodyPath K u" body f1, unfolded b snd_conv]
          old_or_new_refl])
      (auto simp: old_or_new_def body_old_or_new_def own_names_def same)
  then have v2: "visible ?Q f f2" by (rule visible_trans [OF v1])
  have q2: "?Q (fs_files f2)" using v2 by (simp add: visible_def body_old_or_new_def)
  have v3: "visible ?Q f (snd (writeFileAtomic (metaPath K u) j f2))" for j
  proof (rule visible_trans [OF v2])
    show "visible ?Q f2 (snd (writeFileAtomic (metaPath K u) j f2))"
      by (rule visible_mono [OF writeFileAtomic_visible old_or_new_refl])
        (use q2 in \<open>auto simp: old_or_new_def body_old_or_new_def own_names_def\<close>)
  qed
  show ?thesis
    using d b v1 v2 v3
    by (auto simp: store_Write_def split: option.splits sum.splits prod.splits intro: visible_sync_dir) (metis snd_conv visible_sync_dir)+
qed

lemma store_Write_ok:
  assumes "store_Write K u body meta f = (None, f')"
  obtains j where "json_Marshal K meta = Inr j" "map_of (fs_files f') (bodyPath K u) = Some body"
    "map_of (fs_files f') (metaPath K u) = Some j"
proof -
  obtain f1 f2 f3 j where b: "writeFileAtomic (bodyPath K u) body f1 = (None, f2)"
    and j: "json_Marshal K meta = Inr j" and m: "writeFileAtomic (metaPath K u) j f2 = (None, f3)" and f': "f' = sync_dir f3"
    using assms by (auto simp: store_Write_def split: prod.splits option.splits sum.splits)
  show thesis
    using that [OF j] writeFileAtomic_final(1) [OF b refl] writeFileAtomic_final(1) [OF m refl] f' by simp
qed

text \<open>Without failures of the operating system a write succeeds.\<close>

lemma writeFileAtomic_no_faults:
  assumes "fs_fault f = (\<lambda>_. None)"
  shows "\<exists>f'. writeFileAtomic path data f = (None, f') \<and> fs_fault f' = (\<lambda>_. None)"
  using assms
  by (simp add: writeFileAtomic_def Let_def os_eqs sys_call_def update_conv' set_files_def)

lemma store_Write_no_faults:
  assumes "fs_fault f = (\<lambda>_. None)" "json_Marshal K meta = Inr j"
  shows "\<exists>f'. store_Write K u body meta f = (None, f') \<and> fs_fault f' = (\<lambda>_. None)"
proof -
  let ?f1 = "(called f)\<lparr>fs_exists := True\<rparr>"
  have "fs_fault ?f1 = (\<lambda>_. None)" using assms(1) by simp
  from writeFileAtomic_no_faults [OF this] obtain f2 where
    b: "writeFileAtomic (bodyPath K u) body ?f1 = (None, f2)" "fs_fault f2 = (\<lambda>_. None)" by blast
  from writeFileAtomic_no_faults [OF b(2)] obtain f3 where
    "writeFileAtomic (metaPath K u) j f2 = (None, f3)" "fs_fault f3 = (\<lambda>_. None)" by blast
  moreover from this have "fs_fault (sync_dir f3) = (\<lambda>_. None)" by simp
  ultimately show ?thesis
    using assms b by (simp add: store_Write_def os_MkdirAll_def sys_call_def)
qed

text \<open>Reading when the two reads do not fail.\<close>

definition reads_ok :: "fsys \<Rightarrow> bool" where
  "reads_ok f \<longleftrightarrow> fault f = None \<and> fault (called f) = None"

lemma store_Read_eq:
  assumes "reads_ok f"
  shows "fst (store_Read K u f) =
    (case map_of (fs_files f) (bodyPath K u) of
       None \<Rightarrow> Inl (ErrSentinel ErrCacheMiss)
     | Some body \<Rightarrow>
         Inr (body, case map_of (fs_files f) (metaPath K u) of None \<Rightarrow> zero_meta | Some j \<Rightarrow> json_Unmarshal K j))"
  using assms
  by (auto simp: store_Read_def ReadMeta_def os_eqs reads_ok_def split: option.splits)

section \<open>Sweeping\<close>

lemma hex_digit_nth: "i < 16 \<Longrightarrow> hex_digits ! i \<in> set ''0123456789abcdefABCDEF''"
proof -
  assume "i < 16"
  then have "hex_digits ! i \<in> set hex_digits" by (intro nth_mem) (simp add: hex_digits_def)
  then show ?thesis by (auto simp: hex_digits_def)
qed

lemma hex_Encode_Decode: "hex_DecodeString_ok (hex_EncodeToString bs)"
proof -
  have "byte b div 16 < 16" for b :: char
    using nat_of_char_less_256 [of b] by linarith
  then have "list_all (\<lambda>c. c \<in> set ''0123456789abcdefABCDEF'') (hex_EncodeToString bs)"
    by (induction bs) (simp_all add: hex_EncodeToString_def hex_digit_nth del: set_simps)
  then show ?thesis by (simp add: hex_DecodeString_ok_def length_hex)
qed

lemma own_names_cache:
  assumes "codec_ok K" "n \<in> own_names K u"
  shows "isCacheFilename n"
  using assms(2) length_CacheKey [OF assms(1), of u] hex_Encode_Decode [of "sha256 K u"]
  by (auto simp: own_names_def bodyPath_def metaPath_def isCacheFilename_def CutSuffix_def
      sha256_Size_def CacheKey_def suffix_to_prefix)

lemma sweep_loop_spec:
  assumes "sweep_loop ks names removed f = ((k, e), f')"
  shows "\<And>x. x \<in> ks \<or> \<not> isCacheFilename x \<Longrightarrow> map_of (fs_files f') x = map_of (fs_files f) x"
    and "\<And>x. map_of (fs_files f) x = None \<Longrightarrow> map_of (fs_files f') x = None"
    and "\<And>x. e = None \<Longrightarrow> x \<in> set names \<Longrightarrow> x \<notin> ks \<Longrightarrow> isCacheFilename x \<Longrightarrow> map_of (fs_files f') x = None"
proof -
  have "(x \<in> ks \<or> \<not> isCacheFilename x \<longrightarrow> map_of (fs_files f') x = map_of (fs_files f) x)
    \<and> (map_of (fs_files f) x = None \<longrightarrow> map_of (fs_files f') x = None)
    \<and> (e = None \<longrightarrow> x \<in> set names \<longrightarrow> x \<notin> ks \<longrightarrow> isCacheFilename x \<longrightarrow> map_of (fs_files f') x = None)"
    for x
    using assms
  proof (induction ks names removed f rule: sweep_loop.induct)
    case (2 ks name names removed f)
    show ?case
    proof (cases "name \<in> ks \<or> \<not> isCacheFilename name")
      case True
      then have "sweep_loop ks names removed f = ((k, e), f')" using 2(4) by (simp split: if_splits)
      then show ?thesis using 2(1,2) True by (metis set_ConsD)
    next
      case False
      obtain r g where rm: "os_Remove name f = (r, g)" by fastforce
      show ?thesis
      proof (cases r)
        case None
        have "sweep_loop ks names (Suc removed) g = ((k, e), f')" using 2(4) False rm None by simp
        note ih = 2(3) [OF _ _ rm [symmetric] None this]
        have "map_of (fs_files g) = (map_of (fs_files f))(name := None)"
          using rm None by (auto simp: os_eqs delete_conv' split: option.splits)
        then show ?thesis using ih False by auto
      next
        case (Some err)
        then have "fs_files f' = fs_files f" "e \<noteq> None"
          using 2(4) False rm by (auto simp: os_eqs split: option.splits)
        then show ?thesis by auto
      qed
    qed
  qed simp
  then show "\<And>x. x \<in> ks \<or> \<not> isCacheFilename x \<Longrightarrow> map_of (fs_files f') x = map_of (fs_files f) x"
    "\<And>x. map_of (fs_files f) x = None \<Longrightarrow> map_of (fs_files f') x = None"
    "\<And>x. e = None \<Longrightarrow> x \<in> set names \<Longrightarrow> x \<notin> ks \<Longrightarrow> isCacheFilename x \<Longrightarrow> map_of (fs_files f') x = None"
    by blast+
qed

lemma Sweep_spec:
  assumes "Sweep K keep f = ((k, e), f')"
  shows "\<And>x. x \<in> keepSet K keep \<or> \<not> isCacheFilename x \<Longrightarrow> map_of (fs_files f') x = map_of (fs_files f) x"
    and "\<And>x. map_of (fs_files f) x = None \<Longrightarrow> map_of (fs_files f') x = None"
    and "\<And>x. e = None \<Longrightarrow> fs_exists f \<Longrightarrow> fault f = None \<Longrightarrow> x \<notin> keepSet K keep \<Longrightarrow>
      isCacheFilename x \<Longrightarrow> map_of (fs_files f') x = None"
proof -
  have "fs_files f' = fs_files f \<and> (fault f \<noteq> None \<or> \<not> fs_exists f)
      \<or> fault f = None \<and> sweep_loop (keepSet K keep) (sort (map fst (fs_files f))) 0 (called f) = ((k, e), f')"
    using assms by (auto simp: Sweep_def os_ReadDir_def sys_call_def split: option.splits if_splits)
  then consider (skip) "fs_files f' = fs_files f" "fault f \<noteq> None \<or> \<not> fs_exists f"
    | (loop) "sweep_loop (keepSet K keep) (sort (map fst (fs_files f))) 0 (called f) = ((k, e), f')" by blast
  note cs = this
  show "\<And>x. x \<in> keepSet K keep \<or> \<not> isCacheFilename x \<Longrightarrow> map_of (fs_files f') x = map_of (fs_files f) x"
    using cs by cases (auto dest: sweep_loop_spec(1))
  show none: "\<And>x. map_of (fs_files f) x = None \<Longrightarrow> map_of (fs_files f') x = None"
    using cs by cases (auto dest: sweep_loop_spec(2))
  show "map_of (fs_files f') x = None"
    if "e = None" "fs_exists f" "fault f = None" "x \<notin> keepSet K keep" "isCacheFilename x" for x
  proof (cases "x \<in> set (map fst (fs_files f))")
    case True
    from cs show ?thesis
    proof cases
      case loop
      then show ?thesis using sweep_loop_spec(3) [OF loop that(1) _ that(4,5)] True by simp
    qed (use that in simp)
  next
    case False
    then show ?thesis by (intro none) (simp add: map_of_eq_None_iff)
  qed
qed

section \<open>Properties\<close>

text \<open>C9: A write to the cache is atomic under every pattern of operating-system failures and at every
  moment at which another reader may look: the body file of the URL holds its previous content or the complete
  new body, never anything else, and no file other than the four of that URL is touched. When the
  write reports success, the body is the new one.\<close>

theorem store_Write_atomic:
  assumes "store_Write K u body meta f = (e, f')"
  shows "\<exists>h. fs_hist f' = fs_hist f @ h
    \<and> (\<forall>fl \<in> set (fs_files f' # h).
         map_of fl (bodyPath K u) \<in> {map_of (fs_files f) (bodyPath K u), Some body}
         \<and> (\<forall>n. n \<notin> own_names K u \<longrightarrow> map_of fl n = map_of (fs_files f) n))
    \<and> (e = None \<longrightarrow> map_of (fs_files f') (bodyPath K u) = Some body)"
proof -
  have "visible (body_old_or_new K u body f) f f'" using store_Write_visible [of K u body f meta] assms by simp
  moreover have "body_old_or_new K u body f (fs_files f)" by (simp add: body_old_or_new_def)
  ultimately obtain h where "fs_hist f' = fs_hist f @ h"
    "\<forall>fl \<in> set (fs_files f' # h). body_old_or_new K u body f fl"
    by (auto simp: visible_def list_all_iff)
  moreover have "e = None \<longrightarrow> map_of (fs_files f') (bodyPath K u) = Some body"
    using assms store_Write_ok [of K u body meta f f'] by auto
  ultimately show ?thesis by (auto simp: body_old_or_new_def)
qed

definition sample_codec :: codec where
  "sample_codec = \<lparr>sha256 = (\<lambda>u. take 32 (u @ replicate 32 (CHR ''x''))),
     json_Marshal = (\<lambda>m. Inr (mt_ETag m)), json_Unmarshal = (\<lambda>s. zero_meta\<lparr>mt_ETag := s\<rparr>)\<rparr>"

definition sample_fs :: "(nat \<Rightarrow> goerror option) \<Rightarrow> fsys" where
  "sample_fs ft = \<lparr>fs_exists = True, fs_files = [(bodyPath sample_codec ''u'', ''old'')], fs_hist = [],
     fs_calls = 0, fs_fault = ft, fs_partial = (\<lambda>_. 1)\<rparr>"

theorem store_Write_atomic_witness:
  "(\<lambda>fl. map_of fl (bodyPath sample_codec ''u'')) ` set (fs_hist (snd (store_Write sample_codec ''u'' ''new'' zero_meta
       (sample_fs (\<lambda>i. if i = 2 then Some (ErrNew ''disk full'') else None)))))
     \<subseteq> {Some ''old'', Some ''new''}"
proof -
  let ?f = "sample_fs (\<lambda>i. if i = 2 then Some (ErrNew ''disk full'') else None)"
  let ?r = "store_Write sample_codec ''u'' ''new'' zero_meta ?f"
  have f: "map_of (fs_files ?f) (bodyPath sample_codec ''u'') = Some ''old''" "fs_hist ?f = []"
    by (simp_all add: sample_fs_def)
  have "?r = (fst ?r, snd ?r)" by simp
  from store_Write_atomic [OF this] show ?thesis by (auto simp: f)
qed

text \<open>What has been written can be read back: after a successful write, reading the URL returns
  the body and, when the codec restores what it wrote, the metadata.\<close>

theorem store_Write_Read:
  assumes "store_Write K u body meta f = (None, f')" and "reads_ok f'"
    and "\<And>j. json_Marshal K meta = Inr j \<Longrightarrow> json_Unmarshal K j = meta"
  shows "fst (store_Read K u f') = Inr (body, meta)"
proof -
  obtain j where "json_Marshal K meta = Inr j" "map_of (fs_files f') (bodyPath K u) = Some body"
    "map_of (fs_files f') (metaPath K u) = Some j" by (rule store_Write_ok [OF assms(1)])
  then show ?thesis using assms(3) by (simp add: store_Read_eq [OF assms(2)])
qed

theorem store_Write_Read_witness:
  "fst (store_Read sample_codec ''u'' (snd (store_Write sample_codec ''u'' ''new''
      (zero_meta\<lparr>mt_ETag := ''e''\<rparr>) (sample_fs (\<lambda>i. None))))) = Inr (''new'', zero_meta\<lparr>mt_ETag := ''e''\<rparr>)"
proof -
  let ?r = "store_Write sample_codec ''u'' ''new'' (zero_meta\<lparr>mt_ETag := ''e''\<rparr>) (sample_fs (\<lambda>i. None))"
  obtain f' where r0: "?r = (None, f')" "fs_fault f' = (\<lambda>_. None)"
    using store_Write_no_faults [of "sample_fs (\<lambda>i. None)" sample_codec "zero_meta\<lparr>mt_ETag := ''e''\<rparr>" "''e''"]
    by (auto simp: sample_fs_def sample_codec_def)
  then have r: "?r = (None, snd ?r)" and "reads_ok (snd ?r)" by (simp_all add: reads_ok_def)
  from store_Write_Read [OF r this(2)] show ?thesis by (simp add: sample_codec_def)
qed

text \<open>If the body was written and the sidecar was not, the next read returns the new body with
  the metadata of the previous sidecar, so the next conditional request carries the old validators
  for the new body.\<close>

theorem failed_sidecar_keeps_old_metadata:
  assumes "store_Write K u body meta f = (Some (ErrWrap ''write meta'' e), f')" and "reads_ok f'"
    and "map_of (fs_files f) (metaPath K u) = Some j"
  shows "fst (store_Read K u f') = Inr (body, json_Unmarshal K j)"
proof -
  obtain f1 f2 j' e' where d: "os_MkdirAll f = (None, f1)"
    and b: "writeFileAtomic (bodyPath K u) body f1 = (None, f2)"
    and m: "writeFileAtomic (metaPath K u) j' f2 = (Some e', f')"
    using assms(1) by (auto simp: store_Write_def split: prod.splits option.splits sum.splits)
  have "fs_files f1 = fs_files f" using d by (auto simp: os_MkdirAll_def sys_call_def split: option.splits)
  moreover have "map_of (fs_files f') n = map_of (fs_files f2) n" if "n \<noteq> metaPath K u @ ''.tmp''" for n
    using writeFileAtomic_final(2) [OF m _ that] by simp
  ultimately show ?thesis
    using writeFileAtomic_final(1) [OF b refl] assms(3) by (simp add: store_Read_eq [OF assms(2)])
qed

theorem failed_sidecar_keeps_old_metadata_witness:
  "\<exists>f. fst (store_Read sample_codec ''u'' (snd (store_Write sample_codec ''u'' ''new'' zero_meta f)))
     = Inr (''new'', zero_meta\<lparr>mt_ETag := ''v1''\<rparr>)"
proof -
  let ?f = "(sample_fs (\<lambda>i. if i = 6 then Some (ErrNew ''disk full'') else None))
     \<lparr>fs_files := [(metaPath sample_codec ''u'', ''v1'')]\<rparr>"
  let ?r = "store_Write sample_codec ''u'' ''new'' zero_meta ?f"
  have "\<exists>f'. ?r = (Some (ErrWrap ''write meta'' (ErrNew ''disk full'')), f') \<and> reads_ok f'"
    by (simp add: store_Write_def os_MkdirAll_def sys_call_def sample_fs_def writeFileAtomic_def Let_def
        os_eqs update_conv' set_files_def sample_codec_def zero_meta_def reads_ok_def)
  then obtain f' where r: "?r = (Some (ErrWrap ''write meta'' (ErrNew ''disk full'')), f')" "reads_ok f'"
    by blast
  have "map_of (fs_files ?f) (metaPath sample_codec ''u'') = Some ''v1''" by simp
  from failed_sidecar_keeps_old_metadata [OF r this] r(1) show ?thesis
    by (intro exI [of _ ?f]) (simp add: sample_codec_def)
qed

text \<open>C25: The startup sweep never removes or alters a cache file of a configured URL, nor any file
  whose name is not one the store creates; and when it reports no error it has removed every other
  cache file, leftover temporary files of any URL included.\<close>

theorem Sweep_exact:
  assumes "Sweep K keep f = ((k, e), f')" and "codec_ok K"
  shows "(\<forall>u \<in> set keep. \<forall>n \<in> {bodyPath K u, metaPath K u}. map_of (fs_files f') n = map_of (fs_files f) n)
    \<and> (\<forall>n. \<not> isCacheFilename n \<longrightarrow> map_of (fs_files f') n = map_of (fs_files f) n)
    \<and> (e = None \<and> fs_exists f \<and> fault f = None \<longrightarrow>
         (\<forall>n. isCacheFilename n \<and> n \<notin> keepSet K keep \<longrightarrow> map_of (fs_files f') n = None)
         \<and> (\<forall>u. bodyPath K u @ ''.tmp'' \<notin> keepSet K keep \<longrightarrow> map_of (fs_files f') (bodyPath K u @ ''.tmp'') = None))"
proof -
  have tmp: "isCacheFilename (bodyPath K u @ ''.tmp'')" for u
    by (rule own_names_cache [OF assms(2), of _ u]) (simp add: own_names_def)
  show ?thesis
    using Sweep_spec [OF assms(1)] tmp by (auto simp: keepSet_def)
qed

theorem Sweep_exact_witness:
  "map_of (fs_files (snd (Sweep sample_codec [''u''] (sample_fs (\<lambda>_. None))))) (bodyPath sample_codec ''u'')
     = Some ''old''"
proof -
  let ?f = "sample_fs (\<lambda>_. None)"
  have ok: "codec_ok sample_codec"
    by (auto simp: codec_ok_def sample_codec_def sha256_Size_def min_def)
  obtain k e f' where r: "Sweep sample_codec [''u''] ?f = ((k, e), f')" by (metis prod.collapse)
  from Sweep_exact [OF r ok] show ?thesis by (simp add: r) (simp add: sample_fs_def)
qed

end
