(* ===== verification/Blocklist_Loader.thy ===== *)
theory Blocklist_Loader
  imports Blocklist_Store
begin

text \<open>
  The sources of blocklist entries and the loader that builds a matcher from all of them
  (\<open>file_source.go\<close>, \<open>http_source.go\<close>, \<open>loader.go\<close>, \<open>source.go\<close> of
  \<open>internal/blocklist\<close>). Opening a local file is a parameter: an error, or the content with the
  error that ends reading, if any. The error of the context is given per line read.
\<close>

section \<open>Sources\<close>

datatype source = FileSource string | HTTPSource string string

type_synonym disk = "string \<Rightarrow> goerror + string \<times> goerror option"
type_synonym line_ctx = "nat \<Rightarrow> goerror option"

definition FileSource_Load :: "disk \<Rightarrow> line_ctx \<Rightarrow> string \<Rightarrow> goerror + string list" where
  "FileSource_Load dk ctxerr path =
     (case dk path of
        Inl e \<Rightarrow> Inl (ErrWrap ''open blocklist'' e)
      | Inr (content, rerr) \<Rightarrow>
          (case parseReader ctxerr content rerr of
             Inl e \<Rightarrow> Inl (ErrWrap ''read blocklist'' e)
           | Inr out \<Rightarrow> Inr out))"

definition HTTPSource_Load :: "codec \<Rightarrow> string \<Rightarrow> fsys \<Rightarrow> (goerror + string list) \<times> fsys" where
  "HTTPSource_Load K url f =
     (case store_Read K url f of
        (Inl e, f') \<Rightarrow>
          if errors_Is e ErrCacheMiss then (Inr [], f')
          else (Inl (ErrWrap ''http source'' e), f')
      | (Inr (body, _), f') \<Rightarrow> (Inr (parseBody body), f'))"

fun source_Load :: "codec \<Rightarrow> disk \<Rightarrow> line_ctx \<Rightarrow> source \<Rightarrow> fsys \<Rightarrow> (goerror + string list) \<times> fsys" where
  "source_Load K dk ctxerr (FileSource path) f = (FileSource_Load dk ctxerr path, f)"
| "source_Load K dk ctxerr (HTTPSource name url) f = HTTPSource_Load K url f"

section \<open>The loader\<close>

fun loader_loop :: "codec \<Rightarrow> disk \<Rightarrow> line_ctx \<Rightarrow> source list \<Rightarrow> nat \<Rightarrow> string list \<Rightarrow> fsys
    \<Rightarrow> (goerror + Matcher \<times> nat) \<times> fsys" where
  "loader_loop K dk ctxerr [] i all f = (Inr (NewMatcher all, length all), f)"
| "loader_loop K dk ctxerr (s # ss) i all f =
     (case source_Load K dk ctxerr s f of
        (Inl e, f') \<Rightarrow> (Inl (ErrWrap (''source['' @ FormatUint i @ '']'') e), f')
      | (Inr entries, f') \<Rightarrow> loader_loop K dk ctxerr ss (Suc i) (all @ entries) f')"

definition Loader_Load :: "codec \<Rightarrow> disk \<Rightarrow> line_ctx \<Rightarrow> source list \<Rightarrow> fsys
    \<Rightarrow> (goerror + Matcher \<times> nat) \<times> fsys" where
  "Loader_Load K dk ctxerr sources f = loader_loop K dk ctxerr sources 0 [] f"

section \<open>What a source contains\<close>

text \<open>The entries of a text: the names its lines parse to. A text with a line beyond the limit of the
  scanner is not readable.\<close>

definition text_entries :: "string \<Rightarrow> string list option" where
  "text_entries body =
     (if \<exists>l \<in> set (raw_lines body). scanner_max \<le> length l then None
      else Some (List.map_filter (ParseLine \<circ> drop_cr) (raw_lines body)))"

text \<open>The content of a source, given the local files and the cache directory: nothing when it cannot
  be read. A URL that has not been fetched has no entries, nor has one whose body is not readable.\<close>

fun source_content :: "codec \<Rightarrow> disk \<Rightarrow> (string \<times> string) list \<Rightarrow> source \<Rightarrow> string list option" where
  "source_content K dk files (FileSource path) =
     (case dk path of Inr (body, None) \<Rightarrow> text_entries body | _ \<Rightarrow> None)"
| "source_content K dk files (HTTPSource name url) =
     (case map_of files (bodyPath K url) of
        None \<Rightarrow> Some []
      | Some body \<Rightarrow> Some (case text_entries body of None \<Rightarrow> [] | Some es \<Rightarrow> es))"

text \<open>What is asked of the operating system: a file that is there is not reported as missing.\<close>

definition honest :: "fsys \<Rightarrow> bool" where
  "honest f \<longleftrightarrow> (\<forall>i e. fs_fault f i = Some e \<longrightarrow> \<not> errors_Is e ErrNotExist \<and> \<not> errors_Is e ErrCacheMiss)"

lemma parse_loop_success: "parse_loop ce i ls out = Inr es \<Longrightarrow> es = out @ List.map_filter ParseLine ls"
  by (induction ce i ls out rule: parse_loop.induct) (auto simp: List.map_filter_simps split: option.splits)

lemma scan_lines_OK:
  "scan_lines n ls = ScanOK xs \<Longrightarrow> (\<forall>l \<in> set ls. length l < n) \<and> xs = map drop_cr ls"
  by (induction ls arbitrary: xs) (auto split: if_splits scan.splits)

lemma parseReader_success:
  "parseReader ce body rerr = Inr es \<Longrightarrow> rerr = None \<and> text_entries body = Some es"
  using scan_lines_OK [of scanner_max "raw_lines body"]
  by (fastforce simp: parseReader_def text_entries_def map_filter_drop_cr
      split: scan.splits sum.splits option.splits dest!: parse_loop_success)

lemma parseBody_entries: "parseBody body = (case text_entries body of None \<Rightarrow> [] | Some es \<Rightarrow> es)"
  using parseBody_short [of body] parseBody_long [of body] by (auto simp: text_entries_def not_le)

section \<open>The contract of a source\<close>

text \<open>A source returns its content, which is valid host names in canonical form, and leaves the
  cache directory alone.\<close>

locale blocklist_source =
  fixes load :: "fsys \<Rightarrow> (goerror + string list) \<times> fsys" and content :: "(string \<times> string) list \<Rightarrow> string list option"
  assumes valid: "load f = (Inr es, f') \<Longrightarrow> e \<in> set es \<Longrightarrow> isValidFQDN e"
    and files: "load f = (r, f') \<Longrightarrow> fs_files f' = fs_files f \<and> fs_hist f' = fs_hist f \<and> fs_fault f' = fs_fault f"
    and complete: "honest f \<Longrightarrow> load f = (Inr es, f') \<Longrightarrow> content (fs_files f) = Some es"
begin

lemma honest_kept: "honest f \<Longrightarrow> load f = (r, f') \<Longrightarrow> honest f'"
  using files [of f r f'] by (simp add: honest_def)

lemma canonical: "load f = (Inr es, f') \<Longrightarrow> map canonicalise es = es"
  by (rule map_idI) (auto intro!: canonicalise_valid dest: valid)

lemma nonempty: "load f = (Inr es, f') \<Longrightarrow> [] \<notin> set es"
  using valid by (fastforce simp: isValidFQDN_def)

end

lemma HTTPSource_valid:
  "HTTPSource_Load K u f = (Inr es, f') \<Longrightarrow> e \<in> set es \<Longrightarrow> isValidFQDN e"
  by (auto simp: HTTPSource_Load_def split: prod.splits sum.splits if_splits intro: parseBody_valid)

lemma store_Read_files:
  "fs_files (snd (store_Read K u f)) = fs_files f \<and> fs_hist (snd (store_Read K u f)) = fs_hist f
   \<and> fs_fault (snd (store_Read K u f)) = fs_fault f"
  by (simp add: store_Read_def ReadMeta_def os_eqs split: option.splits prod.splits sum.splits)

lemma HTTPSource_complete:
  assumes "honest f" and "HTTPSource_Load K u f = (Inr es, f')"
  shows "source_content K dk (fs_files f) (HTTPSource n u) = Some es"
  using assms
  by (auto simp: HTTPSource_Load_def store_Read_def ReadMeta_def os_eqs honest_def parseBody_entries
      split: option.splits if_splits sum.splits prod.splits)

lemma FileSource_complete:
  "FileSource_Load dk ce p = Inr es \<Longrightarrow> source_content K dk files (FileSource p) = Some es"
  by (auto simp: FileSource_Load_def split: sum.splits prod.splits dest!: parseReader_success)

lemma HTTPSource_files:
  "HTTPSource_Load K u f = (r, f') \<Longrightarrow>
     fs_files f' = fs_files f \<and> fs_hist f' = fs_hist f \<and> fs_fault f' = fs_fault f"
  using store_Read_files [of K u f]
  by (auto simp: HTTPSource_Load_def split: prod.splits sum.splits if_splits)

lemma FileSource_valid:
  "FileSource_Load dk ce p = Inr es \<Longrightarrow> e \<in> set es \<Longrightarrow> isValidFQDN e"
  by (auto simp: FileSource_Load_def split: sum.splits prod.splits intro: parseReader_valid)

interpretation src: blocklist_source "source_Load K dk ce s" "\<lambda>files. source_content K dk files s" for K dk ce s
proof
  show "source_Load K dk ce s f = (Inr es, f') \<Longrightarrow> e \<in> set es \<Longrightarrow> isValidFQDN e" for f es f' e
    by (cases s) (auto intro: HTTPSource_valid FileSource_valid)
  show "source_Load K dk ce s f = (r, f') \<Longrightarrow>
      fs_files f' = fs_files f \<and> fs_hist f' = fs_hist f \<and> fs_fault f' = fs_fault f" for f r f'
    by (cases s) (auto dest: HTTPSource_files)
  show "honest f \<Longrightarrow> source_Load K dk ce s f = (Inr es, f') \<Longrightarrow> source_content K dk (fs_files f) s = Some es" for f es f'
    by (cases s) (auto simp del: source_content.simps intro: HTTPSource_complete FileSource_complete)
qed

section \<open>Loading\<close>

lemma loader_loop_success:
  assumes "loader_loop K dk ce ss i all f = (Inr (m, n), f')"
  shows "\<exists>ess. list_all2 (\<lambda>s es. \<exists>g g'. fs_files g = fs_files f \<and> fs_fault g = fs_fault f
        \<and> source_Load K dk ce s g = (Inr es, g')) ss ess
    \<and> m = NewMatcher (all @ concat ess) \<and> n = length (all @ concat ess)
    \<and> fs_files f' = fs_files f \<and> fs_hist f' = fs_hist f \<and> fs_fault f' = fs_fault f"
  using assms
proof (induction ss arbitrary: i all f)
  case Nil
  then show ?case by auto
next
  case (Cons s ss)
  obtain es g where l: "source_Load K dk ce s f = (Inr es, g)"
    and r: "loader_loop K dk ce ss (Suc i) (all @ es) g = (Inr (m, n), f')"
    using Cons.prems by (auto split: prod.splits sum.splits)
  note fs = src.files [OF l]
  from Cons.IH [OF r] obtain ess where
    "list_all2 (\<lambda>s es. \<exists>g' g''. fs_files g' = fs_files g \<and> fs_fault g' = fs_fault g
        \<and> source_Load K dk ce s g' = (Inr es, g'')) ss ess"
    "m = NewMatcher (all @ es @ concat ess)" "n = length (all @ es @ concat ess)"
    "fs_files f' = fs_files g" "fs_hist f' = fs_hist g" "fs_fault f' = fs_fault g" by auto
  then show ?case using l fs by (intro exI [of _ "es # ess"]) auto
qed

text \<open>What a successful load has read is the content of every source.\<close>

lemma loader_contents:
  assumes "honest f" and "loader_loop K dk ce ss i all f = (Inr (m, n), f')"
  shows "\<exists>ess. map (source_content K dk (fs_files f)) ss = map Some ess
    \<and> m = NewMatcher (all @ concat ess) \<and> n = length (all @ concat ess)"
proof -
  from loader_loop_success [OF assms(2)] obtain ess where
    l: "list_all2 (\<lambda>s es. \<exists>g g'. fs_files g = fs_files f \<and> fs_fault g = fs_fault f
        \<and> source_Load K dk ce s g = (Inr es, g')) ss ess"
    and m: "m = NewMatcher (all @ concat ess)" "n = length (all @ concat ess)" by blast
  have "source_content K dk (fs_files f) s = Some es"
    if "fs_files g = fs_files f" "fs_fault g = fs_fault f" "source_Load K dk ce s g = (Inr es, g')" for s es g g'
    using src.complete [of g K dk ce s es g'] that assms(1) by (simp add: honest_def)
  with l have "list_all2 (\<lambda>s es. source_content K dk (fs_files f) s = Some es) ss ess"
    by (blast intro: list_all2_mono)
  then have "map (source_content K dk (fs_files f)) ss = map Some ess"
    by (auto simp: list_all2_conv_all_nth intro: nth_equalityI)
  with m show ?thesis by blast
qed

lemma source_content_valid: "source_content K dk files s = Some es \<Longrightarrow> e \<in> set es \<Longrightarrow> isValidFQDN e"
  using ParseLine_sound
  by (cases s) (fastforce simp: text_entries_def List.map_filter_def split: sum.splits option.splits prod.splits if_splits)+

lemma loader_loop_files: "loader_loop K dk ce ss i all f = (r, f') \<Longrightarrow> fs_files f' = fs_files f"
proof (induction ss arbitrary: i all f)
  case (Cons s ss)
  obtain x g where l: "source_Load K dk ce s f = (x, g)" by fastforce
  then show ?case using Cons.IH Cons.prems src.files [OF l] by (cases x) auto
qed simp

lemma loader_loop_error:
  assumes "loader_loop K dk ce ss i all f = (Inl e, f')"
  shows "\<exists>j < length ss. \<exists>e' g g'. e = ErrWrap (''source['' @ FormatUint (i + j) @ '']'') e'
    \<and> source_Load K dk ce (ss ! j) g = (Inl e', g') \<and> fs_files g = fs_files f"
  using assms
proof (induction ss arbitrary: i all f)
  case (Cons s ss)
  obtain r g where l: "source_Load K dk ce s f = (r, g)" by fastforce
  note fs = src.files [OF l]
  show ?case
  proof (cases r)
    case (Inl e')
    then show ?thesis using Cons.prems l by (intro exI [of _ 0]) auto
  next
    case (Inr es)
    then have "loader_loop K dk ce ss (Suc i) (all @ es) g = (Inl e, f')" using Cons.prems l by simp
    from Cons.IH [OF this] fs show ?thesis by (metis add_Suc_shift length_Cons not_less_eq nth_Cons_Suc)
  qed
qed simp

section \<open>Properties\<close>

text \<open>C24: A successful load has read every source in full: the entries it works with are, source by
  source, the names on the lines of the local file, or of the cached body of the URL (none if the URL
  has not been fetched yet). The matcher it builds blocks exactly the names covered by an entry of at
  least one source, the reported count is the number of entries over all sources, and the cache
  directory is not changed.\<close>

theorem Loader_builds_union:
  assumes "honest f" and "Loader_Load K dk ce ss f = (Inr (m, n), f')"
  shows "\<exists>ess. map (source_content K dk (fs_files f)) ss = map Some ess
    \<and> n = length (concat ess) \<and> fs_files f' = fs_files f
    \<and> (\<forall>q. Match m q \<longleftrightarrow> (\<exists>es \<in> set ess. \<exists>e \<in> set es. covers e (canonicalise q)))"
proof -
  note l = assms(2) [unfolded Loader_Load_def]
  from loader_contents [OF assms(1) l] obtain ess where
    c: "map (source_content K dk (fs_files f)) ss = map Some ess"
    and m: "m = NewMatcher (concat ess)" "n = length (concat ess)" by auto
  have v: "isValidFQDN e" if "e \<in> set (concat ess)" for e
  proof -
    from that obtain es where es: "es \<in> set ess" "e \<in> set es" by auto
    then have "Some es \<in> set (map (source_content K dk (fs_files f)) ss)" unfolding c by simp
    then obtain s where "source_content K dk (fs_files f) s = Some es" by auto
    then show ?thesis using source_content_valid es(2) by blast
  qed
  have "canonicalise e = e \<and> e \<noteq> []" if "e \<in> set (concat ess)" for e
    using canonicalise_valid [OF v [OF that]] v [OF that] by (auto simp: isValidFQDN_def)
  then have "Match m q \<longleftrightarrow> (\<exists>es \<in> set ess. \<exists>e \<in> set es. covers e (canonicalise q))" for q
    by (auto simp: m(1) mt.matches_iff)
  then show ?thesis using c m loader_loop_files [OF l] by blast
qed

definition sample_disk :: disk where
  "sample_disk p = (if p = ''list'' then Inr (''ads.example'' @ [newline], None) else Inl (ErrSentinel ErrNotExist))"

lemma sample_file: "FileSource_Load sample_disk no_ctx_err ''list'' = Inr [''ads.example'']"
proof -
  have v: "isValidFQDN ''ads.example''"
    by (simp add: isValidFQDN_def Split_def label_ok_def graphic_def char_eval)
  have "print_list [''ads.example''] = ''ads.example'' @ [newline]" by (simp add: print_list_def)
  moreover have "parseReader no_ctx_err (print_list [''ads.example'']) None = Inr [''ads.example'']"
    using parse_print [of "[''ads.example'']"] v
    by (simp add: parseBody_def split: sum.splits)
  ultimately show ?thesis by (simp add: FileSource_Load_def sample_disk_def)
qed

text \<open>A cache directory with a list fetched from \<open>u\<close>.\<close>

definition fetched_fs :: fsys where
  "fetched_fs = (sample_fs (\<lambda>_. None))\<lparr>fs_files := [(bodyPath sample_codec ''u'', print_list [''track.example''])]\<rparr>"

lemma fetched_load: "HTTPSource_Load sample_codec ''u'' fetched_fs = (Inr [''track.example''], called (called fetched_fs))"
proof -
  have "isValidFQDN ''track.example''"
    by (simp add: isValidFQDN_def Split_def label_ok_def graphic_def char_eval)
  then have "parseBody (print_list [''track.example'']) = [''track.example'']" by (simp add: parse_print)
  then show ?thesis
    by (simp add: HTTPSource_Load_def store_Read_def ReadMeta_def os_eqs fetched_fs_def sample_fs_def)
qed

theorem Loader_builds_union_witness:
  "\<exists>m f'. Loader_Load sample_codec sample_disk no_ctx_err [FileSource ''list'', HTTPSource ''ads'' ''u''] fetched_fs
     = (Inr (m, 2), f')
   \<and> (\<forall>q. Match m q \<longleftrightarrow> covers ''ads.example'' (canonicalise q) \<or> covers ''track.example'' (canonicalise q))"
proof -
  have r: "Loader_Load sample_codec sample_disk no_ctx_err [FileSource ''list'', HTTPSource ''ads'' ''u''] fetched_fs
      = (Inr (NewMatcher [''ads.example'', ''track.example''], 2), called (called fetched_fs))"
    by (simp add: Loader_Load_def sample_file fetched_load)
  have h: "honest fetched_fs" by (simp add: honest_def fetched_fs_def sample_fs_def)
  have "source_content sample_codec sample_disk (fs_files fetched_fs) (FileSource ''list'') = Some [''ads.example'']"
    by (rule FileSource_complete [OF sample_file])
  moreover have "source_content sample_codec sample_disk (fs_files fetched_fs) (HTTPSource ''ads'' ''u'') = Some [''track.example'']"
    by (rule HTTPSource_complete [OF h fetched_load])
  ultimately have "\<exists>ess. [Some [''ads.example''], Some [''track.example'']] = map Some ess \<and> length (concat ess) = 2
      \<and> (\<forall>q. Match (NewMatcher [''ads.example'', ''track.example'']) q \<longleftrightarrow> (\<exists>es \<in> set ess. \<exists>e \<in> set es. covers e (canonicalise q)))"
    using Loader_builds_union [OF h r] by (simp del: source_content.simps)
  then show ?thesis using r by (auto simp: Cons_eq_map_conv)
qed

text \<open>If any source fails, the whole load fails with the index and the error of the first source
  that failed; no partial matcher is built.\<close>

theorem Loader_fails_as_a_whole:
  assumes "s \<in> set ss" and "\<And>h. fs_files h = fs_files f \<Longrightarrow> fst (source_Load K dk ce s h) = Inl e"
  shows "\<exists>j e' f'. Loader_Load K dk ce ss f = (Inl (ErrWrap (''source['' @ FormatUint j @ '']'') e'), f')
    \<and> j < length ss \<and> (\<exists>h. fst (source_Load K dk ce (ss ! j) h) = Inl e')"
proof -
  obtain r f' where l: "Loader_Load K dk ce ss f = (r, f')" by fastforce
  show ?thesis
  proof (cases r)
    case (Inl x)
    from loader_loop_error [OF l [unfolded Loader_Load_def Inl]] obtain j e' g g' where
      "j < length ss" "x = ErrWrap (''source['' @ FormatUint (0 + j) @ '']'') e'"
      "source_Load K dk ce (ss ! j) g = (Inl e', g')" by blast
    then show ?thesis
      using l Inl by (intro exI [of _ j] exI [of _ e'] exI [of _ f']) (auto intro: exI [of _ g])
  next
    case (Inr x)
    obtain m n where "x = (m, n)" by fastforce
    from loader_loop_success [OF l [unfolded Loader_Load_def Inr this]] obtain ess where
      la: "list_all2 (\<lambda>s es. \<exists>g g'. fs_files g = fs_files f \<and> fs_fault g = fs_fault f
        \<and> source_Load K dk ce s g = (Inr es, g')) ss ess"
      by blast
    obtain i where i: "i < length ss" "ss ! i = s" using assms(1) by (auto simp: in_set_conv_nth)
    obtain h h' es where "fs_files h = fs_files f" "source_Load K dk ce s h = (Inr es, h')"
      using list_all2_nthD [OF la i(1)] i(2) by blast
    then show ?thesis using assms(2) [of h] by simp
  qed
qed

theorem Loader_fails_as_a_whole_witness:
  "\<exists>j e' f'. Loader_Load sample_codec sample_disk no_ctx_err [FileSource ''list'', FileSource ''gone'']
      (sample_fs (\<lambda>_. None)) = (Inl (ErrWrap (''source['' @ FormatUint j @ '']'') e'), f') \<and> j < 2"
proof -
  have "fst (source_Load sample_codec sample_disk no_ctx_err (FileSource ''gone'') h)
      = Inl (ErrWrap ''open blocklist'' (ErrSentinel ErrNotExist))" for h
    by (simp add: FileSource_Load_def sample_disk_def)
  then show ?thesis
    using Loader_fails_as_a_whole [of "FileSource ''gone''" "[FileSource ''list'', FileSource ''gone'']"
        "sample_fs (\<lambda>_. None)" sample_codec sample_disk no_ctx_err
        "ErrWrap ''open blocklist'' (ErrSentinel ErrNotExist)"] by auto
qed

end
