(* ===== verification/Blocklist_Fetcher.thy ===== *)
theory Blocklist_Fetcher
  imports Blocklist_Loader Resolver Go_Net
begin

text \<open>
  The blocklist fetcher (\<open>internal/blocklist/http_fetcher.go\<close>): one conditional GET, a cycle
  over all targets, the loop of \<open>Run\<close> as a step relation and the non-blocking
  \<open>RefreshNow\<close>. The HTTP client is a parameter: it returns an error or a status, the
  validators and a body whose reading may end in an error.
\<close>

section \<open>Data\<close>

definition maxBodyBytes :: nat where "maxBodyBytes = 64 * 1024 * 1024"

datatype FetchOutcome = FetchOutcomeSuccess | FetchOutcomeNotModified | FetchOutcomeFailure

fun outcome_label :: "FetchOutcome \<Rightarrow> string" where
  "outcome_label FetchOutcomeSuccess = ''success''"
| "outcome_label FetchOutcomeNotModified = ''not_modified''"
| "outcome_label FetchOutcomeFailure = ''failure''"

record FetchTarget =
  tg_Name :: string
  tg_URL :: string

record FetchResult =
  fr_Outcome :: FetchOutcome
  fr_Bytes :: int
  fr_Entries :: int
  fr_Duration :: int
  fr_StatusCode :: int
  fr_Err :: "goerror option"

text \<open>The request headers the fetcher sets, and the parts of a response it reads.\<close>

record get_request =
  gr_URL :: string
  gr_UserAgent :: string
  gr_IfNoneMatch :: "string option"
  gr_IfModifiedSince :: "string option"

record get_response =
  gs_StatusCode :: int
  gs_ETag :: string
  gs_LastModified :: string
  gs_Body :: string
  gs_ReadErr :: "goerror option"

record 'e FetcherConfig =
  fc_Codec :: codec
  fc_NewRequest :: "string \<Rightarrow> goerror option"
  fc_Do :: "ctx \<Rightarrow> get_request \<Rightarrow> 'e \<Rightarrow> (goerror + get_response) \<times> 'e"
  fc_Interval :: int
  fc_Metrics :: bool
  fc_UserAgent :: string

definition DefaultUserAgent :: string where
  "DefaultUserAgent = ''bns/dev (+https://github.com/bcrisp4/bns)''"

definition NewFetcher :: "'e FetcherConfig \<Rightarrow> 'e FetcherConfig" where
  "NewFetcher cfg = (if fc_UserAgent cfg = [] then cfg\<lparr>fc_UserAgent := DefaultUserAgent\<rparr> else cfg)"

text \<open>What the fetcher works on: the shared state, the cache directory and the buffered channel,
  of capacity one.\<close>

record 'e fetch =
  ft_st :: "'e st"
  ft_fs :: fsys
  ft_poke :: bool

section \<open>One fetch\<close>

definition recordOutcome :: "'e FetcherConfig \<Rightarrow> string \<Rightarrow> FetchOutcome \<Rightarrow> 'e fetch \<Rightarrow> 'e fetch" where
  "recordOutcome F name o' w =
     (if fc_Metrics F then w\<lparr>ft_st := upd_metrics (fm_IncFetch name (outcome_label o')) (ft_st w)\<rparr> else w)"

definition markSuccess :: "'e FetcherConfig \<Rightarrow> string \<Rightarrow> int \<Rightarrow> 'e fetch \<Rightarrow> 'e fetch" where
  "markSuccess F name ts w =
     (if fc_Metrics F then w\<lparr>ft_st := upd_metrics (fm_SetLastSuccess name ts) (ft_st w)\<rparr> else w)"

definition setEntries :: "'e FetcherConfig \<Rightarrow> string \<Rightarrow> int \<Rightarrow> 'e fetch \<Rightarrow> 'e fetch" where
  "setEntries F name n w =
     (if fc_Metrics F then w\<lparr>ft_st := upd_metrics (fm_SetEntries name n) (ft_st w)\<rparr> else w)"

definition failed_result :: "int \<Rightarrow> goerror option \<Rightarrow> FetchResult" where
  "failed_result status err =
     \<lparr>fr_Outcome = FetchOutcomeFailure, fr_Bytes = 0, fr_Entries = 0, fr_Duration = 0,
      fr_StatusCode = status, fr_Err = err\<rparr>"

text \<open>\<open>io.ReadAll\<close> of the body limited to one byte more than the maximum: beyond the limit the
  error that ends the stream is never reached.\<close>

definition read_limited :: "get_response \<Rightarrow> goerror + string" where
  "read_limited r =
     (case gs_ReadErr r of
        Some e \<Rightarrow> if length (gs_Body r) < maxBodyBytes + 1 then Inl e else Inr (take (maxBodyBytes + 1) (gs_Body r))
      | None \<Rightarrow> Inr (take (maxBodyBytes + 1) (gs_Body r)))"

text \<open>From the status check on.\<close>

definition fetch_store :: "'e FetcherConfig \<Rightarrow> FetchTarget \<Rightarrow> int \<Rightarrow> CacheMeta \<Rightarrow> get_response \<Rightarrow> 'e fetch
    \<Rightarrow> FetchResult \<times> 'e fetch" where
  "fetch_store F t start prevMeta resp w =
     (let status = gs_StatusCode resp in
      if status = 304 then
        (\<lparr>fr_Outcome = FetchOutcomeNotModified, fr_Bytes = 0, fr_Entries = 0, fr_Duration = 0,
          fr_StatusCode = status, fr_Err = None\<rparr>,
         setEntries F (tg_Name t) (mt_Entries prevMeta) (markSuccess F (tg_Name t) start w))
      else if status \<noteq> 200 then
        (failed_result status (Some (ErrNew (''unexpected status '' @ Itoa status))), w)
      else case read_limited resp of
          Inl e \<Rightarrow> (failed_result status (Some (ErrWrap ''read body'' e)), w)
        | Inr body \<Rightarrow>
            if maxBodyBytes < length body then
              (failed_result status (Some (ErrNew (''body exceeds '' @ Itoa (int maxBodyBytes) @ '' bytes''))), w)
            else
              (let entries = parseBody body in
               if 0 < length body \<and> length entries = 0 then
                 (failed_result status (Some (ErrNew ''body parsed to zero entries; refusing to overwrite cache'')), w)
               else
                 (let meta = \<lparr>mt_URL = tg_URL t, mt_ETag = gs_ETag resp,
                       mt_LastModified = gs_LastModified resp, mt_FetchedAt = start,
                       mt_Bytes = int (length body), mt_Entries = int (length entries)\<rparr> in
                  case store_Write (fc_Codec F) (tg_URL t) body meta (ft_fs w) of
                    (Some e, fs) \<Rightarrow>
                      (failed_result status (Some (ErrWrap ''persist cache'' e)), w\<lparr>ft_fs := fs\<rparr>)
                  | (None, fs) \<Rightarrow>
                      (\<lparr>fr_Outcome = FetchOutcomeSuccess, fr_Bytes = int (length body),
                        fr_Entries = int (length entries), fr_Duration = 0, fr_StatusCode = status,
                        fr_Err = None\<rparr>,
                       setEntries F (tg_Name t) (int (length entries))
                         (markSuccess F (tg_Name t) start (w\<lparr>ft_fs := fs\<rparr>))))))"

definition get_request_of :: "'e FetcherConfig \<Rightarrow> FetchTarget \<Rightarrow> CacheMeta \<Rightarrow> get_request" where
  "get_request_of F t prevMeta =
     \<lparr>gr_URL = tg_URL t, gr_UserAgent = fc_UserAgent F,
      gr_IfNoneMatch = (if mt_ETag prevMeta = [] then None else Some (mt_ETag prevMeta)),
      gr_IfModifiedSince = (if mt_LastModified prevMeta = [] then None else Some (mt_LastModified prevMeta))\<rparr>"

definition fetch_body :: "'e FetcherConfig \<Rightarrow> ctx \<Rightarrow> FetchTarget \<Rightarrow> int \<Rightarrow> 'e fetch
    \<Rightarrow> FetchResult \<times> 'e fetch" where
  "fetch_body F c t start w =
     (case ReadMeta (fc_Codec F) (tg_URL t) (ft_fs w) of
        ((prevMeta, _), fs) \<Rightarrow>
          (let w1 = w\<lparr>ft_fs := fs\<rparr> in
           case fc_NewRequest F (tg_URL t) of
             Some e \<Rightarrow> (failed_result 0 (Some (ErrWrap ''build request'' e)), w1)
           | None \<Rightarrow>
               (case fc_Do F c (get_request_of F t prevMeta) (st_net (ft_st w1)) of
                  (res, net) \<Rightarrow>
                    (let w2 = w1\<lparr>ft_st := (ft_st w1)\<lparr>st_net := net\<rparr>\<rparr> in
                     case res of
                       Inl e \<Rightarrow> (failed_result 0 (Some (ErrWrap ''http do'' e)), w2)
                     | Inr resp \<Rightarrow> fetch_store F t start prevMeta resp w2))))"

text \<open>
  The deferred function records the outcome. Its assignment to \<open>res.Duration\<close> changes the local
  variable after the unnamed result has been copied, so the returned duration stays zero.
\<close>

definition FetchOne :: "'e FetcherConfig \<Rightarrow> ctx \<Rightarrow> FetchTarget \<Rightarrow> 'e fetch \<Rightarrow> FetchResult \<times> 'e fetch" where
  "FetchOne F c t w =
     (case time_Now (ft_st w) of
        (start, s1) \<Rightarrow>
          (case ctx_Err c s1 of
             (Some _, s2) \<Rightarrow> (failed_result 0 None, w\<lparr>ft_st := s2\<rparr>)
           | (None, s2) \<Rightarrow>
               (case fetch_body F c t start (w\<lparr>ft_st := s2\<rparr>) of
                  (res, w') \<Rightarrow> (res, recordOutcome F (tg_Name t) (fr_Outcome res) w'))))"

section \<open>Cycles and the loop\<close>

fun cycle_loop :: "'e FetcherConfig \<Rightarrow> ctx \<Rightarrow> FetchTarget list \<Rightarrow> bool \<Rightarrow> 'e fetch \<Rightarrow> bool \<times> 'e fetch" where
  "cycle_loop F c [] changed w = (changed, w)"
| "cycle_loop F c (t # ts) changed w =
     (case FetchOne F c t w of
        (res, w') \<Rightarrow> cycle_loop F c ts (changed \<or> fr_Outcome res = FetchOutcomeSuccess) w')"

definition cycle :: "'e FetcherConfig \<Rightarrow> ctx \<Rightarrow> FetchTarget list \<Rightarrow> ('e fetch \<Rightarrow> 'e fetch) \<Rightarrow> 'e fetch \<Rightarrow> 'e fetch" where
  "cycle F c targets onReload w =
     (case cycle_loop F c targets False w of
        (changed, w') \<Rightarrow> if changed then onReload w' else w')"

definition RefreshNow :: "'e fetch \<Rightarrow> 'e fetch" where
  "RefreshNow w = w\<lparr>ft_poke := True\<rparr>"

datatype phase = Starting | Waiting | Stopped

record 'e run =
  rn_phase :: phase
  rn_w :: "'e fetch"

text \<open>The steps of \<open>Run\<close>: the sweep with the initial cycle, the ticker (only with a positive
  interval), a pending poke, cancellation; and the calls of \<open>RefreshNow\<close> from outside.\<close>

inductive run_step :: "'e FetcherConfig \<Rightarrow> ctx \<Rightarrow> FetchTarget list \<Rightarrow> ('e fetch \<Rightarrow> 'e fetch) \<Rightarrow> 'e run \<Rightarrow> 'e run \<Rightarrow> bool"
  for F :: "'e FetcherConfig" and c :: ctx and targets :: "FetchTarget list"
    and onReload :: "'e fetch \<Rightarrow> 'e fetch" where
  run_start: "rn_phase r = Starting \<Longrightarrow> Sweep (fc_Codec F) (map tg_URL targets) (ft_fs (rn_w r)) = (res, fs) \<Longrightarrow>
    run_step F c targets onReload r
      (r\<lparr>rn_phase := Waiting, rn_w := cycle F c targets onReload ((rn_w r)\<lparr>ft_fs := fs\<rparr>)\<rparr>)"
| run_tick: "rn_phase r = Waiting \<Longrightarrow> 0 < fc_Interval F \<Longrightarrow>
    run_step F c targets onReload r (r\<lparr>rn_w := cycle F c targets onReload (rn_w r)\<rparr>)"
| run_poke: "rn_phase r = Waiting \<Longrightarrow> ft_poke (rn_w r) \<Longrightarrow>
    run_step F c targets onReload r
      (r\<lparr>rn_w := cycle F c targets onReload ((rn_w r)\<lparr>ft_poke := False\<rparr>)\<rparr>)"
| run_done: "rn_phase r = Waiting \<Longrightarrow> cx_err c (now (ft_st (rn_w r))) \<noteq> None \<Longrightarrow>
    run_step F c targets onReload r (r\<lparr>rn_phase := Stopped\<rparr>)"
| run_refresh: "run_step F c targets onReload r (r\<lparr>rn_w := RefreshNow (rn_w r)\<rparr>)"

inductive run_reach :: "'e FetcherConfig \<Rightarrow> ctx \<Rightarrow> FetchTarget list \<Rightarrow> ('e fetch \<Rightarrow> 'e fetch) \<Rightarrow> 'e fetch \<Rightarrow> 'e run \<Rightarrow> bool"
  for F :: "'e FetcherConfig" and c :: ctx and targets :: "FetchTarget list"
    and onReload :: "'e fetch \<Rightarrow> 'e fetch" and w0 :: "'e fetch" where
  reach_init: "run_reach F c targets onReload w0 \<lparr>rn_phase = Starting, rn_w = w0\<rparr>"
| reach_step: "run_reach F c targets onReload w0 r \<Longrightarrow> run_step F c targets onReload r r' \<Longrightarrow>
    run_reach F c targets onReload w0 r'"

inductive_cases run_stepE: "run_step F c targets onReload r r'"

section \<open>What a fetch does to the cache directory\<close>

text \<open>A body the fetcher accepts.\<close>

definition good_body :: "string \<Rightarrow> bool" where
  "good_body b \<longleftrightarrow> length b \<le> maxBodyBytes \<and> (b = [] \<or> parseBody b \<noteq> [])"

text \<open>The body file of \<open>u\<close> is as before or an accepted body; files of other URLs are untouched.\<close>

definition body_safe :: "codec \<Rightarrow> string \<Rightarrow> fsys \<Rightarrow> fsys \<Rightarrow> bool" where
  "body_safe K u f f' \<longleftrightarrow>
     (\<forall>n. n \<notin> own_names K u \<longrightarrow> map_of (fs_files f') n = map_of (fs_files f) n)
     \<and> (map_of (fs_files f') (bodyPath K u) = map_of (fs_files f) (bodyPath K u)
        \<or> (\<exists>b. map_of (fs_files f') (bodyPath K u) = Some b \<and> good_body b))"

lemma hook_frame [simp]:
  "ft_fs (recordOutcome F n oc w) = ft_fs w" "ft_fs (markSuccess F n ts w) = ft_fs w"
  "ft_fs (setEntries F n k w) = ft_fs w" "ft_poke (recordOutcome F n oc w) = ft_poke w"
  "ft_poke (markSuccess F n ts w) = ft_poke w" "ft_poke (setEntries F n k w) = ft_poke w"
  by (simp_all add: recordOutcome_def markSuccess_def setEntries_def)

lemma read_limited_length: "read_limited r = Inr b \<Longrightarrow> length b \<le> maxBodyBytes + 1"
  by (auto simp: read_limited_def split: option.splits if_splits)

lemma store_Write_safe:
  assumes "store_Write K u body meta f = (e, f')" "good_body body"
  shows "body_safe K u f f'"
proof -
  have "body_old_or_new K u body f (fs_files f')"
    using store_Write_visible [of K u body f meta] assms(1)
    by (simp add: visible_def body_old_or_new_def)
  then show ?thesis using assms(2) by (auto simp: body_old_or_new_def body_safe_def)
qed

lemma body_safe_refl [simp]: "body_safe K u f f"
  by (simp add: body_safe_def)

lemma body_safe_cong: "fs_files f' = fs_files f \<Longrightarrow> body_safe K u f f'"
  by (simp add: body_safe_def)

lemma fetch_store_effect:
  assumes "fetch_store F t start pm resp w = (res, w')"
  shows "body_safe (fc_Codec F) (tg_URL t) (ft_fs w) (ft_fs w')"
    and "ft_poke w' = ft_poke w" and "fr_Duration res = 0"
    and "fr_Outcome res \<noteq> FetchOutcomeSuccess \<Longrightarrow> fs_files (ft_fs w') = fs_files (ft_fs w)
      \<or> (\<exists>e. fr_Err res = Some (ErrWrap ''persist cache'' e))"
    and "fr_Outcome res = FetchOutcomeSuccess \<Longrightarrow>
      \<exists>b. map_of (fs_files (ft_fs w')) (bodyPath (fc_Codec F) (tg_URL t)) = Some b \<and> good_body b
        \<and> fr_Entries res = int (length (parseBody b))"
proof -
  let ?K = "fc_Codec F" and ?u = "tg_URL t"
  consider (kept) "ft_fs w' = ft_fs w" "fr_Outcome res \<noteq> FetchOutcomeSuccess"
    | (stored) body meta e fs where "store_Write ?K ?u body meta (ft_fs w) = (e, fs)" "ft_fs w' = fs"
      "good_body body" "e \<noteq> None \<Longrightarrow> \<exists>e. fr_Err res = Some (ErrWrap ''persist cache'' e)"
      "fr_Outcome res = FetchOutcomeSuccess \<longleftrightarrow> e = None"
      "e = None \<Longrightarrow> fr_Entries res = int (length (parseBody body))"
  proof (cases "gs_StatusCode resp = 200 \<and> (\<exists>body. read_limited resp = Inr body \<and> good_body body)")
    case True
    then obtain body where b: "gs_StatusCode resp = 200" "read_limited resp = Inr body" "good_body body" by blast
    let ?meta = "\<lparr>mt_URL = tg_URL t, mt_ETag = gs_ETag resp, mt_LastModified = gs_LastModified resp,
      mt_FetchedAt = start, mt_Bytes = int (length body), mt_Entries = int (length (parseBody body))\<rparr>"
    obtain e fs where s: "store_Write ?K ?u body ?meta (ft_fs w) = (e, fs)" by fastforce
    show thesis
      by (rule stored [OF s _ b(3)])
        (use assms b s in \<open>auto simp: fetch_store_def Let_def good_body_def failed_result_def
          split: option.splits if_splits\<close>)
  next
    case False
    then show thesis
      using assms kept
      by (auto simp: fetch_store_def Let_def good_body_def failed_result_def
          split: sum.splits if_splits prod.splits option.splits)
  qed
  note cs = this
  show "body_safe ?K ?u (ft_fs w) (ft_fs w')"
    using cs by cases (auto intro: store_Write_safe)
  show "fr_Outcome res \<noteq> FetchOutcomeSuccess \<Longrightarrow> fs_files (ft_fs w') = fs_files (ft_fs w)
      \<or> (\<exists>e. fr_Err res = Some (ErrWrap ''persist cache'' e))"
    using cs by cases auto
  show "\<exists>b. map_of (fs_files (ft_fs w')) (bodyPath ?K ?u) = Some b \<and> good_body b
        \<and> fr_Entries res = int (length (parseBody b))" if "fr_Outcome res = FetchOutcomeSuccess"
    using cs
  proof cases
    case (stored body meta e fs)
    then show ?thesis using that store_Write_ok [of ?K ?u body meta "ft_fs w" fs] by (metis)
  qed (use that in simp)
  show "ft_poke w' = ft_poke w" "fr_Duration res = 0"
    using assms
    by (auto simp: fetch_store_def Let_def failed_result_def
        split: sum.splits if_splits prod.splits option.splits)
qed

lemma ReadMeta_files: "fs_files (snd (ReadMeta K u f)) = fs_files f"
  by (simp add: ReadMeta_def os_eqs split: option.splits)

lemma fetch_body_effect:
  assumes "fetch_body F c t start w = (res, w')"
  shows "body_safe (fc_Codec F) (tg_URL t) (ft_fs w) (ft_fs w')"
    and "ft_poke w' = ft_poke w" and "fr_Duration res = 0"
    and "fr_Outcome res \<noteq> FetchOutcomeSuccess \<Longrightarrow> fs_files (ft_fs w') = fs_files (ft_fs w)
      \<or> (\<exists>e. fr_Err res = Some (ErrWrap ''persist cache'' e))"
    and "fr_Outcome res = FetchOutcomeSuccess \<Longrightarrow>
      \<exists>b. map_of (fs_files (ft_fs w')) (bodyPath (fc_Codec F) (tg_URL t)) = Some b \<and> good_body b
        \<and> fr_Entries res = int (length (parseBody b))"
proof -
  obtain pm x fs where m: "ReadMeta (fc_Codec F) (tg_URL t) (ft_fs w) = ((pm, x), fs)"
    by (metis prod.collapse)
  have fs: "fs_files fs = fs_files (ft_fs w)" using ReadMeta_files [of "fc_Codec F" "tg_URL t" "ft_fs w"] m by simp
  consider (early) "ft_fs w' = fs" "ft_poke w' = ft_poke w" "fr_Duration res = 0"
      "fr_Outcome res \<noteq> FetchOutcomeSuccess"
    | (late) resp w2 where "fetch_store F t start pm resp w2 = (res, w')" "ft_fs w2 = fs" "ft_poke w2 = ft_poke w"
    using assms m
    by (auto simp: fetch_body_def Let_def failed_result_def split: option.splits sum.splits prod.splits)
  note cs = this
  show "body_safe (fc_Codec F) (tg_URL t) (ft_fs w) (ft_fs w')"
    using cs
  proof cases
    case (late resp w2)
    then show ?thesis using fetch_store_effect(1) [OF late(1)] fs by (simp add: body_safe_def)
  qed (simp add: body_safe_cong fs)
  show "ft_poke w' = ft_poke w" "fr_Duration res = 0"
    using cs by (cases, simp, simp add: fetch_store_effect(2,3))+
  show "fs_files (ft_fs w') = fs_files (ft_fs w) \<or> (\<exists>e. fr_Err res = Some (ErrWrap ''persist cache'' e))"
    if "fr_Outcome res \<noteq> FetchOutcomeSuccess"
    using cs by cases (use fs that in \<open>auto dest: fetch_store_effect(4)\<close>)
  show "\<exists>b. map_of (fs_files (ft_fs w')) (bodyPath (fc_Codec F) (tg_URL t)) = Some b \<and> good_body b
        \<and> fr_Entries res = int (length (parseBody b))" if "fr_Outcome res = FetchOutcomeSuccess"
    using cs by cases (use that in \<open>auto dest: fetch_store_effect(5)\<close>)
qed

lemma FetchOne_effect:
  assumes "FetchOne F c t w = (res, w')"
  shows "body_safe (fc_Codec F) (tg_URL t) (ft_fs w) (ft_fs w')"
    and "ft_poke w' = ft_poke w" and "fr_Duration res = 0"
    and "fr_Outcome res \<noteq> FetchOutcomeSuccess \<Longrightarrow> fs_files (ft_fs w') = fs_files (ft_fs w)
      \<or> (\<exists>e. fr_Err res = Some (ErrWrap ''persist cache'' e))"
    and "fr_Outcome res = FetchOutcomeSuccess \<Longrightarrow>
      \<exists>b. map_of (fs_files (ft_fs w')) (bodyPath (fc_Codec F) (tg_URL t)) = Some b \<and> good_body b
        \<and> fr_Entries res = int (length (parseBody b))"
proof -
  consider (cancelled) s2 where "res = failed_result 0 None" "w' = w\<lparr>ft_st := s2\<rparr>"
    | (ran) s2 start w2 where "fetch_body F c t start (w\<lparr>ft_st := s2\<rparr>) = (res, w2)"
      "ft_fs w' = ft_fs w2" "ft_poke w' = ft_poke w2"
    using assms by (auto simp: FetchOne_def split: prod.splits option.splits)
  note cs = this
  show "body_safe (fc_Codec F) (tg_URL t) (ft_fs w) (ft_fs w')"
    using cs by cases (auto dest: fetch_body_effect(1))
  show "ft_poke w' = ft_poke w" "fr_Duration res = 0"
    using cs by (cases, simp add: failed_result_def, fastforce dest: fetch_body_effect(2,3))+
  show "fs_files (ft_fs w') = fs_files (ft_fs w) \<or> (\<exists>e. fr_Err res = Some (ErrWrap ''persist cache'' e))"
    if "fr_Outcome res \<noteq> FetchOutcomeSuccess"
    using cs by cases (use that in \<open>auto dest: fetch_body_effect(4)\<close>)
  show "\<exists>b. map_of (fs_files (ft_fs w')) (bodyPath (fc_Codec F) (tg_URL t)) = Some b \<and> good_body b
        \<and> fr_Entries res = int (length (parseBody b))" if "fr_Outcome res = FetchOutcomeSuccess"
    using cs by cases (use that in \<open>auto simp: failed_result_def dest: fetch_body_effect(5)\<close>)
qed

text \<open>The response a fetch gets, if it gets one: that of the client to the conditional request for the
  target, built from the metadata in the cache.\<close>

definition served :: "'e FetcherConfig \<Rightarrow> ctx \<Rightarrow> FetchTarget \<Rightarrow> 'e fetch \<Rightarrow> get_response \<Rightarrow> bool" where
  "served F c t w resp \<longleftrightarrow>
     fst (fc_Do F c (get_request_of F t (fst (fst (ReadMeta (fc_Codec F) (tg_URL t) (ft_fs w))))) (st_net (ft_st w)))
       = Inr resp"

text \<open>The whole body of a successful response, read to its end.\<close>

definition whole_body :: "get_response \<Rightarrow> string \<Rightarrow> bool" where
  "whole_body resp b \<longleftrightarrow> gs_StatusCode resp = 200 \<and> gs_ReadErr resp = None \<and> b = gs_Body resp \<and> good_body b"

lemma read_limited_whole:
  "read_limited resp = Inr b \<Longrightarrow> length b \<le> maxBodyBytes \<Longrightarrow> gs_ReadErr resp = None \<and> b = gs_Body resp"
  by (auto simp: read_limited_def split: option.splits if_splits)

lemma fetch_store_whole:
  assumes "fetch_store F t start pm resp w = (res, w')"
  shows "map_of (fs_files (ft_fs w')) (bodyPath (fc_Codec F) (tg_URL t))
        = map_of (fs_files (ft_fs w)) (bodyPath (fc_Codec F) (tg_URL t)) \<and> fr_Outcome res \<noteq> FetchOutcomeSuccess
      \<or> (\<exists>b. map_of (fs_files (ft_fs w')) (bodyPath (fc_Codec F) (tg_URL t)) = Some b \<and> whole_body resp b)"
proof (cases "gs_StatusCode resp = 200 \<and> (\<exists>b. read_limited resp = Inr b \<and> good_body b)")
  case False
  then show ?thesis
    using assms
    by (auto simp: fetch_store_def Let_def good_body_def failed_result_def
        split: sum.splits if_splits prod.splits option.splits)
next
  case True
  then obtain b where b: "gs_StatusCode resp = 200" "read_limited resp = Inr b" "good_body b" by blast
  let ?meta = "\<lparr>mt_URL = tg_URL t, mt_ETag = gs_ETag resp, mt_LastModified = gs_LastModified resp,
    mt_FetchedAt = start, mt_Bytes = int (length b), mt_Entries = int (length (parseBody b))\<rparr>"
  obtain e fs where s: "store_Write (fc_Codec F) (tg_URL t) b ?meta (ft_fs w) = (e, fs)" by fastforce
  have w: "whole_body resp b" using b read_limited_whole [OF b(2)] by (simp add: whole_body_def good_body_def)
  have r: "ft_fs w' = fs" "fr_Outcome res = FetchOutcomeSuccess \<longrightarrow> e = None"
    using assms b s
    by (auto simp: fetch_store_def Let_def good_body_def failed_result_def split: option.splits if_splits)
  have "map_of (fs_files fs) (bodyPath (fc_Codec F) (tg_URL t))
      \<in> {map_of (fs_files (ft_fs w)) (bodyPath (fc_Codec F) (tg_URL t)), Some b}"
    using store_Write_visible [of "fc_Codec F" "tg_URL t" b "ft_fs w" ?meta] s
    by (simp add: visible_def body_old_or_new_def)
  moreover have "e = None \<Longrightarrow> map_of (fs_files fs) (bodyPath (fc_Codec F) (tg_URL t)) = Some b"
    using store_Write_ok s by metis
  ultimately show ?thesis using r w by auto
qed

lemma FetchOne_whole:
  assumes "FetchOne F c t w = (res, w')"
  shows "map_of (fs_files (ft_fs w')) (bodyPath (fc_Codec F) (tg_URL t))
        = map_of (fs_files (ft_fs w)) (bodyPath (fc_Codec F) (tg_URL t)) \<and> fr_Outcome res \<noteq> FetchOutcomeSuccess
      \<or> (\<exists>resp b. served F c t w resp \<and> whole_body resp b
          \<and> map_of (fs_files (ft_fs w')) (bodyPath (fc_Codec F) (tg_URL t)) = Some b)"
proof -
  let ?K = "fc_Codec F" and ?u = "tg_URL t"
  obtain pm x fs where m: "ReadMeta ?K ?u (ft_fs w) = ((pm, x), fs)" by (metis prod.collapse)
  have fs: "fs_files fs = fs_files (ft_fs w)" using ReadMeta_files [of ?K ?u "ft_fs w"] m by simp
  consider (kept) "fs_files (ft_fs w') = fs_files (ft_fs w)" "fr_Outcome res \<noteq> FetchOutcomeSuccess"
    | (ran) start w1 w2 resp where "fetch_store F t start pm resp w1 = (res, w2)" "ft_fs w1 = fs"
        "ft_fs w' = ft_fs w2" "served F c t w resp"
    using assms m fs
    by (auto simp: FetchOne_def fetch_body_def Let_def failed_result_def served_def time_Now_def ctx_Err_def
        split: prod.splits option.splits sum.splits)
  then show ?thesis
  proof cases
    case (ran start w1 w2 resp)
    from fetch_store_whole [OF ran(1)] ran(2-4) fs show ?thesis by auto
  qed simp
qed

section \<open>Cycles and runs keep the bodies safe\<close>

definition bodies_safe :: "codec \<Rightarrow> string list \<Rightarrow> fsys \<Rightarrow> fsys \<Rightarrow> bool" where
  "bodies_safe K urls f f' \<longleftrightarrow>
     (\<forall>u \<in> set urls. map_of (fs_files f') (bodyPath K u) = map_of (fs_files f) (bodyPath K u)
        \<or> (\<exists>b. map_of (fs_files f') (bodyPath K u) = Some b \<and> good_body b))"

lemma bodies_safe_trans: "bodies_safe K us f f' \<Longrightarrow> bodies_safe K us f' f'' \<Longrightarrow> bodies_safe K us f f''"
  by (fastforce simp: bodies_safe_def)

lemma bodyPath_own: "codec_ok K \<Longrightarrow> bodyPath K u \<in> own_names K v \<Longrightarrow> bodyPath K u = bodyPath K v"
proof -
  assume ok: "codec_ok K" and m: "bodyPath K u \<in> own_names K v"
  have "length (bodyPath K u) = length (bodyPath K v)"
    "length (metaPath K v) = length (bodyPath K v) + 6"
    using length_CacheKey [OF ok, of u] length_CacheKey [OF ok, of v]
    by (simp_all add: bodyPath_def metaPath_def)
  then show ?thesis using m by (auto simp: own_names_def)
qed

lemma body_safe_bodies:
  assumes "codec_ok K" "body_safe K v f f'"
  shows "bodies_safe K us f f'"
proof -
  have "map_of (fs_files f') (bodyPath K u) = map_of (fs_files f) (bodyPath K u)
      \<or> (\<exists>b. map_of (fs_files f') (bodyPath K u) = Some b \<and> good_body b)" for u
    using bodyPath_own [OF assms(1), of u v] assms(2) unfolding body_safe_def by metis
  then show ?thesis by (simp add: bodies_safe_def)
qed

lemma cycle_loop_effect:
  assumes "codec_ok (fc_Codec F)" "cycle_loop F c ts ch w = (ch', w')"
  shows "bodies_safe (fc_Codec F) us (ft_fs w) (ft_fs w') \<and> ft_poke w' = ft_poke w"
  using assms(2)
proof (induction ts arbitrary: ch w)
  case Nil
  then show ?case by (simp add: bodies_safe_def)
next
  case (Cons t ts)
  obtain res w1 where f: "FetchOne F c t w = (res, w1)" by fastforce
  have "bodies_safe (fc_Codec F) us (ft_fs w1) (ft_fs w') \<and> ft_poke w' = ft_poke w1"
    using Cons.IH Cons.prems f by simp
  then show ?case
    using bodies_safe_trans [OF body_safe_bodies [OF assms(1) FetchOne_effect(1) [OF f]]]
      FetchOne_effect(2) [OF f] by simp
qed

text \<open>What is asked of the reload hook: it does not write to the cache directory or the channel.\<close>

definition reload_ok :: "('e fetch \<Rightarrow> 'e fetch) \<Rightarrow> bool" where
  "reload_ok h \<longleftrightarrow> (\<forall>w. fs_files (ft_fs (h w)) = fs_files (ft_fs w) \<and> ft_poke (h w) = ft_poke w)"

lemma cycle_effect:
  assumes "codec_ok (fc_Codec F)" "reload_ok h"
  shows "bodies_safe (fc_Codec F) us (ft_fs w) (ft_fs (cycle F c ts h w))"
    and "ft_poke (cycle F c ts h w) = ft_poke w"
  using cycle_loop_effect [OF assms(1), of c ts False w _ _ us] assms(2)
  by (auto simp: cycle_def reload_ok_def bodies_safe_def split: prod.splits)

lemma Sweep_bodies:
  assumes "Sweep K us f = (res, f')"
  shows "bodies_safe K us f f'"
  using Sweep_spec(1) [of K us f "fst res" "snd res" f'] assms
  by (auto simp: bodies_safe_def keepSet_def)

lemma run_step_bodies:
  assumes "codec_ok (fc_Codec F)" "reload_ok h" "run_step F c ts h r r'"
  shows "bodies_safe (fc_Codec F) (map tg_URL ts) (ft_fs (rn_w r)) (ft_fs (rn_w r'))"
  using assms(3)
proof (cases rule: run_step.cases)
  case (run_start res fs)
  then show ?thesis
    using bodies_safe_trans [OF Sweep_bodies cycle_effect(1) [OF assms(1,2), of _ "(rn_w r)\<lparr>ft_fs := fs\<rparr>"]]
    by simp
next
  case run_poke
  then show ?thesis using cycle_effect(1) [OF assms(1,2), of _ "(rn_w r)\<lparr>ft_poke := False\<rparr>"] by simp
next
  case run_tick
  then show ?thesis using cycle_effect(1) [OF assms(1,2)] by simp
qed (simp_all add: bodies_safe_def RefreshNow_def)

section \<open>Properties\<close>


definition sample_target :: FetchTarget where
  "sample_target = \<lparr>tg_Name = ''ads'', tg_URL = ''u''\<rparr>"

definition sample_fetcher :: "get_response \<Rightarrow> unit FetcherConfig" where
  "sample_fetcher r = \<lparr>fc_Codec = sample_codec, fc_NewRequest = (\<lambda>_. None), fc_Do = (\<lambda>c req e. (Inr r, e)),
     fc_Interval = 0, fc_Metrics = True, fc_UserAgent = ''bns''\<rparr>"

definition sample_fetch :: "unit fetch" where
  "sample_fetch = \<lparr>ft_st = init_st int 4 (NewMatcher []) (), ft_fs = sample_fs (\<lambda>_. None), ft_poke = False\<rparr>"


text \<open>In every reachable state of the fetcher's loop, through sweeps, timer ticks, pokes and
  cancellation in any order, the body file of every configured URL is the one found at startup or
  an accepted body.\<close>

theorem run_keeps_good_cache:
  assumes "run_reach F c ts h w0 r" and "codec_ok (fc_Codec F)" and "reload_ok h"
  shows "bodies_safe (fc_Codec F) (map tg_URL ts) (ft_fs w0) (ft_fs (rn_w r))"
  using assms(1)
proof (induction rule: run_reach.induct)
  case reach_init
  then show ?case by (simp add: bodies_safe_def)
next
  case (reach_step r r')
  then show ?case using bodies_safe_trans run_step_bodies [OF assms(2,3)] by blast
qed

theorem run_keeps_good_cache_witness:
  "bodies_safe sample_codec [''u''] (ft_fs sample_fetch)
     (ft_fs (rn_w \<lparr>rn_phase = Starting, rn_w = RefreshNow sample_fetch\<rparr>))"
proof -
  let ?F = "sample_fetcher \<lparr>gs_StatusCode = 500, gs_ETag = [], gs_LastModified = [], gs_Body = ''x'', gs_ReadErr = None\<rparr>"
  let ?r = "\<lparr>rn_phase = Starting, rn_w = sample_fetch\<rparr>"
  have "run_reach ?F Background [sample_target] id sample_fetch (?r\<lparr>rn_w := RefreshNow (rn_w ?r)\<rparr>)"
    by (rule run_reach.reach_step [OF run_reach.reach_init run_step.run_refresh])
  moreover have "codec_ok (fc_Codec ?F)"
    by (auto simp: sample_fetcher_def codec_ok_def sample_codec_def sha256_Size_def min_def)
  moreover have "reload_ok id" by (simp add: reload_ok_def)
  ultimately show ?thesis
    using run_keeps_good_cache [of ?F Background "[sample_target]" id sample_fetch
        "?r\<lparr>rn_w := RefreshNow (rn_w ?r)\<rparr>"]
    by (simp add: sample_fetcher_def sample_target_def)
qed

text \<open>A refresh request is never lost and never piles up: once poked, the fetcher stays poked
  until it takes the poke and runs a full cycle for it, and any number of further requests before
  that are the same single pending poke.\<close>

theorem poke_taken_by_a_cycle:
  assumes "run_step F c ts h r r'" and "ft_poke (rn_w r)" and "codec_ok (fc_Codec F)" and "reload_ok h"
  shows "ft_poke (rn_w r')
    \<or> (rn_phase r = Waiting \<and> rn_w r' = cycle F c ts h ((rn_w r)\<lparr>ft_poke := False\<rparr>))"
  using assms(1)
  by (cases rule: run_step.cases) (use assms(2) cycle_effect(2) [OF assms(3,4)] in \<open>auto simp: RefreshNow_def\<close>)

theorem poke_taken_by_a_cycle_witness:
  "RefreshNow (RefreshNow sample_fetch) = RefreshNow sample_fetch
   \<and> ft_poke (rn_w (\<lparr>rn_phase = Starting, rn_w = RefreshNow sample_fetch\<rparr>
        \<lparr>rn_w := RefreshNow (RefreshNow sample_fetch)\<rparr>))"
proof -
  let ?F = "sample_fetcher \<lparr>gs_StatusCode = 500, gs_ETag = [], gs_LastModified = [], gs_Body = ''x'', gs_ReadErr = None\<rparr>"
  let ?r = "\<lparr>rn_phase = Starting, rn_w = RefreshNow sample_fetch\<rparr>"
  have s: "run_step ?F Background [sample_target] id ?r (?r\<lparr>rn_w := RefreshNow (rn_w ?r)\<rparr>)"
    by (rule run_step.run_refresh)
  have "codec_ok (fc_Codec ?F)"
    by (auto simp: sample_fetcher_def codec_ok_def sample_codec_def sha256_Size_def min_def)
  moreover have "reload_ok id" by (simp add: reload_ok_def)
  ultimately have "ft_poke (rn_w (?r\<lparr>rn_w := RefreshNow (rn_w ?r)\<rparr>))"
    using poke_taken_by_a_cycle [OF s] by (simp add: RefreshNow_def)
  then show ?thesis by (simp add: RefreshNow_def)
qed

text \<open>The duration a fetch reports is always zero: the deferred assignment comes after the
  result has been copied.\<close>

theorem reported_duration_is_zero: "fr_Duration (fst (FetchOne F c t w)) = 0"
  using FetchOne_effect(3) [of F c t w "fst (FetchOne F c t w)" "snd (FetchOne F c t w)"] by simp

end
