(* ===== verification/Config_Validate.thy ===== *)
theory Config_Validate
  imports Config Go_Net
begin

text \<open>
  Validation of the configuration (\<open>internal/config/validate.go\<close>). The checks run in the
  order of the source and the first error is the result. Parsing a URL is a parameter. The theory
  gives the accepted configurations in closed form.
\<close>

type_synonym parse_url = "string \<Rightarrow> goerror + url"

section \<open>Checks in order\<close>

fun first_error :: "goerror option list \<Rightarrow> goerror option" where
  "first_error [] = None"
| "first_error (None # xs) = first_error xs"
| "first_error (Some e # xs) = Some e"

definition require :: "bool \<Rightarrow> string \<Rightarrow> goerror option" where
  "require ok m = (if ok then None else Some (ErrNew m))"

definition validLogLevels :: "string list" where
  "validLogLevels = [''debug'', ''info'', ''warn'', ''error'']"

definition validLogFormats :: "string list" where
  "validLogFormats = [''json'', ''text'']"

definition validateBind :: "string \<Rightarrow> string \<Rightarrow> goerror option" where
  "validateBind addr field =
     (if addr = [] then Some (ErrNew (field @ '' is required''))
      else case SplitHostPort addr of
          Inl e \<Rightarrow> Some (ErrWrap field e)
        | Inr (_, portStr) \<Rightarrow>
            (case Atoi portStr of
               None \<Rightarrow> Some (ErrNew (field @ '': port must be a number in range 0-65535''))
             | Some port \<Rightarrow>
                 require (0 \<le> port \<and> port \<le> 65535)
                   (field @ '': port must be a number in range 0-65535'')))"

text \<open>Messages name the entry they are about, as in \<open>upstreams[2]\<close>; the offending value,
  which the source quotes with \<open>%q\<close>, is left out.\<close>

definition indexed :: "string \<Rightarrow> nat \<Rightarrow> string" where
  "indexed what i = what @ ''['' @ FormatUint i @ '']''"

definition validateUDPUpstream :: "nat \<Rightarrow> UpstreamCfg \<Rightarrow> goerror option" where
  "validateUDPUpstream i u =
     (let at = indexed ''upstreams'' i in
      first_error
        [require (up_Addr u \<noteq> []) (at @ '': addr is required for type=udp''),
         (case SplitHostPort (up_Addr u) of Inl e \<Rightarrow> Some (ErrWrap (at @ ''.addr'') e) | Inr _ \<Rightarrow> None),
         require (up_URL u = [] \<and> up_EndpointIPs u = []) (at @ '': url/endpoint_ips not valid for type=udp'')])"

definition validateDoHUpstream :: "parse_url \<Rightarrow> nat \<Rightarrow> UpstreamCfg \<Rightarrow> goerror option" where
  "validateDoHUpstream P i u =
     (let at = indexed ''upstreams'' i in
      if up_URL u = [] then Some (ErrNew (at @ '': url is required for type=doh''))
      else case P (up_URL u) of
          Inl e \<Rightarrow> Some (ErrWrap (at @ ''.url'') e)
        | Inr parsed \<Rightarrow>
            first_error
              ([require (url_Scheme parsed = ''https'') (at @ ''.url: scheme must be https''),
                require (url_Hostname parsed \<noteq> []) (at @ ''.url: missing host''),
                require (\<not> ParseIP_ok (url_Hostname parsed))
                  (at @ ''.url: url host must be a hostname, not an IP literal''),
                require (up_Addr u = []) (at @ '': addr not valid for type=doh''),
                require (up_EndpointIPs u \<noteq> []) (at @ '': endpoint_ips is required for type=doh'')]
               @ map (\<lambda>(j, ip). require (ParseIP_ok ip) (at @ indexed ''.endpoint_ips'' j @ '': not a valid IP''))
                   (List.enumerate 0 (up_EndpointIPs u))))"

definition validateUpstream :: "parse_url \<Rightarrow> nat \<Rightarrow> UpstreamCfg \<Rightarrow> goerror option" where
  "validateUpstream P i u =
     first_error
       [require (0 < up_Timeout u) (indexed ''upstreams'' i @ ''.timeout must be > 0''),
        (if up_Type u = '''' \<or> up_Type u = ''udp'' then validateUDPUpstream i u
         else if up_Type u = ''doh'' then validateDoHUpstream P i u
         else Some (ErrNew (indexed ''upstreams'' i @ ''.type must be \"udp\" or \"doh\"'')))]"

text \<open>The switch on the type of a source.\<close>

definition validateSource :: "parse_url \<Rightarrow> string \<Rightarrow> BlocklistSource \<Rightarrow> goerror option" where
  "validateSource P at s =
     (if bs_Type s = ''file'' then require (bs_Path s \<noteq> []) (at @ '': path is required for type=file'')
      else if bs_Type s = ''http'' then
        (if bs_URL s = [] then Some (ErrNew (at @ '': url is required for type=http''))
         else case P (bs_URL s) of
             Inl e \<Rightarrow> Some (ErrWrap (at @ '': url'') e)
           | Inr u \<Rightarrow> require (url_Scheme u = ''http'' \<or> url_Scheme u = ''https'')
               (at @ '': url scheme must be http or https''))
      else Some (ErrNew (at @ '': type must be file or http'')))"

fun validateSources :: "parse_url \<Rightarrow> (string \<rightharpoonup> nat) \<Rightarrow> nat \<Rightarrow> BlocklistSource list \<Rightarrow> goerror option" where
  "validateSources P seen i [] = None"
| "validateSources P seen i (s # ss) =
     (let at = indexed ''blocklists.sources'' i in
      if bs_Name s = [] then Some (ErrNew (at @ ''.name is required''))
      else case seen (bs_Name s) of
          Some first \<Rightarrow>
            Some (ErrNew (at @ ''.name must be unique (already declared at '' @ indexed ''sources'' first @ '')''))
        | None \<Rightarrow>
            (case validateSource P (at @ '' ('' @ bs_Name s @ '')'') s of
               Some e \<Rightarrow> Some e
             | None \<Rightarrow> validateSources P (seen(bs_Name s \<mapsto> i)) (Suc i) ss))"

definition hasHTTPBlocklist :: "Config \<Rightarrow> bool" where
  "hasHTTPBlocklist c = list_ex (\<lambda>s. bs_Type s = ''http'') (bl_Sources (cfg_Blocklists c))"

definition bootstrap_count :: "UpstreamCfg list \<Rightarrow> nat" where
  "bootstrap_count us =
     sum_list (map (\<lambda>u. if up_Type u = '''' \<or> up_Type u = ''udp'' then (if up_Addr u \<noteq> [] then 1 else 0)
        else if up_Type u = ''doh'' then length (up_EndpointIPs u) else 0) us)"

text \<open>The checks before the cross-field check, in order.\<close>

definition Validate_checks :: "parse_url \<Rightarrow> Config \<Rightarrow> goerror option list" where
  "Validate_checks P c =
     [validateBind (li_UDP (cfg_Listen c)) ''listen.udp'',
      validateBind (li_TCP (cfg_Listen c)) ''listen.tcp'',
      validateBind (ad_Listen (cfg_Admin c)) ''admin.listen'',
      require (0 < li_QueryTimeout (cfg_Listen c)) ''listen.query_timeout must be > 0'',
      require (cfg_Upstreams c \<noteq> []) ''at least one upstream is required'']
     @ map (\<lambda>(i, u). validateUpstream P i u) (List.enumerate 0 (cfg_Upstreams c))
     @ [require (0 < cc_Capacity (cfg_Cache c)) ''cache.capacity must be > 0'',
        require (0 < cc_MaxTTL (cfg_Cache c)) ''cache.max_ttl must be > 0'',
        require (0 < cc_NegativeTTLMax (cfg_Cache c)) ''cache.negative_ttl_max must be > 0'',
        require (lg_Level (cfg_Logging c) \<in> set validLogLevels) ''logging.level must be one of [debug info warn error]'',
        require (lg_Format (cfg_Logging c) \<in> set validLogFormats) ''logging.format must be one of [json text]'',
        require (0 < cfg_ShutdownTimeout c) ''shutdown_timeout must be > 0'',
        require (0 < cfg_StartupProbeTimeout c) ''startup_probe_timeout must be > 0'',
        require (\<not> (0 < bl_RefreshInterval (cfg_Blocklists c)
            \<and> bl_RefreshInterval (cfg_Blocklists c) < time_Minute))
          ''blocklists.refresh_interval must be >= 1m (or 0 to disable refresh)'',
        validateSources P Map.empty 0 (bl_Sources (cfg_Blocklists c))]"

definition Validate :: "parse_url \<Rightarrow> Config \<Rightarrow> goerror option" where
  "Validate P c =
     first_error
       (Validate_checks P c
        @ [require (\<not> (hasHTTPBlocklist c \<and> bootstrap_count (cfg_Upstreams c) = 0))
             ''blocklists.sources contains type=http but upstream config yields no bootstrap IPs''])"

section \<open>The accepted configurations\<close>

lemma first_error_None: "first_error xs = None \<longleftrightarrow> list_all (\<lambda>x. x = None) xs"
  by (induction xs rule: first_error.induct) auto

lemma first_error_append:
  "first_error (xs @ ys) = (case first_error xs of Some e \<Rightarrow> Some e | None \<Rightarrow> first_error ys)"
  by (induction xs rule: first_error.induct) auto

lemma list_all_enumerate:
  assumes "\<And>i x. f i x = None \<longleftrightarrow> Q x"
  shows "list_all (\<lambda>x. x = None) (map (\<lambda>(i, x). f i x) (List.enumerate n xs)) \<longleftrightarrow> list_all Q xs"
  using assms by (auto simp: list_all_length nth_enumerate_eq)

lemma require_None [simp]: "require b m = None \<longleftrightarrow> b"
  by (simp add: require_def)

definition bind_ok :: "string \<Rightarrow> bool" where
  "bind_ok a \<longleftrightarrow> (\<exists>host port n. SplitHostPort a = Inr (host, port) \<and> Atoi port = Some n \<and> 0 \<le> n \<and> n \<le> 65535)"

definition udp_ok :: "UpstreamCfg \<Rightarrow> bool" where
  "udp_ok u \<longleftrightarrow> up_Type u \<in> {[], ''udp''} \<and> (\<exists>hp. SplitHostPort (up_Addr u) = Inr hp)
     \<and> up_URL u = [] \<and> up_EndpointIPs u = []"

definition doh_ok :: "parse_url \<Rightarrow> UpstreamCfg \<Rightarrow> bool" where
  "doh_ok P u \<longleftrightarrow> up_Type u = ''doh'' \<and> up_URL u \<noteq> [] \<and> up_Addr u = [] \<and> up_EndpointIPs u \<noteq> []
     \<and> list_all ParseIP_ok (up_EndpointIPs u)
     \<and> (\<exists>p. P (up_URL u) = Inr p \<and> url_Scheme p = ''https'' \<and> url_Hostname p \<noteq> []
          \<and> \<not> ParseIP_ok (url_Hostname p))"

definition source_ok :: "parse_url \<Rightarrow> BlocklistSource \<Rightarrow> bool" where
  "source_ok P s \<longleftrightarrow> bs_Name s \<noteq> []
     \<and> ((bs_Type s = ''file'' \<and> bs_Path s \<noteq> [])
        \<or> (bs_Type s = ''http'' \<and> bs_URL s \<noteq> []
           \<and> (\<exists>u. P (bs_URL s) = Inr u \<and> url_Scheme u \<in> {''http'', ''https''})))"

definition valid_config :: "parse_url \<Rightarrow> Config \<Rightarrow> bool" where
  "valid_config P c \<longleftrightarrow>
     list_all bind_ok [li_UDP (cfg_Listen c), li_TCP (cfg_Listen c), ad_Listen (cfg_Admin c)]
     \<and> 0 < li_QueryTimeout (cfg_Listen c)
     \<and> cfg_Upstreams c \<noteq> []
     \<and> list_all (\<lambda>u. 0 < up_Timeout u \<and> (udp_ok u \<or> doh_ok P u)) (cfg_Upstreams c)
     \<and> 0 < cc_Capacity (cfg_Cache c) \<and> 0 < cc_MaxTTL (cfg_Cache c) \<and> 0 < cc_NegativeTTLMax (cfg_Cache c)
     \<and> lg_Level (cfg_Logging c) \<in> {''debug'', ''info'', ''warn'', ''error''}
     \<and> lg_Format (cfg_Logging c) \<in> {''json'', ''text''}
     \<and> 0 < cfg_ShutdownTimeout c \<and> 0 < cfg_StartupProbeTimeout c
     \<and> (bl_RefreshInterval (cfg_Blocklists c) \<le> 0 \<or> time_Minute \<le> bl_RefreshInterval (cfg_Blocklists c))
     \<and> list_all (source_ok P) (bl_Sources (cfg_Blocklists c))
     \<and> distinct (map bs_Name (bl_Sources (cfg_Blocklists c)))"

lemma SplitHostPort_Nil: "SplitHostPort [] = Inl (ErrNew ''missing port in address'')"
  by (simp add: SplitHostPort_def LastIndexByte_def)

lemma validateBind_None: "validateBind a f = None \<longleftrightarrow> bind_ok a"
  by (auto simp: validateBind_def bind_ok_def SplitHostPort_Nil split: sum.splits option.splits)

lemma validateUDP_None:
  "up_Type u \<in> {[], ''udp''} \<Longrightarrow> validateUDPUpstream i u = None \<longleftrightarrow> udp_ok u"
  by (auto simp: validateUDPUpstream_def first_error_None Let_def udp_ok_def SplitHostPort_Nil split: sum.splits)

lemma validateDoH_None:
  "up_Type u = ''doh'' \<Longrightarrow> validateDoHUpstream P i u = None \<longleftrightarrow> doh_ok P u"
proof -
  have "list_all (\<lambda>x. x = None) (map (\<lambda>(j, ip). require (ParseIP_ok ip) (m @ indexed t j @ t')) (List.enumerate 0 ips))
      \<longleftrightarrow> list_all ParseIP_ok ips" for m t t' ips
    by (rule list_all_enumerate) simp
  then show "up_Type u = ''doh'' \<Longrightarrow> validateDoHUpstream P i u = None \<longleftrightarrow> doh_ok P u"
    by (auto simp: validateDoHUpstream_def first_error_None Let_def doh_ok_def split: sum.splits)
qed

lemma validateUpstream_None:
  "validateUpstream P i u = None \<longleftrightarrow> 0 < up_Timeout u \<and> (udp_ok u \<or> doh_ok P u)"
proof -
  have "udp_ok u \<Longrightarrow> up_Type u \<in> {[], ''udp''}" "doh_ok P u \<Longrightarrow> up_Type u = ''doh''"
    by (simp_all add: udp_ok_def doh_ok_def)
  then show ?thesis
    using validateUDP_None [of u i] validateDoH_None [of u P i]
    by (auto simp: validateUpstream_def first_error_None)
qed

lemma validateSources_None:
  "validateSources P seen i ss = None \<longleftrightarrow>
     list_all (source_ok P) ss \<and> distinct (map bs_Name ss) \<and> (\<forall>s \<in> set ss. seen (bs_Name s) = None)"
proof (induction ss arbitrary: seen i)
  case (Cons s ss)
  have src: "source_ok P s \<longleftrightarrow> bs_Name s \<noteq> [] \<and> validateSource P at s = None" for at
    by (auto simp: source_ok_def validateSource_def split: sum.splits)
  show ?case
  proof (cases "bs_Name s \<noteq> [] \<and> seen (bs_Name s) = None \<and> source_ok P s")
    case True
    then have "validateSources P seen i (s # ss) = None \<longleftrightarrow>
        list_all (source_ok P) ss \<and> distinct (map bs_Name ss)
        \<and> (\<forall>x \<in> set ss. (seen(bs_Name s \<mapsto> i)) (bs_Name x) = None)"
      using src by (simp add: Cons.IH Let_def)
    also have "(\<forall>x \<in> set ss. (seen(bs_Name s \<mapsto> i)) (bs_Name x) = None)
        \<longleftrightarrow> bs_Name s \<notin> bs_Name ` set ss \<and> (\<forall>x \<in> set ss. seen (bs_Name x) = None)"
      by (auto simp: image_iff split: if_splits)
    finally show ?thesis using True src by auto
  next
    case False
    then have "validateSources P seen i (s # ss) \<noteq> None"
      using src [of "indexed ''blocklists.sources'' i @ '' ('' @ bs_Name s @ '')''"]
      by (cases "seen (bs_Name s)") (auto simp: Let_def)
    moreover have "\<not> (list_all (source_ok P) (s # ss) \<and> (\<forall>s \<in> set (s # ss). seen (bs_Name s) = None))"
      using False src by auto
    ultimately show ?thesis by blast
  qed
qed simp

lemma bootstrap_count_pos:
  assumes "us \<noteq> []" "list_all (\<lambda>u. 0 < up_Timeout u \<and> (udp_ok u \<or> doh_ok P u)) us"
  shows "0 < bootstrap_count us"
proof -
  obtain u us' where us: "us = u # us'" using assms(1) by (cases us) auto
  then have "udp_ok u \<or> doh_ok P u" using assms(2) by simp
  then have "0 < bootstrap_count [u]"
    by (auto simp: bootstrap_count_def udp_ok_def doh_ok_def SplitHostPort_Nil)
  then show ?thesis by (auto simp: bootstrap_count_def us)
qed

lemma checks_None: "first_error (Validate_checks P c) = None \<longleftrightarrow> valid_config P c"
proof -
  have "\<not> (0 < i \<and> i < time_Minute) \<longleftrightarrow> i \<le> 0 \<or> time_Minute \<le> i" for i by auto
  moreover note list_all_enumerate [of "validateUpstream P", OF validateUpstream_None]
  ultimately show ?thesis
    by (simp add: Validate_checks_def first_error_None valid_config_def validateBind_None
        validateSources_None validLogLevels_def validLogFormats_def)
qed

lemma valid_bootstrap: "valid_config P c \<Longrightarrow> bootstrap_count (cfg_Upstreams c) \<noteq> 0"
  using bootstrap_count_pos [of "cfg_Upstreams c" P] by (simp add: valid_config_def)

section \<open>Properties\<close>

text \<open>C18: Validation accepts exactly the configurations in which every listen address has a port in
  range, there is at least one upstream and each is complete for its type with a positive timeout,
  cache limits and timeouts are positive, level and format are known, the refresh interval is not
  positive or at least a minute, and every blocklist source is complete for its type and uniquely
  named. The port of a UDP upstream is not looked at, and a negative refresh interval passes, although
  the design documents exclude both.\<close>

theorem Validate_exact: "Validate P c = None \<longleftrightarrow> valid_config P c"
proof -
  have "Validate P c = None \<longleftrightarrow>
      first_error (Validate_checks P c) = None \<and> \<not> (hasHTTPBlocklist c \<and> bootstrap_count (cfg_Upstreams c) = 0)"
    by (simp add: Validate_def first_error_None)
  then show ?thesis using checks_None [of P c] valid_bootstrap [of P c] by blast
qed

text \<open>The final cross-check of validation, that some upstream yields a bootstrap address for
  HTTP blocklists, never decides: validation gives the same result, error included, without it,
  because the checks on the upstreams already imply it.\<close>

theorem bootstrap_check_redundant: "Validate P c = first_error (Validate_checks P c)"
proof (cases "first_error (Validate_checks P c)")
  case None
  then have "\<not> (hasHTTPBlocklist c \<and> bootstrap_count (cfg_Upstreams c) = 0)"
    using checks_None [of P c] valid_bootstrap [of P c] by blast
  then show ?thesis using None by (simp add: Validate_def first_error_append require_def)
qed (simp add: Validate_def first_error_append)

end
