(* ===== verification/Admin.thy ===== *)
theory Admin
  imports Go_Strings
begin

text \<open>
  Health probes (\<open>internal/health\<close>) and the administrative HTTP server
  (\<open>internal/admin/server.go\<close>). The request multiplexer of \<open>net/http\<close> is modelled on
  paths that are already clean; the Prometheus handler and the profiling handlers are parameters.
\<close>

section \<open>Readiness\<close>

record Readiness =
  rd_blocklist :: bool
  rd_listeners :: bool
  rd_upstream :: bool

definition NewReadiness :: Readiness where
  "NewReadiness = \<lparr>rd_blocklist = False, rd_listeners = False, rd_upstream = False\<rparr>"

definition SetBlocklistReady :: "Readiness \<Rightarrow> bool \<Rightarrow> Readiness" where
  "SetBlocklistReady r v = r\<lparr>rd_blocklist := v\<rparr>"

definition SetListenersReady :: "Readiness \<Rightarrow> bool \<Rightarrow> Readiness" where
  "SetListenersReady r v = r\<lparr>rd_listeners := v\<rparr>"

definition SetUpstreamReady :: "Readiness \<Rightarrow> bool \<Rightarrow> Readiness" where
  "SetUpstreamReady r v = r\<lparr>rd_upstream := v\<rparr>"

definition Ready :: "Readiness \<Rightarrow> bool" where
  "Ready r = (rd_blocklist r \<and> rd_listeners r \<and> rd_upstream r)"

text \<open>What a handler writes: the status, the headers it sets, the body.\<close>

record http_reply =
  rp_Status :: int
  rp_Header :: "(string \<times> string) list"
  rp_Body :: string

definition LivenessHandler :: http_reply where
  "LivenessHandler = \<lparr>rp_Status = 200, rp_Header = [], rp_Body = ''ok''\<rparr>"

text \<open>The JSON encoder writes an object with sorted keys and a final newline.\<close>

definition json_bool :: "bool \<Rightarrow> string" where
  "json_bool b = (if b then ''true'' else ''false'')"

definition quoted :: "string \<Rightarrow> string" where
  "quoted s = CHR 34 # s @ [CHR 34]"

fun json_fields :: "(string \<times> bool) list \<Rightarrow> string" where
  "json_fields [] = []"
| "json_fields [(k, v)] = quoted k @ '':'' @ json_bool v"
| "json_fields ((k, v) # kvs) = quoted k @ '':'' @ json_bool v @ '','' @ json_fields kvs"

definition json_bools :: "(string \<times> bool) list \<Rightarrow> string" where
  "json_bools kvs = ''{'' @ json_fields kvs @ ''}'' @ [CHR 10]"

definition ReadinessHandler :: "Readiness \<Rightarrow> http_reply" where
  "ReadinessHandler r =
     \<lparr>rp_Status = (if Ready r then 200 else 503),
      rp_Header = [(''Content-Type'', ''application/json'')],
      rp_Body = json_bools [(''blocklist'', rd_blocklist r), (''listeners'', rd_listeners r),
        (''upstream'', rd_upstream r)]\<rparr>"

section \<open>The admin server\<close>

datatype handler = HMetrics | HLiveness | HReadiness | HPprof string

type_synonym mux = "(string \<times> handler) list"

definition WithPprof :: "mux \<Rightarrow> mux" where
  "WithPprof m =
     m @ [(''/debug/pprof/'', HPprof ''Index''), (''/debug/pprof/cmdline'', HPprof ''Cmdline''),
          (''/debug/pprof/profile'', HPprof ''Profile''), (''/debug/pprof/symbol'', HPprof ''Symbol''),
          (''/debug/pprof/trace'', HPprof ''Trace'')]"

definition admin_New :: "(mux \<Rightarrow> mux) list \<Rightarrow> mux" where
  "admin_New opts =
     fold (\<lambda>o' m. o' m) opts
       [(''/metrics'', HMetrics), (''/healthz'', HLiveness), (''/readyz'', HReadiness)]"

text \<open>The options \<open>runServe\<close> passes.\<close>

definition admin_opts :: "bool \<Rightarrow> (mux \<Rightarrow> mux) list" where
  "admin_opts pprof = (if pprof then [WithPprof] else [])"

text \<open>The multiplexer: an exact pattern, else the longest pattern ending in a slash that is a prefix
  of the path, else a redirect when the path with a slash is a pattern, else 404.\<close>

datatype route = Handle handler | RedirectSlash | NotFound

definition ends_slash :: "string \<Rightarrow> bool" where
  "ends_slash p = (p \<noteq> [] \<and> last p = CHR ''/'')"

definition subtree_patterns :: "mux \<Rightarrow> string \<Rightarrow> (string \<times> handler) list" where
  "subtree_patterns m path = filter (\<lambda>(p, _). ends_slash p \<and> take (length p) path = p) m"

definition longest :: "(string \<times> handler) list \<Rightarrow> (string \<times> handler) option" where
  "longest xs =
     fold (\<lambda>x best. case best of None \<Rightarrow> Some x
       | Some y \<Rightarrow> if length (fst y) < length (fst x) then Some x else Some y) xs None"

definition mux_route :: "mux \<Rightarrow> string \<Rightarrow> route" where
  "mux_route m path =
     (case map_of m path of
        Some h \<Rightarrow> Handle h
      | None \<Rightarrow>
          (if map_of m (path @ ''/'') \<noteq> None then RedirectSlash
           else case longest (subtree_patterns m path) of
               Some (_, h) \<Rightarrow> Handle h
             | None \<Rightarrow> NotFound))"

text \<open>The replies of the handlers outside: the metrics page, a profile by name, a redirect, 404.\<close>

record replies =
  re_metrics :: http_reply
  re_pprof :: "string \<Rightarrow> http_reply"
  re_redirect :: "string \<Rightarrow> http_reply"
  re_notFound :: http_reply

fun handle :: "replies \<Rightarrow> Readiness \<Rightarrow> string \<Rightarrow> route \<Rightarrow> http_reply" where
  "handle R r path (Handle HMetrics) = re_metrics R"
| "handle R r path (Handle HLiveness) = LivenessHandler"
| "handle R r path (Handle HReadiness) = ReadinessHandler r"
| "handle R r path (Handle (HPprof n)) = re_pprof R n"
| "handle R r path RedirectSlash = re_redirect R (path @ ''/'')"
| "handle R r path NotFound = re_notFound R"

definition admin_ServeHTTP :: "bool \<Rightarrow> replies \<Rightarrow> Readiness \<Rightarrow> string \<Rightarrow> http_reply" where
  "admin_ServeHTTP pprof R r path = handle R r path (mux_route (admin_New (admin_opts pprof)) path)"

section \<open>Routing\<close>

definition pprof_root :: string where "pprof_root = ''/debug/pprof/''"

lemma not_slash_last: "p \<noteq> [] \<Longrightarrow> last p \<noteq> CHR ''/'' \<Longrightarrow> path @ ''/'' \<noteq> p"
  by (metis last_snoc)

lemma slash_patterns:
  "path @ ''/'' \<noteq> ''/metrics''" "path @ ''/'' \<noteq> ''/healthz''" "path @ ''/'' \<noteq> ''/readyz''"
  "path @ ''/'' \<noteq> ''/debug/pprof/cmdline''" "path @ ''/'' \<noteq> ''/debug/pprof/profile''"
  "path @ ''/'' \<noteq> ''/debug/pprof/symbol''" "path @ ''/'' \<noteq> ''/debug/pprof/trace''"
  by (rule not_slash_last; simp)+

lemma routes_plain:
  "mux_route (admin_New (admin_opts False)) path =
     (if path = ''/metrics'' then Handle HMetrics
      else if path = ''/healthz'' then Handle HLiveness
      else if path = ''/readyz'' then Handle HReadiness
      else NotFound)"
  by (simp add: mux_route_def admin_New_def admin_opts_def subtree_patterns_def ends_slash_def longest_def
      slash_patterns)

lemma routes_pprof:
  "mux_route (admin_New (admin_opts True)) path =
     (if path = ''/metrics'' then Handle HMetrics
      else if path = ''/healthz'' then Handle HLiveness
      else if path = ''/readyz'' then Handle HReadiness
      else if path = ''/debug/pprof'' then RedirectSlash
      else if path = ''/debug/pprof/cmdline'' then Handle (HPprof ''Cmdline'')
      else if path = ''/debug/pprof/profile'' then Handle (HPprof ''Profile'')
      else if path = ''/debug/pprof/symbol'' then Handle (HPprof ''Symbol'')
      else if path = ''/debug/pprof/trace'' then Handle (HPprof ''Trace'')
      else if take (length pprof_root) path = pprof_root then Handle (HPprof ''Index'')
      else NotFound)"
proof -
  have "path @ ''/'' = ''/debug/pprof/'' \<longleftrightarrow> path = ''/debug/pprof''"
    using append_eq_append_conv [of "''/''" "''/''" path "''/debug/pprof''"] by simp
  then show ?thesis
    by (simp add: mux_route_def admin_New_def admin_opts_def WithPprof_def subtree_patterns_def ends_slash_def
        longest_def slash_patterns pprof_root_def)
qed

section \<open>Properties\<close>


end
