(* ===== verification/Dialers.thy ===== *)
theory Dialers
  imports Go_Net "HOL-Library.Multiset"
begin

text \<open>
  The two round-robin dialers: the \<open>DialContext\<close> of the DNS-over-HTTPS transport
  (\<open>internal/upstream/doh_client.go\<close>) and the bootstrap dialer of the blocklist fetcher
  (\<open>internal/blocklist/bootstrap_dialer.go\<close>). The 32-bit counter is kept at its width. The
  result of dialling one address is a parameter.
\<close>

section \<open>The dial loops\<close>

text \<open>The loop from attempt \<open>i\<close> on; the last error is carried along.\<close>

function dial_from :: "(string \<Rightarrow> goerror + 'c) \<Rightarrow> string list \<Rightarrow> nat \<Rightarrow> nat \<Rightarrow> goerror option
    \<Rightarrow> goerror option + 'c" where
  "dial_from dial addrs start i lastErr =
     (if i < length addrs then
        (case dial (addrs ! ((start + i) mod length addrs)) of
           Inr conn \<Rightarrow> Inr conn
         | Inl e \<Rightarrow> dial_from dial addrs start (Suc i) (Some e))
      else Inl lastErr)"
  by pat_completeness auto
termination
  by (relation "measure (\<lambda>(dial, addrs, start, i, e). length addrs - i)") auto

declare dial_from.simps [simp del]

text \<open>\<open>rr.Add(1) - 1\<close> is the counter before the call, modulo the word size; the new counter
  is returned with the result.\<close>

definition doh_DialContext :: "(string \<Rightarrow> goerror + 'c) \<Rightarrow> string list \<Rightarrow> string \<Rightarrow> u32
    \<Rightarrow> (goerror option + 'c) \<times> u32" where
  "doh_DialContext dial dialAddrs port rr =
     (dial_from (\<lambda>ip. dial (JoinHostPort ip port)) dialAddrs
        (unat ((rr + 1) - 1) mod length dialAddrs) 0 None, rr + 1)"

definition bootstrap_dial :: "(string \<Rightarrow> goerror + 'c) \<Rightarrow> string list \<Rightarrow> u32
    \<Rightarrow> (goerror option + 'c) \<times> u32" where
  "bootstrap_dial dial addrs rr =
     (dial_from dial addrs (unat (rr + 1) mod length addrs) 0 None, rr + 1)"

text \<open>The resolver of the fetcher's HTTP client: Go's own with the dialer above over a copy of the
  addresses, or the default one when there is no address.\<close>

datatype net_resolver = DefaultResolver | BootstrapResolver "string list"

definition NewBootstrapResolver :: "string list \<Rightarrow> net_resolver" where
  "NewBootstrapResolver upstreamAddrs =
     (if upstreamAddrs = [] then DefaultResolver else BootstrapResolver upstreamAddrs)"

section \<open>The order of the attempts\<close>

definition dial_order :: "string list \<Rightarrow> nat \<Rightarrow> string list" where
  "dial_order addrs start = map (\<lambda>i. addrs ! ((start + i) mod length addrs)) [0..<length addrs]"

lemma dial_order_rotate: "dial_order addrs start = rotate start addrs"
  by (rule nth_equalityI) (simp_all add: dial_order_def nth_rotate add.commute)

lemma dial_from_find:
  "dial_from dial addrs start i err =
     (let todo = drop i (dial_order addrs start) in
      case find (\<lambda>a. \<exists>c. dial a = Inr c) todo of
        Some a \<Rightarrow> Inr (projr (dial a))
      | None \<Rightarrow> Inl (if todo = [] then err else Some (projl (dial (last todo)))))"
proof (induction dial addrs start i err rule: dial_from.induct)
  case (1 dial addrs start i err)
  show ?case
  proof (cases "i < length addrs")
    case False
    then show ?thesis by (simp add: dial_from.simps [of _ _ _ i] dial_order_def Let_def)
  next
    case True
    let ?a = "addrs ! ((start + i) mod length addrs)"
    have d: "drop i (dial_order addrs start) = ?a # drop (Suc i) (dial_order addrs start)"
      using True by (simp add: dial_order_def Cons_nth_drop_Suc [symmetric])
    show ?thesis
    proof (cases "dial ?a")
      case (Inl e)
      then show ?thesis
        using True 1 [OF True Inl]
        by (simp add: dial_from.simps [of _ _ _ i] d Let_def split: option.splits)
    next
      case (Inr c)
      then show ?thesis using True by (simp add: dial_from.simps [of _ _ _ i] d Let_def)
    qed
  qed
qed

lemma mset_rotate: "mset (rotate k xs) = mset xs"
  by (metis append_take_drop_id mset_append rotate_drop_take union_commute)

definition rr_start :: "u32 \<Rightarrow> nat \<Rightarrow> nat" where
  "rr_start rr n = unat rr mod n"

section \<open>Properties\<close>

text \<open>Both dialers connect to the first reachable address of the configured list, taken in the
  order of the list rotated by the counter; they fail only when every configured address has been
  tried and failed, and no address is left out or tried twice.\<close>

theorem dialers_try_every_address:
  "(case fst (bootstrap_dial dial addrs rr) of
      Inr conn \<Rightarrow> \<exists>a. find (\<lambda>a. \<exists>c. dial a = Inr c) (rotate (rr_start (rr + 1) (length addrs)) addrs) = Some a
                   \<and> dial a = Inr conn
    | Inl _ \<Rightarrow> \<forall>a. a \<in> set addrs \<longrightarrow> (\<exists>e. dial a = Inl e))
   \<and> (case fst (doh_DialContext dial addrs port rr) of
      Inr conn \<Rightarrow> \<exists>a. find (\<lambda>a. \<exists>c. dial (JoinHostPort a port) = Inr c)
                     (rotate (rr_start rr (length addrs)) addrs) = Some a
                   \<and> dial (JoinHostPort a port) = Inr conn
    | Inl _ \<Rightarrow> \<forall>a. a \<in> set addrs \<longrightarrow> (\<exists>e. dial (JoinHostPort a port) = Inl e))
   \<and> mset (rotate k addrs) = mset addrs"
proof -
  have main: "case dial_from d addrs st 0 None of
      Inr conn \<Rightarrow> \<exists>a. find (\<lambda>a. \<exists>c. d a = Inr c) (rotate st addrs) = Some a \<and> d a = Inr conn
    | Inl _ \<Rightarrow> \<forall>a. a \<in> set addrs \<longrightarrow> (\<exists>e. d a = Inl e)" for d :: "string \<Rightarrow> goerror + 'a" and st
  proof (cases "find (\<lambda>a. \<exists>c. d a = Inr c) (rotate st addrs)")
    case None
    then have "\<forall>a \<in> set addrs. \<nexists>c. d a = Inr c" by (simp add: find_None_iff_all)
    then have "\<forall>a. a \<in> set addrs \<longrightarrow> (\<exists>e. d a = Inl e)" by (metis sum.exhaust)
    with None show ?thesis by (simp add: dial_from_find dial_order_rotate Let_def)
  next
    case (Some a)
    then obtain c where "d a = Inr c" using find_SomeD by force
    with Some show ?thesis by (simp add: dial_from_find dial_order_rotate Let_def)
  qed
  show ?thesis
    using main [of dial "rr_start (rr + 1) (length addrs)"]
      main [of "\<lambda>a. dial (JoinHostPort a port)" "rr_start rr (length addrs)"]
    by (simp add: bootstrap_dial_def doh_DialContext_def rr_start_def mset_rotate)
qed

theorem dialers_try_every_address_witness:
  "fst (bootstrap_dial (\<lambda>a. if a = ''b'' then Inr () else Inl (ErrNew ''refused'')) [''a'', ''b''] 1) = Inr ()"
proof -
  let ?d = "\<lambda>a. if a = ''b'' then Inr () else Inl (ErrNew ''refused'')"
  have "case fst (bootstrap_dial ?d [''a'', ''b''] 1) of Inr conn \<Rightarrow> True
      | Inl _ \<Rightarrow> (\<forall>a. a \<in> set [''a'', ''b''] \<longrightarrow> (\<exists>e. ?d a = Inl e))"
    using dialers_try_every_address [where dial = ?d and addrs = "[''a'', ''b'']" and rr = 1] by (auto split: sum.splits)
  moreover have "\<not> (\<exists>e. ?d ''b'' = Inl e)" by simp
  ultimately show ?thesis by (auto split: sum.splits)
qed

end
