(* ===== verification/Serve.thy ===== *)
theory Serve
  imports Chain Blocklist_Fetcher Config_Validate Admin Dialers
begin

text \<open>
  The assembly of the server (\<open>runServe\<close> in \<open>cmd/bns/serve.go\<close> and
  \<open>internal/server/server.go\<close>): startup from a configuration, the reload of the blocklist, and
  the goroutines of the running server as a step relation. Listening on an address, building a
  probe message and the libraries of the components are parameters.
\<close>

section \<open>Startup\<close>

text \<open>What the fetcher's HTTP client is built from.\<close>

record http_client =
  hc_Timeout :: int
  hc_DialTimeout :: int
  hc_Resolver :: net_resolver
  hc_MaxIdleConns :: nat
  hc_IdleConnTimeout :: int
  hc_TLSHandshakeTimeout :: int

record 'e env =
  ev_lib :: "'e lib"
  ev_codec :: codec
  ev_NewRequest :: "string \<Rightarrow> goerror option"
  ev_Get :: "http_client \<Rightarrow> ctx \<Rightarrow> get_request \<Rightarrow> 'e \<Rightarrow> (goerror + get_response) \<times> 'e"
  ev_Do :: "'e sf_Do"
  ev_TypeToString :: "u16 \<Rightarrow> string"
  ev_NewMsg :: "string \<Rightarrow> u16 \<Rightarrow> msg"
  ev_Listen :: "string \<Rightarrow> string \<Rightarrow> goerror option"

fun build_sources :: "BlocklistSource list \<Rightarrow> goerror + source list \<times> FetchTarget list" where
  "build_sources [] = Inr ([], [])"
| "build_sources (s # ss) =
     (if bs_Type s = ''file'' then
        (case build_sources ss of
           Inl e \<Rightarrow> Inl e
         | Inr (srcs, tgts) \<Rightarrow> Inr (FileSource (bs_Path s) # srcs, tgts))
      else if bs_Type s = ''http'' then
        (case build_sources ss of
           Inl e \<Rightarrow> Inl e
         | Inr (srcs, tgts) \<Rightarrow>
             Inr (HTTPSource (bs_Name s) (bs_URL s) # srcs,
                  \<lparr>tg_Name = bs_Name s, tg_URL = bs_URL s\<rparr> # tgts))
      else Inl (ErrNew (''blocklist source '' @ bs_Name s @ '': unsupported type '' @ bs_Type s)))"

definition upstreamDialAddrs :: "UpstreamCfg list \<Rightarrow> string list" where
  "upstreamDialAddrs ups =
     concat (map (\<lambda>u. if up_Type u = '''' \<or> up_Type u = ''udp'' then (if up_Addr u \<noteq> [] then [up_Addr u] else [])
        else if up_Type u = ''doh'' then map (\<lambda>ip. JoinHostPort ip ''53'') (up_EndpointIPs u) else []) ups)"

definition upstreamLabels :: "UpstreamCfg list \<Rightarrow> string list" where
  "upstreamLabels ups = map (\<lambda>u. if up_Type u = ''doh'' then up_URL u else up_Addr u) ups"

text \<open>The line logged about the blocklist at startup.\<close>

datatype blocklist_log = LogNoSources | LogCacheCold | LogZeroEntries | LogLoaded

definition allHTTP :: "BlocklistSource list \<Rightarrow> bool" where
  "allHTTP ss = (ss \<noteq> [] \<and> list_all (\<lambda>s. bs_Type s = ''http'') ss)"

definition startup_log :: "BlocklistSource list \<Rightarrow> Matcher \<Rightarrow> blocklist_log" where
  "startup_log ss initial =
     (if ss = [] then LogNoSources
      else if Size initial = 0 \<and> allHTTP ss then LogCacheCold
      else if Size initial = 0 then LogZeroEntries
      else LogLoaded)"

definition warmupProbe :: "'e env \<Rightarrow> ctx \<Rightarrow> 'e upstream \<Rightarrow> int \<Rightarrow> 'e st \<Rightarrow> goerror option go \<times> 'e st" where
  "warmupProbe E c p timeout s =
     (case WithTimeout c timeout s of
        (c', s1) \<Rightarrow>
          (case u_Exchange p c' (ev_NewMsg E ''a.root-servers.net.'' TypeA) s1 of
             ((Panic m, _), s2) \<Rightarrow> (Panic m, s2)
           | ((Ret (_, err), _), s2) \<Rightarrow> (Ret err, s2)))"

text \<open>What stays fixed once the server runs.\<close>

record 'e service =
  sc_deps :: "'e deps"
  sc_sources :: "source list"
  sc_targets :: "FetchTarget list"
  sc_fetcher :: "'e FetcherConfig"
  sc_httpClient :: http_client
  sc_pprof :: bool

definition httpClient :: "Config \<Rightarrow> http_client" where
  "httpClient cfg =
     \<lparr>hc_Timeout = 60 * time_Second, hc_DialTimeout = 10 * time_Second,
      hc_Resolver = NewBootstrapResolver (upstreamDialAddrs (cfg_Upstreams cfg)), hc_MaxIdleConns = 10,
      hc_IdleConnTimeout = 90 * time_Second, hc_TLSHandshakeTimeout = 10 * time_Second\<rparr>"

definition fetcher_config :: "'e env \<Rightarrow> Config \<Rightarrow> 'e FetcherConfig" where
  "fetcher_config E cfg =
     NewFetcher \<lparr>fc_Codec = ev_codec E, fc_NewRequest = ev_NewRequest E, fc_Do = ev_Get E (httpClient cfg),
       fc_Interval = bl_RefreshInterval (cfg_Blocklists cfg), fc_Metrics = True, fc_UserAgent = []\<rparr>"

definition service_deps :: "'e env \<Rightarrow> Config \<Rightarrow> 'e upstream list \<Rightarrow> 'e deps" where
  "service_deps E cfg ups =
     \<lparr>d_Upstream = NewPool True ups, d_CacheCfg = cfg_Cache cfg,
      d_QueryLog = lg_QueryLog (cfg_Logging cfg), d_Metrics = True,
      d_TypeToString = ev_TypeToString E, d_Do = ev_Do E\<rparr>"

text \<open>The three listening sockets, in order.\<close>

definition bind_listeners :: "'e env \<Rightarrow> Config \<Rightarrow> goerror option" where
  "bind_listeners E cfg =
     first_error
       (map (\<lambda>(what, net, addr). map_option (ErrWrap (what @ addr)) (ev_Listen E net addr))
          [(''bind udp '', ''udp'', li_UDP (cfg_Listen cfg)), (''bind tcp '', ''tcp'', li_TCP (cfg_Listen cfg)),
           (''bind admin '', ''tcp'', ad_Listen (cfg_Admin cfg))])"

text \<open>\<open>runServe\<close> up to the start of the goroutines: an error, or the service, its state, the
  readiness flags and the logged line.\<close>

definition startup :: "'e env \<Rightarrow> ctx \<Rightarrow> Config \<Rightarrow> disk \<Rightarrow> line_ctx \<Rightarrow> (nat \<Rightarrow> int) \<Rightarrow> 'e \<Rightarrow> fsys
    \<Rightarrow> (goerror + 'e service \<times> 'e fetch \<times> Readiness \<times> blocklist_log) go" where
  "startup E c cfg dk ce clk net f =
     (case build_sources (bl_Sources (cfg_Blocklists cfg)) of
        Inl e \<Rightarrow> Ret (Inl e)
      | Inr (sources, targets) \<Rightarrow>
          (case Loader_Load (ev_codec E) dk ce sources f of
             (Inl e, f') \<Rightarrow> Ret (Inl (ErrWrap ''load blocklist'' e))
           | (Inr (initial, raw), f') \<Rightarrow>
               (let rdy = SetBlocklistReady NewReadiness True;
                    s = init_st clk (cc_Capacity (cfg_Cache cfg)) initial net in
                case build_upstreams (ev_lib E) (cfg_Upstreams cfg) of
                  Inl e \<Rightarrow> Ret (Inl e)
                | Inr ups \<Rightarrow>
                    (case bind_listeners E cfg of
                       Some e \<Rightarrow> Ret (Inl e)
                     | None \<Rightarrow>
                         (case warmupProbe E c (NewPool True ups) (cfg_StartupProbeTimeout cfg) s of
                            (Panic m, s') \<Rightarrow> Panic m
                          | (Ret err, s') \<Rightarrow>
                              Ret (Inr
                                (\<lparr>sc_deps = service_deps E cfg ups, sc_sources = sources, sc_targets = targets,
                                  sc_fetcher = fetcher_config E cfg,
                                  sc_httpClient = httpClient cfg,
                                  sc_pprof = ad_Pprof (cfg_Admin cfg)\<rparr>,
                                 \<lparr>ft_st = s', ft_fs = f', ft_poke = False\<rparr>,
                                 (if err = None then SetUpstreamReady rdy True else rdy),
                                 startup_log (bl_Sources (cfg_Blocklists cfg)) initial)))))))"

section \<open>Reloading\<close>

text \<open>The closure \<open>reloadFromDisk\<close> in its atomic actions: the check of the context with the
  load, the swap of the pointer, the collectors.\<close>

definition reload_failed :: "'e fetch \<Rightarrow> 'e fetch" where
  "reload_failed w =
     w\<lparr>ft_st := upd_metrics (\<lambda>m. m\<lparr>BlocklistReloadsTotal := vec_Inc (BlocklistReloadsTotal m) [''error'']\<rparr>) (ft_st w)\<rparr>"

definition reload_swap :: "Matcher \<Rightarrow> 'e fetch \<Rightarrow> 'e fetch" where
  "reload_swap m w = w\<lparr>ft_st := (ft_st w)\<lparr>st_holder := Swap (st_holder (ft_st w)) (Some m)\<rparr>\<rparr>"

definition reload_record :: "Matcher \<Rightarrow> 'e fetch \<Rightarrow> 'e fetch" where
  "reload_record m w =
     (case time_Now (ft_st w) of
        (t, s) \<Rightarrow>
          w\<lparr>ft_st := upd_metrics (\<lambda>x. x\<lparr>BlocklistEntries := int (Size m),
              BlocklistLoadedTimestamp := t div time_Second,
              BlocklistReloadsTotal := vec_Inc (BlocklistReloadsTotal x) [''ok'']\<rparr>) s\<rparr>)"

definition reload_load :: "codec \<Rightarrow> disk \<Rightarrow> line_ctx \<Rightarrow> source list \<Rightarrow> ctx \<Rightarrow> 'e fetch
    \<Rightarrow> Matcher option \<times> 'e fetch" where
  "reload_load K dk ce sources gctx w =
     (case ctx_Err gctx (ft_st w) of
        (Some _, s) \<Rightarrow> (None, w\<lparr>ft_st := s\<rparr>)
      | (None, s) \<Rightarrow>
          (case Loader_Load K dk ce sources (ft_fs w) of
             (Inl e, f) \<Rightarrow> (None, reload_failed (w\<lparr>ft_st := s, ft_fs := f\<rparr>))
           | (Inr (m, raw), f) \<Rightarrow> (Some m, w\<lparr>ft_st := s, ft_fs := f\<rparr>)))"

definition reloadFromDisk :: "codec \<Rightarrow> disk \<Rightarrow> line_ctx \<Rightarrow> source list \<Rightarrow> ctx \<Rightarrow> 'e fetch \<Rightarrow> 'e fetch" where
  "reloadFromDisk K dk ce sources gctx w =
     (case reload_load K dk ce sources gctx w of
        (None, w1) \<Rightarrow> w1
      | (Some m, w1) \<Rightarrow> reload_record m (reload_swap m w1))"

section \<open>The DNS listeners\<close>

text \<open>Both listeners share one handler. \<open>Serve\<close> waits for both and returns the first error, in
  the order in which they end; a closed socket is not an error.\<close>

definition ignoreClosed :: "goerror option \<Rightarrow> goerror option" where
  "ignoreClosed err =
     (case err of None \<Rightarrow> None | Some e \<Rightarrow> if errors_Is e ErrClosed then None else Some e)"

text \<open>\<open>errgroup.Group.Wait\<close> on the results in the order in which the functions return.\<close>

definition group_Wait :: "goerror option list \<Rightarrow> goerror option" where
  "group_Wait rs = first_error rs"

definition server_Serve :: "goerror option list \<Rightarrow> goerror option" where
  "server_Serve rs = group_Wait (map ignoreClosed rs)"

text \<open>The end of \<open>runServe\<close>, on the results of its goroutines in order.\<close>

definition runServe_result :: "goerror option list \<Rightarrow> goerror option" where
  "runServe_result rs =
     (case group_Wait rs of
        None \<Rightarrow> None
      | Some e \<Rightarrow> if errors_Is e Canceled then None else Some e)"

section \<open>The running server\<close>

text \<open>Where the goroutine that waits for \<open>Ready\<close> is.\<close>

datatype wait = WaitUDP | WaitTCP | Returned "goerror option"

text \<open>The state: the fetcher's loop with the shared state, the local files, the readiness flags,
  which listeners have started, the waiting goroutine, a pending SIGHUP (the channel holds one) and
  whether the signal loop runs.\<close>

record 'e sys =
  sy_run :: "'e run"
  sy_disk :: disk
  sy_rdy :: Readiness
  sy_udp :: bool
  sy_tcp :: bool
  sy_wait :: wait
  sy_sig :: bool
  sy_hup :: bool

abbreviation sy_w :: "'e sys \<Rightarrow> 'e fetch" where "sy_w y \<equiv> rn_w (sy_run y)"
abbreviation sy_st :: "'e sys \<Rightarrow> 'e st" where "sy_st y \<equiv> ft_st (sy_w y)"

abbreviation set_w :: "'e fetch \<Rightarrow> 'e sys \<Rightarrow> 'e sys" where
  "set_w w y \<equiv> y\<lparr>sy_run := (sy_run y)\<lparr>rn_w := w\<rparr>\<rparr>"

definition sys_init :: "'e fetch \<Rightarrow> disk \<Rightarrow> Readiness \<Rightarrow> 'e sys" where
  "sys_init w dk rdy =
     \<lparr>sy_run = \<lparr>rn_phase = Starting, rn_w = w\<rparr>, sy_disk = dk, sy_rdy = rdy, sy_udp = False,
      sy_tcp = False, sy_wait = WaitUDP, sy_sig = False, sy_hup = True\<rparr>"

text \<open>What the SIGHUP loop does for one signal.\<close>

definition on_SIGHUP :: "'e service \<Rightarrow> disk \<Rightarrow> line_ctx \<Rightarrow> ctx \<Rightarrow> 'e fetch \<Rightarrow> 'e fetch" where
  "on_SIGHUP S dk ce gctx w =
     RefreshNow (reloadFromDisk (fc_Codec (sc_fetcher S)) dk ce (sc_sources S) gctx w)"

inductive sys_step :: "'e service \<Rightarrow> ctx \<Rightarrow> ctx \<Rightarrow> 'e sys \<Rightarrow> 'e sys \<Rightarrow> bool"
  for S :: "'e service" and gctx :: ctx and readyCtx :: ctx where
  sys_udp: "sys_step S gctx readyCtx y (y\<lparr>sy_udp := True\<rparr>)"
| sys_tcp: "sys_step S gctx readyCtx y (y\<lparr>sy_tcp := True\<rparr>)"
| sys_wait_udp: "sy_wait y = WaitUDP \<Longrightarrow> sy_udp y \<Longrightarrow> sys_step S gctx readyCtx y (y\<lparr>sy_wait := WaitTCP\<rparr>)"
| sys_wait_tcp: "sy_wait y = WaitTCP \<Longrightarrow> sy_tcp y \<Longrightarrow>
    sys_step S gctx readyCtx y (y\<lparr>sy_wait := Returned None, sy_rdy := SetListenersReady (sy_rdy y) True\<rparr>)"
| sys_wait_ctx: "sy_wait y \<in> {WaitUDP, WaitTCP} \<Longrightarrow> cx_err readyCtx (now (sy_st y)) = Some e \<Longrightarrow>
    sys_step S gctx readyCtx y (y\<lparr>sy_wait := Returned (Some (ErrWrap ''dns listeners not ready'' e))\<rparr>)"
| sys_query: "sy_udp y \<or> sy_tcp y \<Longrightarrow> ServeDNS (Build (sc_deps S)) c rw req (sy_st y) = (m, s') \<Longrightarrow>
    sys_step S gctx readyCtx y (set_w ((sy_w y)\<lparr>ft_st := s'\<rparr>) y)"
| sys_fetcher: "run_step (sc_fetcher S) gctx (sc_targets S)
      (reloadFromDisk (fc_Codec (sc_fetcher S)) (sy_disk y) ce (sc_sources S) gctx) (sy_run y) r' \<Longrightarrow>
    sys_step S gctx readyCtx y (y\<lparr>sy_run := r'\<rparr>)"
| sys_signal: "sys_step S gctx readyCtx y (y\<lparr>sy_sig := True\<rparr>)"
| sys_hup: "sy_hup y \<Longrightarrow> sy_sig y \<Longrightarrow>
    sys_step S gctx readyCtx y (set_w (on_SIGHUP S (sy_disk y) ce gctx (sy_w y)) (y\<lparr>sy_sig := False\<rparr>))"
| sys_hup_end: "cx_err gctx (now (sy_st y)) \<noteq> None \<Longrightarrow> sys_step S gctx readyCtx y (y\<lparr>sy_hup := False\<rparr>)"
| sys_edit: "sys_step S gctx readyCtx y (y\<lparr>sy_disk := dk\<rparr>)"

inductive sys_reach :: "'e service \<Rightarrow> ctx \<Rightarrow> ctx \<Rightarrow> 'e sys \<Rightarrow> 'e sys \<Rightarrow> bool"
  for S :: "'e service" and gctx :: ctx and readyCtx :: ctx and y0 :: "'e sys" where
  sys_start: "sys_reach S gctx readyCtx y0 y0"
| sys_more: "sys_reach S gctx readyCtx y0 y \<Longrightarrow> sys_step S gctx readyCtx y y' \<Longrightarrow> sys_reach S gctx readyCtx y0 y'"

inductive_cases sys_stepE: "sys_step S gctx readyCtx y y'"

section \<open>What each part leaves alone\<close>

text \<open>A matcher that a complete load of all sources produced.\<close>

definition loaded :: "codec \<Rightarrow> source list \<Rightarrow> Matcher \<Rightarrow> bool" where
  "loaded K sources m \<longleftrightarrow> (\<exists>dk ce f n f'. Loader_Load K dk ce sources f = (Inr (m, n), f'))"

text \<open>A part of the program that may install another complete matcher but does not touch the cache.\<close>

definition refreshes :: "codec \<Rightarrow> source list \<Rightarrow> 'e fetch \<Rightarrow> 'e fetch \<Rightarrow> bool" where
  "refreshes K sources w w' \<longleftrightarrow>
     st_lru (ft_st w') = st_lru (ft_st w)
     \<and> (st_holder (ft_st w') = st_holder (ft_st w)
        \<or> (\<exists>m. Current (st_holder (ft_st w')) = Some m \<and> loaded K sources m))"

lemma refreshes_refl [simp]: "refreshes K ss w w"
  by (simp add: refreshes_def)

lemma refreshes_trans: "refreshes K ss w w1 \<Longrightarrow> refreshes K ss w1 w2 \<Longrightarrow> refreshes K ss w w2"
  unfolding refreshes_def by metis

lemma refreshes_st: "st_lru (ft_st w') = st_lru (ft_st w) \<Longrightarrow> st_holder (ft_st w') = st_holder (ft_st w)
    \<Longrightarrow> refreshes K ss w w'"
  by (simp add: refreshes_def)

lemma hooks_st [simp]:
  "st_lru (ft_st (recordOutcome F n oc w)) = st_lru (ft_st w)"
  "st_lru (ft_st (markSuccess F n ts w)) = st_lru (ft_st w)"
  "st_lru (ft_st (setEntries F n k w)) = st_lru (ft_st w)"
  "st_holder (ft_st (recordOutcome F n oc w)) = st_holder (ft_st w)"
  "st_holder (ft_st (markSuccess F n ts w)) = st_holder (ft_st w)"
  "st_holder (ft_st (setEntries F n k w)) = st_holder (ft_st w)"
  by (simp_all add: recordOutcome_def markSuccess_def setEntries_def upd_metrics_def)

lemma fetch_store_st:
  "fetch_store F t start pm resp w = (res, w') \<Longrightarrow>
     st_lru (ft_st w') = st_lru (ft_st w) \<and> st_holder (ft_st w') = st_holder (ft_st w)"
  by (auto simp: fetch_store_def Let_def split: if_splits sum.splits prod.splits option.splits)

lemma fetch_body_st:
  assumes "fetch_body F c t start w = (res, w')"
  shows "st_lru (ft_st w') = st_lru (ft_st w) \<and> st_holder (ft_st w') = st_holder (ft_st w)"
  using assms
  by (auto simp: fetch_body_def Let_def split: prod.splits option.splits sum.splits dest!: fetch_store_st)

lemma FetchOne_st:
  assumes "FetchOne F c t w = (res, w')"
  shows "st_lru (ft_st w') = st_lru (ft_st w) \<and> st_holder (ft_st w') = st_holder (ft_st w)"
  using assms
  by (auto simp: FetchOne_def time_Now_def ctx_Err_def split: prod.splits option.splits dest!: fetch_body_st)

lemma cycle_loop_st:
  "cycle_loop F c ts ch w = (ch', w') \<Longrightarrow>
     st_lru (ft_st w') = st_lru (ft_st w) \<and> st_holder (ft_st w') = st_holder (ft_st w)"
  by (induction ts arbitrary: ch w) (auto split: prod.splits dest!: FetchOne_st)

lemma Loader_Load_files: "Loader_Load K dk ce ss f = (r, f') \<Longrightarrow> fs_files f' = fs_files f"
  unfolding Loader_Load_def by (rule loader_loop_files)

section \<open>One reload\<close>

lemma reload_load_cases:
  assumes "reload_load K dk ce ss gctx w = (r, w')"
  obtains (cancelled) "cx_err gctx (now (ft_st w)) \<noteq> None" "r = None" "w' = w\<lparr>ft_st := ticked (ft_st w)\<rparr>"
    | (failed) e f where "cx_err gctx (now (ft_st w)) = None" "Loader_Load K dk ce ss (ft_fs w) = (Inl e, f)" "r = None"
      "w' = reload_failed (w\<lparr>ft_st := ticked (ft_st w), ft_fs := f\<rparr>)"
    | (ok) m n f where "cx_err gctx (now (ft_st w)) = None" "Loader_Load K dk ce ss (ft_fs w) = (Inr (m, n), f)"
      "r = Some m" "w' = w\<lparr>ft_st := ticked (ft_st w), ft_fs := f\<rparr>"
  using assms
  by (auto simp: reload_load_def ctx_Err_def time_Now_def split: option.splits prod.splits sum.splits)

lemma reload_load_effect:
  assumes "reload_load K dk ce ss gctx w = (r, w')"
  shows "st_lru (ft_st w') = st_lru (ft_st w) \<and> st_holder (ft_st w') = st_holder (ft_st w)
    \<and> fs_files (ft_fs w') = fs_files (ft_fs w) \<and> ft_poke w' = ft_poke w
    \<and> (\<forall>m. r = Some m \<longrightarrow> loaded K ss m)"
  using assms
proof (cases rule: reload_load_cases)
  case (failed e f)
  then show ?thesis using Loader_Load_files [OF failed(2)] by (simp add: reload_failed_def upd_metrics_def)
next
  case (ok m n f)
  then have "loaded K ss m" unfolding loaded_def by blast
  then show ?thesis using ok Loader_Load_files [OF ok(2)] by simp
qed simp

lemma reload_effect:
  "refreshes K ss w (reloadFromDisk K dk ce ss gctx w)"
  "fs_files (ft_fs (reloadFromDisk K dk ce ss gctx w)) = fs_files (ft_fs w)"
  "ft_poke (reloadFromDisk K dk ce ss gctx w) = ft_poke w"
proof -
  obtain r w1 where l: "reload_load K dk ce ss gctx w = (r, w1)" by fastforce
  note eff = reload_load_effect [OF l]
  have e: "reloadFromDisk K dk ce ss gctx w = (case r of None \<Rightarrow> w1 | Some m \<Rightarrow> reload_record m (reload_swap m w1))"
    by (simp add: reloadFromDisk_def l split: option.splits)
  show "refreshes K ss w (reloadFromDisk K dk ce ss gctx w)"
    "fs_files (ft_fs (reloadFromDisk K dk ce ss gctx w)) = fs_files (ft_fs w)"
    "ft_poke (reloadFromDisk K dk ce ss gctx w) = ft_poke w"
    using eff
    by (auto simp: e refreshes_def reload_record_def reload_swap_def time_Now_def upd_metrics_def
        split: option.splits)
qed

lemma reload_ok_reloadFromDisk: "reload_ok (reloadFromDisk K dk ce ss gctx)"
  by (simp add: reload_ok_def reload_effect)

section \<open>Steps of the running server\<close>

lemma cycle_refreshes:
  assumes "\<And>w. refreshes K ss w (h w)"
  shows "refreshes K ss w (cycle F c ts h w)"
proof -
  obtain ch w1 where l: "cycle_loop F c ts False w = (ch, w1)" by fastforce
  then have "refreshes K ss w w1" by (auto intro: refreshes_st dest: cycle_loop_st)
  then show ?thesis using assms by (simp add: cycle_def l) (blast intro: refreshes_trans)
qed

lemma run_step_refreshes:
  assumes "run_step F c ts h r r'" and "\<And>w. refreshes K ss w (h w)"
  shows "refreshes K ss (rn_w r) (rn_w r')"
  using assms(1)
proof (cases rule: run_step.cases)
  case (run_start res fs)
  have "refreshes K ss (rn_w r) ((rn_w r)\<lparr>ft_fs := fs\<rparr>)" by (simp add: refreshes_def)
  from refreshes_trans [OF this cycle_refreshes [OF assms(2)]] show ?thesis using run_start by simp
next
  case run_poke
  have "refreshes K ss (rn_w r) ((rn_w r)\<lparr>ft_poke := False\<rparr>)" by (simp add: refreshes_def)
  from refreshes_trans [OF this cycle_refreshes [OF assms(2)]] show ?thesis using run_poke by simp
next
  case run_tick
  then show ?thesis using cycle_refreshes [OF assms(2)] by simp
qed (simp_all add: refreshes_def RefreshNow_def)

text \<open>What every part of the running server keeps of the shared state.\<close>

definition state_inv :: "codec \<Rightarrow> source list \<Rightarrow> int \<Rightarrow> 'e fetch \<Rightarrow> bool" where
  "state_inv K ss cap w \<longleftrightarrow>
     lru_inv (st_lru (ft_st w)) \<and> l_capacity (st_lru (ft_st w)) = cap
     \<and> (\<exists>m. Current (st_holder (ft_st w)) = Some m \<and> loaded K ss m)"

lemma state_inv_refreshes: "refreshes K ss w w' \<Longrightarrow> state_inv K ss cap w \<Longrightarrow> state_inv K ss cap w'"
  by (auto simp: refreshes_def state_inv_def)

text \<open>Readiness of the listeners is set only after both have started.\<close>

definition ready_inv :: "Readiness \<Rightarrow> 'e sys \<Rightarrow> bool" where
  "ready_inv rdy y \<longleftrightarrow>
     (sy_wait y = WaitTCP \<longrightarrow> sy_udp y)
     \<and> (rd_listeners (sy_rdy y) \<longrightarrow> sy_udp y \<and> sy_tcp y)
     \<and> rd_blocklist (sy_rdy y) = rd_blocklist rdy \<and> rd_upstream (sy_rdy y) = rd_upstream rdy"

lemma sys_step_state:
  assumes ok: "deps_ok (sc_deps S)" and s: "sys_step S gctx readyCtx y y'"
    and inv: "state_inv (fc_Codec (sc_fetcher S)) (sc_sources S) cap (sy_w y)"
  shows "state_inv (fc_Codec (sc_fetcher S)) (sc_sources S) cap (sy_w y')"
  using s
proof (cases rule: sys_step.cases)
  case (sys_query c rw req m s')
  then show ?thesis using inv ServeDNS_Build(2-4) [OF ok sys_query(3)] by (simp add: state_inv_def)
next
  case (sys_fetcher ce r')
  from run_step_refreshes [OF sys_fetcher(2) reload_effect(1)] inv show ?thesis
    using sys_fetcher(1) by (auto intro: state_inv_refreshes)
next
  case (sys_hup ce)
  have "refreshes (fc_Codec (sc_fetcher S)) (sc_sources S) (sy_w y) (on_SIGHUP S (sy_disk y) ce gctx (sy_w y))"
    unfolding on_SIGHUP_def
    by (rule refreshes_trans [OF reload_effect(1) [of _ _ _ "sy_disk y" ce gctx]])
      (simp add: refreshes_def RefreshNow_def)
  with inv show ?thesis using sys_hup(1) by (auto intro: state_inv_refreshes)
qed (use inv in simp_all)

lemma sys_step_ready:
  assumes "sys_step S gctx readyCtx y y'" and "ready_inv rdy y"
  shows "ready_inv rdy y'"
  using assms(1)
  by (cases rule: sys_step.cases) (use assms(2) in \<open>simp_all add: ready_inv_def SetListenersReady_def\<close>)

lemma sys_step_bodies:
  assumes "sys_step S gctx readyCtx y y'" and "codec_ok (fc_Codec (sc_fetcher S))"
  shows "bodies_safe (fc_Codec (sc_fetcher S)) (map tg_URL (sc_targets S)) (ft_fs (sy_w y)) (ft_fs (sy_w y'))"
  using assms(1)
proof (cases rule: sys_step.cases)
  case (sys_fetcher ce r')
  then show ?thesis
    using run_step_bodies [OF assms(2) reload_ok_reloadFromDisk sys_fetcher(2)] by simp
qed (auto simp: bodies_safe_def on_SIGHUP_def RefreshNow_def reload_effect)

section \<open>Startup\<close>

text \<open>What is asked of the parts outside the program: the key function and the metadata codec of
  the cache directory, and the coalescing group.\<close>

definition env_ok :: "'e env \<Rightarrow> bool" where
  "env_ok E \<longleftrightarrow> codec_ok (ev_codec E) \<and> (\<forall>next. singleflight (ev_Do E) next)"

lemma service_deps_ok:
  assumes "env_ok E" and "build_upstreams (ev_lib E) us = Inr ups"
  shows "deps_ok (service_deps E cfg ups)"
  using assms pool_keeps [OF build_upstreams_keeps [OF assms(2)], of True]
  by (simp add: deps_ok_def service_deps_def NewPool_def env_ok_def)

lemma startup_cases:
  assumes "startup E c cfg dk ce clk net f = Ret (Inr (S, w, rdy, lg))"
  obtains sources targets initial n f' ups err s'
  where "build_sources (bl_Sources (cfg_Blocklists cfg)) = Inr (sources, targets)"
    and "Loader_Load (ev_codec E) dk ce sources f = (Inr (initial, n), f')"
    and "build_upstreams (ev_lib E) (cfg_Upstreams cfg) = Inr ups" and "bind_listeners E cfg = None"
    and "warmupProbe E c (NewPool True ups) (cfg_StartupProbeTimeout cfg)
      (init_st clk (cc_Capacity (cfg_Cache cfg)) initial net) = (Ret err, s')"
    and "sc_deps S = service_deps E cfg ups" "sc_sources S = sources" "sc_targets S = targets"
    and "fc_Codec (sc_fetcher S) = ev_codec E" "sc_httpClient S = httpClient cfg"
    and "w = \<lparr>ft_st = s', ft_fs = f', ft_poke = False\<rparr>"
    and "rdy = \<lparr>rd_blocklist = True, rd_listeners = False, rd_upstream = (err = None)\<rparr>"
  using assms
  by (auto simp: startup_def Let_def fetcher_config_def NewFetcher_def SetBlocklistReady_def NewReadiness_def
      SetUpstreamReady_def split: sum.splits prod.splits go.splits option.splits if_splits)

lemma warmupProbe_frame:
  assumes "upstream_contract (u_Exchange p)" and "warmupProbe E c p t s = (r, s')"
  shows "lru_inv (st_lru s) \<Longrightarrow> lru_inv (st_lru s')" and "l_capacity (st_lru s') = l_capacity (st_lru s)"
    and "st_holder s' = st_holder s"
proof -
  obtain c' s1 where t: "WithTimeout c t s = (c', s1)" by fastforce
  then have s1: "st_lru s1 = st_lru s" "st_holder s1 = st_holder s"
    by (auto simp: WithTimeout_def time_Now_def)
  obtain out req' where "u_Exchange p c' (ev_NewMsg E ''a.root-servers.net.'' TypeA) s1 = ((out, req'), s')"
    using assms(2) by (auto simp: warmupProbe_def t split: prod.splits go.splits)
  from upstream_contract.keeps [OF assms(1) this] have "frame False c' s1 s'" by blast
  then show "lru_inv (st_lru s) \<Longrightarrow> lru_inv (st_lru s')" "l_capacity (st_lru s') = l_capacity (st_lru s)"
    "st_holder s' = st_holder s"
    using s1 by (simp_all add: frame_def)
qed

lemma startup_state:
  assumes "env_ok E" and "startup E c cfg dk ce clk net f = Ret (Inr (S, w, rdy, lg))"
  shows "deps_ok (sc_deps S)"
    and "state_inv (fc_Codec (sc_fetcher S)) (sc_sources S) (max 1 (cc_Capacity (cfg_Cache cfg))) w"
    and "ready_inv rdy (sys_init w dk rdy)" and "codec_ok (fc_Codec (sc_fetcher S))"
    and "rd_blocklist rdy"
proof -
  from assms(2) obtain sources targets initial n f' ups err s' where 1:
    "build_sources (bl_Sources (cfg_Blocklists cfg)) = Inr (sources, targets)"
    "Loader_Load (ev_codec E) dk ce sources f = (Inr (initial, n), f')"
    "build_upstreams (ev_lib E) (cfg_Upstreams cfg) = Inr ups" "bind_listeners E cfg = None"
    "warmupProbe E c (NewPool True ups) (cfg_StartupProbeTimeout cfg)
      (init_st clk (cc_Capacity (cfg_Cache cfg)) initial net) = (Ret err, s')"
    "sc_deps S = service_deps E cfg ups" "sc_sources S = sources" "sc_targets S = targets"
    "fc_Codec (sc_fetcher S) = ev_codec E" "sc_httpClient S = httpClient cfg"
    "w = \<lparr>ft_st = s', ft_fs = f', ft_poke = False\<rparr>"
    "rdy = \<lparr>rd_blocklist = True, rd_listeners = False, rd_upstream = (err = None)\<rparr>"
    by (rule startup_cases)
  show "deps_ok (sc_deps S)" using service_deps_ok [OF assms(1) 1(3)] 1(6) by simp
  show "codec_ok (fc_Codec (sc_fetcher S))" using assms(1) 1(9) by (simp add: env_ok_def)
  show "ready_inv rdy (sys_init w dk rdy)" "rd_blocklist rdy"
    using 1(12) by (simp_all add: ready_inv_def sys_init_def)
  have u: "upstream_contract (u_Exchange (NewPool True ups))"
    using pool_keeps [OF build_upstreams_keeps [OF 1(3)], of True] by (simp add: NewPool_def)
  have "loaded (ev_codec E) sources initial" unfolding loaded_def using 1(2) by blast
  moreover have "l_capacity (st_lru (init_st clk cap initial net)) = max 1 cap" for cap
    by (simp add: init_st_def SetObserver_def NewLRU_def new_lru_def)
  ultimately show "state_inv (fc_Codec (sc_fetcher S)) (sc_sources S) (max 1 (cc_Capacity (cfg_Cache cfg))) w"
    using warmupProbe_frame [OF u 1(5)] 1(7,9,11) sample_holder [of clk _ initial net]
    by (auto simp: state_inv_def)
qed

section \<open>Properties\<close>

text \<open>In every state the running server can reach from startup, through any interleaving of
  queries, fetch cycles, timer ticks, SIGHUPs, edits of local files and listener events: the cache
  is well formed and within its configured capacity; the active blocklist is one that a complete
  load of all configured sources produced, never a partial one; the readiness probe can succeed
  only after both listeners have started and the startup probe of the upstreams succeeded; and the
  cached body of every configured URL is the one found at startup or one the fetcher accepted.\<close>

theorem running_server_invariant:
  assumes "env_ok E" and "startup E c cfg dk ce clk net f = Ret (Inr (S, w, rdy, lg))"
    and "sys_reach S gctx readyCtx (sys_init w dk rdy) y"
  shows "lru_inv (st_lru (sy_st y)) \<and> int (Len (st_lru (sy_st y))) \<le> max 1 (cc_Capacity (cfg_Cache cfg))
    \<and> (\<exists>m. Current (st_holder (sy_st y)) = Some m \<and> loaded (ev_codec E) (sc_sources S) m)
    \<and> (Ready (sy_rdy y) \<longrightarrow> sy_udp y \<and> sy_tcp y \<and> rd_upstream rdy)
    \<and> bodies_safe (ev_codec E) (map tg_URL (sc_targets S)) (ft_fs w) (ft_fs (sy_w y))"
proof -
  note st = startup_state [OF assms(1,2)]
  let ?K = "fc_Codec (sc_fetcher S)"
  have K: "?K = ev_codec E" using assms(2) by (cases rule: startup_cases) auto
  have "state_inv ?K (sc_sources S) (max 1 (cc_Capacity (cfg_Cache cfg))) (sy_w y) \<and> ready_inv rdy y
      \<and> bodies_safe ?K (map tg_URL (sc_targets S)) (ft_fs w) (ft_fs (sy_w y))"
    using assms(3)
  proof (induction rule: sys_reach.induct)
    case sys_start
    then show ?case using st(2,3) by (simp add: sys_init_def bodies_safe_def)
  next
    case (sys_more y y')
    then show ?case
      using sys_step_state [OF st(1)] sys_step_ready sys_step_bodies [OF _ st(4)] bodies_safe_trans by blast
  qed
  then show ?thesis
    using lru_invD(3) [of "st_lru (sy_st y)"]
    by (auto simp: state_inv_def ready_inv_def Ready_def K Len_def)
qed

definition sample_env :: "unit env" where
  "sample_env = \<lparr>ev_lib = sample_lib, ev_codec = sample_codec, ev_NewRequest = (\<lambda>_. None),
     ev_Get = (\<lambda>h c r e. (Inl (ErrSentinel DeadlineExceeded), e)), ev_Do = Do_alone,
     ev_TypeToString = (\<lambda>t. []), ev_NewMsg = (\<lambda>n t. new_Msg), ev_Listen = (\<lambda>n a. None)\<rparr>"

definition sample_config :: Config where
  "sample_config = Default\<lparr>cfg_Upstreams := [\<lparr>up_Type = ''udp'', up_Addr = ''192.0.2.53:53'', up_URL = [],
     up_EndpointIPs = [], up_Timeout = time_Second\<rparr>]\<rparr>"

lemma sample_env_ok: "env_ok sample_env"
  by (auto simp: env_ok_def sample_env_def singleflight_alone codec_ok_def sample_codec_def sha256_Size_def min_def)

lemma sample_startup:
  obtains S w rdy lg where
    "startup sample_env Background sample_config sample_disk no_ctx_err int () (sample_fs (\<lambda>_. None))
       = Ret (Inr (S, w, rdy, lg))" and "rd_upstream rdy"
proof -
  let ?s = "init_st int 10000 (NewMatcher []) () :: unit st"
  let ?p = "NewPool True [NewUDPClient sample_lib ''192.0.2.53:53'' time_Second]"
  obtain s' where p: "warmupProbe sample_env Background ?p (3 * time_Second) ?s = (Ret None, s')"
    by (simp add: warmupProbe_def WithTimeout_def time_Now_def NewPool_def pool_Exchange_def attempt_def
        NewUDPClient_def udp_Exchange_def client_Exchange_def sample_lib_def sample_env_def new_Msg_def)
  show thesis
    by (rule that [where rdy = "SetUpstreamReady (SetBlocklistReady NewReadiness True) True"])
      (use p in \<open>simp_all add: startup_def sample_config_def Default_def Loader_Load_def upstream_New_def
        bind_listeners_def sample_env_def SetUpstreamReady_def\<close>)
qed

theorem running_server_invariant_witness:
  "\<exists>S w rdy lg. startup sample_env Background sample_config sample_disk no_ctx_err int () (sample_fs (\<lambda>_. None))
       = Ret (Inr (S, w, rdy, lg))
     \<and> \<not> Ready (sy_rdy (sys_init w sample_disk rdy)) \<and> lru_inv (st_lru (sy_st (sys_init w sample_disk rdy)))"
proof -
  obtain S w rdy lg where s: "startup sample_env Background sample_config sample_disk no_ctx_err int ()
      (sample_fs (\<lambda>_. None)) = Ret (Inr (S, w, rdy, lg))" by (rule sample_startup)
  from running_server_invariant [OF sample_env_ok s sys_reach.sys_start [of S Background Background]] s
  show ?thesis by (auto simp: sys_init_def)
qed

section \<open>A validated configuration starts\<close>

text \<open>What is asked of the URL parser and of the HTTP/2 setup: a host name is part of the host, and
  configuring a fresh transport succeeds.\<close>

definition lib_ok :: "'e lib \<Rightarrow> bool" where
  "lib_ok L \<longleftrightarrow> (\<forall>raw u. lb_ParseURL L raw = Inr u \<longrightarrow> url_Hostname u \<noteq> [] \<longrightarrow> url_Host u \<noteq> [])
     \<and> (\<forall>raw. lb_ConfigureHTTP2 L raw = None)"

lemma build_sources_ok:
  "list_all (source_ok P) ss \<Longrightarrow> \<exists>srcs tgts. build_sources ss = Inr (srcs, tgts)"
  by (induction ss) (auto simp: source_ok_def)

lemma build_upstreams_ok:
  assumes "lib_ok L" and "list_all (\<lambda>u. 0 < up_Timeout u \<and> (udp_ok u \<or> doh_ok (lb_ParseURL L) u)) us"
  shows "\<exists>ups. build_upstreams L us = Inr ups \<and> length ups = length us"
  using assms(2)
proof (induction us)
  case (Cons u us)
  have "\<exists>x. upstream_New L u = Inr x"
  proof (cases "udp_ok u")
    case True
    then show ?thesis by (auto simp: upstream_New_def udp_ok_def)
  next
    case False
    then obtain p where "up_Type u = ''doh''" "lb_ParseURL L (up_URL u) = Inr p" "url_Hostname p \<noteq> []"
      using Cons.prems by (auto simp: doh_ok_def)
    moreover have "url_Host p \<noteq> []" using assms(1) calculation(2,3) by (auto simp: lib_ok_def)
    ultimately show ?thesis using assms(1) by (simp add: upstream_New_def NewDoHClient_def lib_ok_def Let_def)
  qed
  then show ?case using Cons by auto
qed simp

lemma length_upstreamDialAddrs: "length (upstreamDialAddrs us) = bootstrap_count us"
  by (induction us) (auto simp: upstreamDialAddrs_def bootstrap_count_def)

text \<open>A configuration that passes validation can fail to start only for reasons outside it: a
  blocklist file that cannot be read or an address that cannot be bound. Sources and upstreams of
  such a configuration can always be built, one client per configured upstream; the bootstrap
  dialer then has at least one address to dial, and the cache gets exactly the configured
  capacity.\<close>

theorem validated_config_starts:
  assumes "Validate (lb_ParseURL (ev_lib E)) cfg = None" and "lib_ok (ev_lib E)"
  shows "(startup E c cfg dk ce clk net f = Ret (Inl e) \<longrightarrow>
      (\<exists>e'. e = ErrWrap ''load blocklist'' e') \<or> bind_listeners E cfg = Some e)
    \<and> (\<exists>ups. build_upstreams (ev_lib E) (cfg_Upstreams cfg) = Inr ups
          \<and> length ups = length (cfg_Upstreams cfg) \<and> ups \<noteq> [])
    \<and> hc_Resolver (httpClient cfg) = BootstrapResolver (upstreamDialAddrs (cfg_Upstreams cfg))
    \<and> l_capacity (NewLRU (cc_Capacity (cfg_Cache cfg))) = cc_Capacity (cfg_Cache cfg)"
proof -
  let ?P = "lb_ParseURL (ev_lib E)"
  have v: "valid_config ?P cfg"
  proof -
    have "first_error (Validate_checks ?P cfg) = None"
      using assms(1) by (simp add: Validate_def first_error_append split: option.splits)
    then show ?thesis by (simp add: checks_None)
  qed
  then have vs: "list_all (source_ok ?P) (bl_Sources (cfg_Blocklists cfg))"
    and vu: "list_all (\<lambda>u. 0 < up_Timeout u \<and> (udp_ok u \<or> doh_ok ?P u)) (cfg_Upstreams cfg)"
    by (simp_all add: valid_config_def)
  obtain srcs tgts where b: "build_sources (bl_Sources (cfg_Blocklists cfg)) = Inr (srcs, tgts)"
    using build_sources_ok [OF vs] by blast
  obtain ups where u: "build_upstreams (ev_lib E) (cfg_Upstreams cfg) = Inr ups"
    "length ups = length (cfg_Upstreams cfg)"
    using build_upstreams_ok [OF assms(2) vu] by blast
  have "upstreamDialAddrs (cfg_Upstreams cfg) \<noteq> []"
    using valid_bootstrap [OF v] length_upstreamDialAddrs [of "cfg_Upstreams cfg"] by auto
  moreover have "cfg_Upstreams cfg \<noteq> []" "0 < cc_Capacity (cfg_Cache cfg)" using v by (simp_all add: valid_config_def)
  then have "ups \<noteq> []" "l_capacity (NewLRU (cc_Capacity (cfg_Cache cfg))) = cc_Capacity (cfg_Cache cfg)"
    using u(2) by (auto simp: NewLRU_def new_lru_def)
  ultimately show ?thesis
    using b u
    by (auto simp: startup_def Let_def httpClient_def NewBootstrapResolver_def
        split: sum.splits prod.splits go.splits option.splits)
qed

lemma sample_config_valid: "Validate (lb_ParseURL (ev_lib sample_env)) sample_config = None"
proof -
  have "bind_ok '':53''" "bind_ok '':9090''"
    by (simp_all add: bind_ok_def SplitHostPort_def LastIndexByte_def Atoi_def is_digits_def Let_def
        digits_value_def is_digit_def char_eval min_i64_def max_i64_def)
  moreover have "SplitHostPort ''192.0.2.53:53'' = Inr (''192.0.2.53'', ''53'')"
    by (simp add: SplitHostPort_def LastIndexByte_def)
  ultimately have "valid_config (lb_ParseURL (ev_lib sample_env)) sample_config"
    by (simp add: valid_config_def sample_config_def Default_def udp_ok_def time_Second_def time_Minute_def time_Hour_def)
  then show ?thesis
    using checks_None [of "lb_ParseURL (ev_lib sample_env)" sample_config] valid_bootstrap
    by (auto simp: Validate_def first_error_append require_def)
qed

lemma sample_lib_ok: "lib_ok sample_lib"
  by (simp add: lib_ok_def sample_lib_def)

end
