(* ===== verification/Serve_Reload.thy ===== *)
theory Serve_Reload
  imports Serve
begin

text \<open>
  Reloading the blocklist (\<open>reloadFromDisk\<close> in \<open>cmd/bns/serve.go\<close>). The closure is called
  from two goroutines, the fetcher's loop and the SIGHUP loop, without a lock. Here its three
  atomic actions (load, swap, record) are interleaved between any number of callers.
\<close>

section \<open>Interleaved reloads\<close>

datatype reload_pc = RLoad | RSwap Matcher | RRecord Matcher | RDone

definition reload_action :: "codec \<Rightarrow> disk \<Rightarrow> line_ctx \<Rightarrow> source list \<Rightarrow> ctx \<Rightarrow> reload_pc \<times> 'e fetch
    \<Rightarrow> reload_pc \<times> 'e fetch" where
  "reload_action K dk ce ss gctx x =
     (case x of
        (RLoad, w) \<Rightarrow>
          (case reload_load K dk ce ss gctx w of (None, w') \<Rightarrow> (RDone, w') | (Some m, w') \<Rightarrow> (RSwap m, w'))
      | (RSwap m, w) \<Rightarrow> (RRecord m, reload_swap m w)
      | (RRecord m, w) \<Rightarrow> (RDone, reload_record m w)
      | (RDone, w) \<Rightarrow> (RDone, w))"

text \<open>One caller performs its next action; the local files may be different at every action.\<close>

inductive reload_step :: "codec \<Rightarrow> source list \<Rightarrow> ctx \<Rightarrow> reload_pc list \<times> 'e fetch \<Rightarrow> reload_pc list \<times> 'e fetch \<Rightarrow> bool"
  for K :: codec and ss :: "source list" and gctx :: ctx where
  reload_act: "i < length pcs \<Longrightarrow> reload_action K dk ce ss gctx (pcs ! i, w) = (pc, w') \<Longrightarrow>
    reload_step K ss gctx (pcs, w) (pcs[i := pc], w')"

definition reload_runs :: "codec \<Rightarrow> source list \<Rightarrow> ctx \<Rightarrow> reload_pc list \<times> 'e fetch \<Rightarrow> reload_pc list \<times> 'e fetch \<Rightarrow> bool" where
  "reload_runs K ss gctx = (reload_step K ss gctx)\<^sup>*\<^sup>*"

text \<open>A caller that is not interrupted does what the closure does.\<close>

lemma reload_alone:
  "((reload_action K dk ce ss gctx ^^ 3) (RLoad, w)) = (RDone, reloadFromDisk K dk ce ss gctx w)"
proof -
  obtain r w1 where l: "reload_load K dk ce ss gctx w = (r, w1)" by fastforce
  show ?thesis
    by (cases r) (simp_all add: numeral_3_eq_3 reload_action_def l reloadFromDisk_def)
qed

section \<open>What interleaving keeps and what it does not\<close>

definition pc_loaded :: "codec \<Rightarrow> source list \<Rightarrow> reload_pc \<Rightarrow> bool" where
  "pc_loaded K ss pc = (case pc of RSwap m \<Rightarrow> loaded K ss m | RRecord m \<Rightarrow> loaded K ss m | _ \<Rightarrow> True)"

lemma reload_action_keeps:
  assumes "reload_action K dk ce ss gctx (pc, w) = (pc', w')" and "pc_loaded K ss pc"
  shows "pc_loaded K ss pc' \<and> refreshes K ss w w'"
proof (cases pc)
  case RLoad
  obtain r w1 where l: "reload_load K dk ce ss gctx w = (r, w1)" by fastforce
  then show ?thesis
    using assms(1) RLoad reload_load_effect [OF l]
    by (cases r) (auto simp: reload_action_def pc_loaded_def refreshes_def)
qed (use assms in \<open>auto simp: reload_action_def pc_loaded_def refreshes_def reload_swap_def reload_record_def
      time_Now_def upd_metrics_def\<close>)

lemma reload_step_keeps:
  assumes "reload_step K ss gctx (pcs, w) (pcs', w')" and "list_all (pc_loaded K ss) pcs"
  shows "list_all (pc_loaded K ss) pcs' \<and> refreshes K ss w w'"
  using assms(1)
proof (cases rule: reload_step.cases)
  case (reload_act i dk ce pc)
  then have "pc_loaded K ss (pcs ! i)" using assms(2) by (simp add: list_all_length)
  from reload_action_keeps [OF reload_act(3) this] reload_act(1) assms(2)
  show ?thesis using set_update_subset_insert [of pcs i pc] by (auto simp: list_all_iff)
qed

interpretation reload_sys: step_invariant "reload_step K ss gctx"
    "\<lambda>x. list_all (pc_loaded K ss) (fst x) \<and> refreshes K ss w (snd x)" for K ss gctx and w :: "'e fetch"
proof
  fix x x' :: "reload_pc list \<times> 'e fetch"
  assume "list_all (pc_loaded K ss) (fst x) \<and> refreshes K ss w (snd x)" and "reload_step K ss gctx x x'"
  then show "list_all (pc_loaded K ss) (fst x') \<and> refreshes K ss w (snd x')"
    using reload_step_keeps [of K ss gctx "fst x" "snd x" "fst x'" "snd x'"] refreshes_trans by auto
qed

section \<open>Properties\<close>

text \<open>C17: A reload is all or nothing. During shutdown it does nothing; if any source fails, the active
  blocklist and its gauges stay and one failed reload is counted; otherwise the new matcher is
  installed, the gauges describe it and one successful reload is counted. In no case are the cache,
  the cache directory or the pending refresh request touched, and a SIGHUP also leaves a refresh
  request pending.\<close>

theorem reload_all_or_nothing:
  "let w' = reloadFromDisk K dk ce ss gctx w; m = st_metrics (ft_st w); m' = st_metrics (ft_st w');
       h = st_holder (ft_st w); h' = st_holder (ft_st w') in
   (if cx_err gctx (now (ft_st w)) \<noteq> None then h' = h \<and> m' = m
    else case fst (Loader_Load K dk ce ss (ft_fs w)) of
        Inl e \<Rightarrow> h' = h \<and> m' = m\<lparr>BlocklistReloadsTotal := vec_Inc (BlocklistReloadsTotal m) [''error'']\<rparr>
      | Inr (b, n) \<Rightarrow> Current h' = Some b
          \<and> m' = m\<lparr>BlocklistEntries := int (Size b),
              BlocklistLoadedTimestamp := st_clock (ft_st w) (Suc (st_tick (ft_st w))) div time_Second,
              BlocklistReloadsTotal := vec_Inc (BlocklistReloadsTotal m) [''ok'']\<rparr>)
   \<and> st_lru (ft_st w') = st_lru (ft_st w) \<and> fs_files (ft_fs w') = fs_files (ft_fs w) \<and> ft_poke w' = ft_poke w
   \<and> ft_poke (on_SIGHUP S dk ce gctx w)"
proof -
  obtain r w1 where l: "reload_load K dk ce ss gctx w = (r, w1)" by fastforce
  have "st_lru (ft_st (reloadFromDisk K dk ce ss gctx w)) = st_lru (ft_st w)"
    using reload_effect(1) [of K ss w dk ce gctx] by (simp add: refreshes_def)
  moreover have "ft_poke (on_SIGHUP S dk ce gctx w)" by (simp add: on_SIGHUP_def RefreshNow_def)
  moreover have "fs_files (ft_fs w1) = fs_files (ft_fs w)" using reload_load_effect [OF l] by blast
  ultimately show ?thesis
    using l
    by (cases rule: reload_load_cases [OF l])
      (simp_all add: Let_def reload_effect reloadFromDisk_def reload_failed_def reload_swap_def
        reload_record_def time_Now_def upd_metrics_def)
qed

text \<open>However the actions of any number of concurrent reloads interleave, and whatever happens to
  the local files meanwhile, a reader of the holder only ever sees the matcher that was active
  before or one that a complete load produced.\<close>

theorem interleaved_reloads_safe:
  assumes "reload_runs K ss gctx (replicate n RLoad, w) (pcs, w')"
  shows "Current (st_holder (ft_st w')) = Current (st_holder (ft_st w))
    \<or> (\<exists>m. Current (st_holder (ft_st w')) = Some m \<and> loaded K ss m)"
proof -
  have "list_all (pc_loaded K ss) pcs \<and> refreshes K ss w w'"
    using reload_sys.runs_keep [OF assms [unfolded reload_runs_def], of w] by (simp add: list_all_length pc_loaded_def)
  then show ?thesis by (auto simp: refreshes_def)
qed

lemma sample_canonical: "canonicalise ''ads.example'' = ''ads.example''"
  by (simp add: canonicalise_graphic graphic_def TrimSuffix_def char_eval suffix_def Cons_eq_append_conv)

definition emptied_disk :: disk where
  "emptied_disk p = (if p = ''list'' then Inr ([], None) else Inl (ErrSentinel ErrNotExist))"

lemma load_one:
  "reload_load K sample_disk no_ctx_err [FileSource ''list''] Background w
     = (Some (NewMatcher [''ads.example'']), w\<lparr>ft_st := ticked (ft_st w)\<rparr>)"
  by (simp add: reload_load_def ctx_Err_def time_Now_def Background_def Loader_Load_def sample_file)

lemma load_none:
  "reload_load K emptied_disk no_ctx_err [FileSource ''list''] Background w
     = (Some (NewMatcher []), w\<lparr>ft_st := ticked (ft_st w)\<rparr>)"
proof -
  have "parseReader no_ctx_err [] None = Inr []"
    by (simp add: parseReader_def raw_lines_def Split_def Let_def)
  then show ?thesis
    by (simp add: reload_load_def ctx_Err_def time_Now_def Background_def Loader_Load_def FileSource_Load_def
        emptied_disk_def)
qed

text \<open>A run given by the caller and the local files of each action.\<close>

fun reload_schedule :: "codec \<Rightarrow> source list \<Rightarrow> ctx \<Rightarrow> (nat \<times> disk) list \<Rightarrow> reload_pc list \<times> 'e fetch
    \<Rightarrow> reload_pc list \<times> 'e fetch" where
  "reload_schedule K ss gctx [] x = x"
| "reload_schedule K ss gctx ((i, dk) # sched) (pcs, w) =
     (case reload_action K dk no_ctx_err ss gctx (pcs ! i, w) of
        (pc, w') \<Rightarrow> reload_schedule K ss gctx sched (pcs[i := pc], w'))"

lemma reload_schedule_runs:
  "\<forall>(i, dk) \<in> set sched. i < length (fst x) \<Longrightarrow> reload_runs K ss gctx x (reload_schedule K ss gctx sched x)"
proof (induction sched arbitrary: x)
  case Nil
  then show ?case by (simp add: reload_runs_def)
next
  case (Cons a sched)
  obtain i dk pcs w where x: "a = (i, dk)" "x = (pcs, w)" by (metis surj_pair)
  obtain pc w' where a: "reload_action K dk no_ctx_err ss gctx (pcs ! i, w) = (pc, w')" by fastforce
  have i: "i < length pcs" using Cons.prems x by simp
  from Cons.IH [of "(pcs[i := pc], w')"] Cons.prems x
  have "(reload_step K ss gctx)\<^sup>*\<^sup>* (pcs[i := pc], w') (reload_schedule K ss gctx sched (pcs[i := pc], w'))"
    by (auto simp: reload_runs_def)
  from converse_rtranclp_into_rtranclp [of "reload_step K ss gctx", OF reload_step.reload_act [OF i a] this]
  show ?case by (simp add: x a reload_runs_def)
qed

text \<open>C26: Two reloads that overlap can leave the wrong result behind for good. In one interleaving the
  entries gauge reports one entry while the active blocklist is empty; in another the reload that
  read the files first installs its outdated matcher over the newer one.\<close>

theorem overlapping_reloads_can_be_stale:
  fixes w :: "'e fetch"
  shows "\<exists>w1 w2 :: 'e fetch.
     reload_runs K [FileSource ''list''] Background ([RLoad, RLoad], w) ([RDone, RDone], w1)
     \<and> Current (st_holder (ft_st w1)) = Some (NewMatcher []) \<and> BlocklistEntries (st_metrics (ft_st w1)) = 1
     \<and> reload_runs K [FileSource ''list''] Background ([RLoad, RLoad], w) ([RDone, RDone], w2)
     \<and> Current (st_holder (ft_st w2)) = Some (NewMatcher [''ads.example''])
     \<and> fst (reload_load K emptied_disk no_ctx_err [FileSource ''list''] Background w2) = Some (NewMatcher [])"
proof -
  let ?d = sample_disk and ?e = emptied_disk
  let ?run = "reload_schedule K [FileSource ''list''] Background"
  let ?s1 = "[(0, ?d), (1, ?e), (0, ?e), (1, ?e), (1, ?e), (0, ?e)]"
  let ?s2 = "[(0, ?d), (1, ?e), (1, ?e), (1, ?e), (0, ?e), (0, ?e)]"
  have size: "Size (NewMatcher [''ads.example'']) = 1"
    using sample_canonical by (simp add: Size_def NewMatcher_def)
  have 1: "fst (?run ?s1 ([RLoad, RLoad], w)) = [RDone, RDone]"
    "Current (st_holder (ft_st (snd (?run ?s1 ([RLoad, RLoad], w))))) = Some (NewMatcher [])"
    "BlocklistEntries (st_metrics (ft_st (snd (?run ?s1 ([RLoad, RLoad], w))))) = 1"
    and 2: "fst (?run ?s2 ([RLoad, RLoad], w)) = [RDone, RDone]"
    "Current (st_holder (ft_st (snd (?run ?s2 ([RLoad, RLoad], w))))) = Some (NewMatcher [''ads.example''])"
    by (simp_all add: reload_action_def load_one load_none reload_swap_def reload_record_def time_Now_def
        upd_metrics_def size)
  obtain p1 w1 p2 w2 where r: "?run ?s1 ([RLoad, RLoad], w) = (p1, w1)" "?run ?s2 ([RLoad, RLoad], w) = (p2, w2)"
    by (metis surj_pair)
  note 1 [unfolded r fst_conv snd_conv] 2 [unfolded r fst_conv snd_conv]
  moreover have "reload_runs K [FileSource ''list''] Background ([RLoad, RLoad], w) (p1, w1)"
    "reload_runs K [FileSource ''list''] Background ([RLoad, RLoad], w) (p2, w2)"
    unfolding r [symmetric] by (rule reload_schedule_runs; simp)+
  ultimately show ?thesis using load_none [of K w2] by fastforce
qed

theorem interleaved_reloads_safe_witness:
  "\<exists>w'. reload_runs sample_codec [FileSource ''list''] Background (replicate 1 RLoad, sample_fetch) ([RDone], w')
     \<and> (Current (st_holder (ft_st w')) = Some (NewMatcher [])
        \<or> (\<exists>m. Current (st_holder (ft_st w')) = Some m \<and> loaded sample_codec [FileSource ''list''] m))"
proof -
  let ?run = "reload_schedule sample_codec [FileSource ''list''] Background (replicate 3 (0, sample_disk)) ([RLoad], sample_fetch)"
  have "fst ?run = [RDone]"
    by (simp add: numeral_3_eq_3 reload_action_def load_one)
  then obtain w' where r: "?run = ([RDone], w')" by (metis prod.collapse)
  have "reload_runs sample_codec [FileSource ''list''] Background ([RLoad], sample_fetch) ?run"
    by (rule reload_schedule_runs) simp
  then have "reload_runs sample_codec [FileSource ''list''] Background (replicate 1 RLoad, sample_fetch) ([RDone], w')"
    by (simp only: r) simp
  from interleaved_reloads_safe [OF this] this show ?thesis by (auto simp: sample_fetch_def init_st_def)
qed

end
