(* ===== verification/Serve_Concurrent.thy ===== *)
theory Serve_Concurrent
  imports Chain_Concurrent Serve_Reload
begin

text \<open>
  The running server with all its goroutines interleaved: any number of queries in the actions of
  \<open>Chain_Steps\<close>, the fetcher with one target at a time, the SIGHUP loop, and reloads from both of
  them that read one source at a time while the others go on. What the queries see of all this is
  one of the steps outside them that \<open>Chain_Concurrent\<close> allows for, so its results hold of the
  server that \<open>runServe\<close> (\<open>cmd/bns/serve.go\<close>) puts together.
\<close>

section \<open>Simulation\<close>

text \<open>A detailed system whose steps are, seen through \<open>abs\<close>, steps of an abstract one or none at
  all, as long as an invariant holds.\<close>

locale step_simulation =
  fixes step :: "'c \<Rightarrow> 'c \<Rightarrow> bool" and astep :: "'a \<Rightarrow> 'a \<Rightarrow> bool" and abs :: "'c \<Rightarrow> 'a"
    and good :: "'c \<Rightarrow> bool"
  assumes sim: "good y \<Longrightarrow> step y y' \<Longrightarrow> good y' \<and> (abs y' = abs y \<or> astep (abs y) (abs y'))"
begin

lemma keeps: "good y \<Longrightarrow> step y y' \<Longrightarrow> good y'"
  using sim by blast

end

sublocale step_simulation \<subseteq> step_invariant step good
  by unfold_locales (rule keeps)

context step_simulation begin

lemma runs: "step\<^sup>*\<^sup>* y y' \<Longrightarrow> good y \<Longrightarrow> good y' \<and> astep\<^sup>*\<^sup>* (abs y) (abs y')"
proof (induction rule: rtranclp_induct)
  case (step y' y'')
  have "good y'" by (rule runs_keep [OF step.hyps(1) step.prems])
  from sim [OF this step.hyps(2)] step.IH [OF step.prems] show ?case
    by (auto intro: rtranclp.rtrancl_into_rtrancl)
qed simp

end

section \<open>Reloading one source at a time\<close>

text \<open>The points at which \<open>reloadFromDisk\<close> can be interrupted: before its check of the context,
  between two sources (with those still to read, their number and the entries so far), before the
  swap and before the collectors.\<close>

datatype load_pc =
    LdCheck
  | LdSource "source list" nat "string list"
  | LdSwap Matcher
  | LdRecord Matcher
  | LdDone

definition load_action :: "codec \<Rightarrow> disk \<Rightarrow> line_ctx \<Rightarrow> source list \<Rightarrow> ctx \<Rightarrow> load_pc \<times> 'e fetch
    \<Rightarrow> load_pc \<times> 'e fetch" where
  "load_action K dk ce sources gctx x =
     (case x of
        (LdCheck, w) \<Rightarrow>
          (case ctx_Err gctx (ft_st w) of
             (Some _, s) \<Rightarrow> (LdDone, w\<lparr>ft_st := s\<rparr>)
           | (None, s) \<Rightarrow> (LdSource sources 0 [], w\<lparr>ft_st := s\<rparr>))
      | (LdSource [] i all, w) \<Rightarrow> (LdSwap (NewMatcher all), w)
      | (LdSource (s # ss) i all, w) \<Rightarrow>
          (case source_Load K dk ce s (ft_fs w) of
             (Inl e, f) \<Rightarrow> (LdDone, reload_failed (w\<lparr>ft_fs := f\<rparr>))
           | (Inr entries, f) \<Rightarrow> (LdSource ss (Suc i) (all @ entries), w\<lparr>ft_fs := f\<rparr>))
      | (LdSwap m, w) \<Rightarrow> (LdRecord m, reload_swap m w)
      | (LdRecord m, w) \<Rightarrow> (LdDone, reload_record m w)
      | (LdDone, w) \<Rightarrow> (LdDone, w))"

text \<open>What the sources are read from: the local files and the cache directory. A list that was put
  together from all that each source held at some moment, out of the moments \<open>V\<close>.\<close>

type_synonym contents = "disk \<times> (string \<times> string) list"

definition read_from :: "codec \<Rightarrow> contents set \<Rightarrow> source list \<Rightarrow> Matcher \<Rightarrow> bool" where
  "read_from K V ss m \<longleftrightarrow> (\<exists>ess. list_all2 (\<lambda>s es. \<exists>(dk, files) \<in> V. source_content K dk files s = Some es) ss ess
     \<and> m = NewMatcher (concat ess))"

section \<open>The goroutines\<close>

text \<open>Where the fetcher's \<open>Run\<close> is: before the sweep, in a cycle (with the targets to come and
  whether anything changed), in the reload after a cycle, in the \<open>select\<close>, or returned.\<close>

datatype fetch_pc = FtSweep | FtTarget "FetchTarget list" bool | FtReload load_pc | FtWait | FtStop

inductive fetch_step :: "'e service \<Rightarrow> ctx \<Rightarrow> disk \<Rightarrow> fetch_pc \<times> 'e fetch \<Rightarrow> fetch_pc \<times> 'e fetch \<Rightarrow> bool"
  for S :: "'e service" and gctx :: ctx and dk :: disk where
  ft_sweep: "Sweep (fc_Codec (sc_fetcher S)) (map tg_URL (sc_targets S)) (ft_fs w) = (res, fs) \<Longrightarrow>
    fetch_step S gctx dk (FtSweep, w) (FtTarget (sc_targets S) False, w\<lparr>ft_fs := fs\<rparr>)"
| ft_one: "FetchOne (sc_fetcher S) gctx t w = (res, w') \<Longrightarrow>
    fetch_step S gctx dk (FtTarget (t # ts) changed, w)
      (FtTarget ts (changed \<or> fr_Outcome res = FetchOutcomeSuccess), w')"
| ft_changed: "fetch_step S gctx dk (FtTarget [] True, w) (FtReload LdCheck, w)"
| ft_same: "fetch_step S gctx dk (FtTarget [] False, w) (FtWait, w)"
| ft_reload: "p \<noteq> LdDone \<Longrightarrow>
    load_action (fc_Codec (sc_fetcher S)) dk ce (sc_sources S) gctx (p, w) = (p', w') \<Longrightarrow>
    fetch_step S gctx dk (FtReload p, w) (FtReload p', w')"
| ft_reloaded: "fetch_step S gctx dk (FtReload LdDone, w) (FtWait, w)"
| ft_tick: "0 < fc_Interval (sc_fetcher S) \<Longrightarrow>
    fetch_step S gctx dk (FtWait, w) (FtTarget (sc_targets S) False, w)"
| ft_poked: "ft_poke w \<Longrightarrow>
    fetch_step S gctx dk (FtWait, w) (FtTarget (sc_targets S) False, w\<lparr>ft_poke := False\<rparr>)"
| ft_done: "cx_err gctx (now (ft_st w)) \<noteq> None \<Longrightarrow> fetch_step S gctx dk (FtWait, w) (FtStop, w)"

text \<open>The SIGHUP loop; the flag is a pending signal.\<close>

datatype hup_pc = HupWait | HupReload load_pc | HupStop

inductive hup_step :: "'e service \<Rightarrow> ctx \<Rightarrow> disk \<Rightarrow> hup_pc \<times> bool \<times> 'e fetch \<Rightarrow> hup_pc \<times> bool \<times> 'e fetch \<Rightarrow> bool"
  for S :: "'e service" and gctx :: ctx and dk :: disk where
  hup_take: "hup_step S gctx dk (HupWait, True, w) (HupReload LdCheck, False, w)"
| hup_reload: "p \<noteq> LdDone \<Longrightarrow>
    load_action (fc_Codec (sc_fetcher S)) dk ce (sc_sources S) gctx (p, w) = (p', w') \<Longrightarrow>
    hup_step S gctx dk (HupReload p, sig, w) (HupReload p', sig, w')"
| hup_refresh: "hup_step S gctx dk (HupReload LdDone, sig, w) (HupWait, sig, RefreshNow w)"
| hup_done: "cx_err gctx (now (ft_st w)) \<noteq> None \<Longrightarrow> hup_step S gctx dk (HupWait, sig, w) (HupStop, sig, w)"

section \<open>The server\<close>

record ('e, 'g) srv =
  sv_w :: "'e fetch"
  sv_grp :: 'g
  sv_qs :: "(query \<times> pc) list"
  sv_fetch :: fetch_pc
  sv_hup :: hup_pc
  sv_sig :: bool
  sv_disk :: disk
  sv_udp :: bool
  sv_tcp :: bool
  sv_wait :: wait
  sv_rdy :: Readiness

definition srv_init :: "'e fetch \<Rightarrow> 'g \<Rightarrow> disk \<Rightarrow> Readiness \<Rightarrow> ('e, 'g) srv" where
  "srv_init w g dk rdy =
     \<lparr>sv_w = w, sv_grp = g, sv_qs = [], sv_fetch = FtSweep, sv_hup = HupWait, sv_sig = False, sv_disk = dk,
      sv_udp = False, sv_tcp = False, sv_wait = WaitUDP, sv_rdy = rdy\<rparr>"

inductive srv_step :: "'e service \<Rightarrow> 'g sf \<Rightarrow> ctx \<Rightarrow> ctx \<Rightarrow> ('e, 'g) srv \<Rightarrow> ('e, 'g) srv \<Rightarrow> bool"
  for S :: "'e service" and G :: "'g sf" and gctx :: ctx and readyCtx :: ctx where
  srv_query: "i < length (sv_qs y) \<Longrightarrow> sv_qs y ! i = (q, p) \<Longrightarrow>
    q_step (sc_deps S) G i q (p, ft_st (sv_w y), sv_grp y) = Some (p', s', g') \<Longrightarrow>
    srv_step S G gctx readyCtx y
      (y\<lparr>sv_w := (sv_w y)\<lparr>ft_st := s'\<rparr>, sv_grp := g', sv_qs := (sv_qs y)[i := (q, p')]\<rparr>)"
| srv_arrive: "sv_udp y \<or> sv_tcp y \<Longrightarrow>
    srv_step S G gctx readyCtx y (y\<lparr>sv_qs := sv_qs y @ [(q, AtMetrics)]\<rparr>)"
| srv_fetch: "fetch_step S gctx (sv_disk y) (sv_fetch y, sv_w y) (p', w') \<Longrightarrow>
    srv_step S G gctx readyCtx y (y\<lparr>sv_fetch := p', sv_w := w'\<rparr>)"
| srv_hup: "hup_step S gctx (sv_disk y) (sv_hup y, sv_sig y, sv_w y) (p', sig', w') \<Longrightarrow>
    srv_step S G gctx readyCtx y (y\<lparr>sv_hup := p', sv_sig := sig', sv_w := w'\<rparr>)"
| srv_signal: "srv_step S G gctx readyCtx y (y\<lparr>sv_sig := True\<rparr>)"
| srv_edit: "srv_step S G gctx readyCtx y (y\<lparr>sv_disk := dk\<rparr>)"
| srv_udp: "srv_step S G gctx readyCtx y (y\<lparr>sv_udp := True\<rparr>)"
| srv_tcp: "srv_step S G gctx readyCtx y (y\<lparr>sv_tcp := True\<rparr>)"
| srv_wait_udp: "sv_wait y = WaitUDP \<Longrightarrow> sv_udp y \<Longrightarrow> srv_step S G gctx readyCtx y (y\<lparr>sv_wait := WaitTCP\<rparr>)"
| srv_wait_tcp: "sv_wait y = WaitTCP \<Longrightarrow> sv_tcp y \<Longrightarrow>
    srv_step S G gctx readyCtx y (y\<lparr>sv_wait := Returned None, sv_rdy := SetListenersReady (sv_rdy y) True\<rparr>)"
| srv_wait_ctx: "sv_wait y \<in> {WaitUDP, WaitTCP} \<Longrightarrow> cx_err readyCtx (now (ft_st (sv_w y))) = Some e \<Longrightarrow>
    srv_step S G gctx readyCtx y (y\<lparr>sv_wait := Returned (Some (ErrWrap ''dns listeners not ready'' e))\<rparr>)"

text \<open>A run with all the states it went through, the latest first, and what its sources were read
  from at each of them.\<close>

inductive srv_run :: "'e service \<Rightarrow> 'g sf \<Rightarrow> ctx \<Rightarrow> ctx \<Rightarrow> ('e, 'g) srv \<Rightarrow> ('e, 'g) srv list \<Rightarrow> bool"
  for S :: "'e service" and G :: "'g sf" and gctx :: ctx and readyCtx :: ctx and y0 :: "('e, 'g) srv" where
  run_init: "srv_run S G gctx readyCtx y0 [y0]"
| run_more: "srv_run S G gctx readyCtx y0 (y # ys) \<Longrightarrow> srv_step S G gctx readyCtx y y' \<Longrightarrow>
    srv_run S G gctx readyCtx y0 (y' # y # ys)"

definition view :: "('e, 'g) srv \<Rightarrow> contents" where
  "view y = (sv_disk y, fs_files (ft_fs (sv_w y)))"

definition seen :: "('e, 'g) srv list \<Rightarrow> contents set" where
  "seen ys = view ` set ys"

text \<open>The part of it that the queries share.\<close>

definition queries :: "('e, 'g) srv \<Rightarrow> ('e, 'g) conc" where
  "queries y = \<lparr>cn_st = ft_st (sv_w y), cn_grp = sv_grp y, cn_qs = sv_qs y\<rparr>"

inductive_cases fetch_stepE: "fetch_step S gctx dk x y"
inductive_cases hup_stepE: "hup_step S gctx dk x y"

section \<open>What the goroutines leave to the queries\<close>

text \<open>A change of the shared state that touches neither the cache nor a marker nor the counters of
  queries.\<close>

definition aside :: "'e st \<Rightarrow> 'e st \<Rightarrow> bool" where
  "aside s s' \<longleftrightarrow> frame False Background s s' \<and> st_lru s' = st_lru s"

lemma aside_refl [simp]: "aside s s"
  by (simp add: aside_def)

lemma aside_trans [trans]: "aside s s1 \<Longrightarrow> aside s1 s2 \<Longrightarrow> aside s s2"
  by (auto simp: aside_def intro: frame_trans)

lemma aside_holder: "aside s s' \<Longrightarrow> st_holder s' = st_holder s"
  by (simp add: aside_def frame_def)

lemma aside_tick [simp]: "st_tick s \<le> n \<Longrightarrow> aside s (s\<lparr>st_tick := n\<rparr>)"
  by (simp add: aside_def frame_def)

lemma aside_net [simp]: "aside s (s\<lparr>st_net := n\<rparr>)"
  by (simp add: aside_def)

lemma aside_metrics: "quiet (st_metrics s) (h (st_metrics s)) \<Longrightarrow> aside s (upd_metrics h s)"
  by (simp add: aside_def upd_metrics_def) (metis frame_metrics upd_metrics_def)

lemma aside_outside:
  assumes "aside s s'" and "\<forall>m. Current (st_holder s) = Some m \<longrightarrow> m \<in> B"
  shows "outside B s s'"
  using assms by (auto simp: aside_def frame_def outside_def Background_def fun_eq_iff)

lemma hooks_aside:
  "aside (ft_st w) (ft_st (recordOutcome F n oc w))" "aside (ft_st w) (ft_st (markSuccess F n ts w))"
  "aside (ft_st w) (ft_st (setEntries F n k w))"
  by (simp_all add: recordOutcome_def markSuccess_def setEntries_def aside_metrics quiet_def
      fm_IncFetch_def fm_SetLastSuccess_def fm_SetEntries_def)

lemma fetch_store_aside:
  assumes "fetch_store F t start pm resp w = (res, w')"
  shows "aside (ft_st w) (ft_st w')"
proof -
  have m: "aside (ft_st v) (ft_st (setEntries F n k (markSuccess F n ts v)))" for v n k ts
    by (rule aside_trans [OF hooks_aside(2,3)])
  have "aside (ft_st w) (ft_st (setEntries F n k (markSuccess F n ts (w\<lparr>ft_fs := fs\<rparr>))))" for n k ts fs
    using m [of "w\<lparr>ft_fs := fs\<rparr>"] by simp
  then show ?thesis
    using assms m
    by (auto simp: fetch_store_def Let_def split: if_splits sum.splits prod.splits option.splits)
qed

lemma FetchOne_aside:
  assumes "FetchOne F c t w = (res, w')"
  shows "aside (ft_st w) (ft_st w')"
proof -
  have body: "aside (ft_st v) (ft_st v')" if "fetch_body F c t start v = (r, v')" for start v r v'
  proof -
    have "aside (ft_st v) (ft_st v')" if "fetch_store F t start pm resp (v\<lparr>ft_fs := fs, ft_st := (ft_st v)\<lparr>st_net := n\<rparr>\<rparr>) = (r, v')"
      for pm resp fs n
      using aside_trans [OF aside_net fetch_store_aside [OF that, simplified]] .
    then show ?thesis using that
      by (auto simp: fetch_body_def Let_def split: prod.splits option.splits sum.splits)
  qed
  have run: "aside (ft_st w) (ft_st (recordOutcome F n oc v'))"
    if "fetch_body F c t start (w\<lparr>ft_st := s2\<rparr>) = (r, v')" and "aside (ft_st w) s2" for start s2 r v' n oc
    using that(2) body [OF that(1)] hooks_aside(1) aside_trans by (metis fetch.select_convs(1) fetch.surjective fetch.update_convs(1))
  show ?thesis
    using assms
    by (auto simp: FetchOne_def time_Now_def ctx_Err_def split: prod.splits option.splits intro!: run)
qed

section \<open>Reloads\<close>

text \<open>What a reload has in hand is what it has read.\<close>

abbreviation read_at :: "codec \<Rightarrow> contents set \<Rightarrow> source \<Rightarrow> string list \<Rightarrow> bool" where
  "read_at K V s es \<equiv> \<exists>(dk, files) \<in> V. source_content K dk files s = Some es"

definition pc_read :: "codec \<Rightarrow> contents set \<Rightarrow> source list \<Rightarrow> load_pc \<Rightarrow> bool" where
  "pc_read K V ss p =
     (case p of
        LdSource rest i all \<Rightarrow>
          \<exists>read ess. ss = read @ rest \<and> i = length read \<and> list_all2 (read_at K V) read ess \<and> all = concat ess
      | LdSwap m \<Rightarrow> read_from K V ss m
      | LdRecord m \<Rightarrow> read_from K V ss m
      | _ \<Rightarrow> True)"

lemma pc_read_simps [simp]: "pc_read K V ss LdCheck" "pc_read K V ss LdDone"
  by (simp_all add: pc_read_def)

lemma pc_read_more:
  assumes "pc_read K V ss (LdSource (s # rest) i all)" and "source_Load K dk ce s f = (Inr es, f')"
    and "honest f" and "(dk, fs_files f) \<in> V"
  shows "pc_read K V ss (LdSource rest (Suc i) (all @ es))"
proof -
  obtain read ess where "ss = read @ s # rest" "i = length read" "list_all2 (read_at K V) read ess" "all = concat ess"
    using assms(1) by (auto simp: pc_read_def)
  moreover have "read_at K V s es" using src.complete [OF assms(3,2)] assms(4) by blast
  then have "list_all2 (read_at K V) (read @ [s]) (ess @ [es])"
    by (intro list_all2_appendI \<open>list_all2 (read_at K V) read ess\<close>) simp
  ultimately show ?thesis
    unfolding pc_read_def by (auto intro!: exI [of _ "read @ [s]"] exI [of _ "ess @ [es]"])
qed

lemma pc_read_all: "pc_read K V ss (LdSource [] i all) \<Longrightarrow> read_from K V ss (NewMatcher all)"
  by (auto simp: pc_read_def read_from_def)

abbreviation lists :: "codec \<Rightarrow> contents set \<Rightarrow> source list \<Rightarrow> Matcher set" where
  "lists K V ss \<equiv> {m. read_from K V ss m}"

definition active_ok :: "codec \<Rightarrow> contents set \<Rightarrow> source list \<Rightarrow> 'e st \<Rightarrow> bool" where
  "active_ok K V ss s \<longleftrightarrow> (\<exists>m. Current (st_holder s) = Some m \<and> read_from K V ss m)"

text \<open>One action of a goroutine other than a query.\<close>

definition background :: "codec \<Rightarrow> contents set \<Rightarrow> source list \<Rightarrow> 'e fetch \<Rightarrow> 'e fetch \<Rightarrow> bool" where
  "background K V ss w w' \<longleftrightarrow> active_ok K V ss (ft_st w') \<and> outside (lists K V ss) (ft_st w) (ft_st w')"

lemma background_aside:
  assumes "active_ok K V ss (ft_st w)" and "aside (ft_st w) (ft_st w')"
  shows "background K V ss w w'"
proof -
  have "outside (lists K V ss) (ft_st w) (ft_st w')"
    using assms by (intro aside_outside) (auto simp: active_ok_def)
  then show ?thesis using assms aside_holder [OF assms(2)] by (simp add: background_def active_ok_def)
qed

lemma reload_failed_aside: "aside (ft_st w) (ft_st (reload_failed w))"
  by (simp add: reload_failed_def aside_metrics quiet_def)

lemma reload_record_aside: "aside (ft_st w) (ft_st (reload_record m w))"
  by (simp add: reload_record_def time_Now_def) (rule aside_trans [OF aside_tick aside_metrics]; simp add: quiet_def)

lemma reload_swap_background: "read_from K V ss m \<Longrightarrow> background K V ss w (reload_swap m w)"
  by (simp add: background_def active_ok_def reload_swap_def outside_def quiet_def)

lemma load_action_sim:
  assumes a: "load_action K dk ce ss gctx (p, w) = (p', w')" and p: "pc_read K V ss p"
    and ok: "active_ok K V ss (ft_st w)" and h: "honest (ft_fs w)" and v: "(dk, fs_files (ft_fs w)) \<in> V"
  shows "pc_read K V ss p' \<and> background K V ss w w'
    \<and> fs_files (ft_fs w') = fs_files (ft_fs w) \<and> fs_fault (ft_fs w') = fs_fault (ft_fs w)"
proof (cases p)
  case LdCheck
  then show ?thesis using a background_aside [OF ok]
    by (auto simp: load_action_def ctx_Err_def time_Now_def pc_read_def split: option.splits)
next
  case (LdSource rest i all)
  show ?thesis
  proof (cases rest)
    case Nil
    then show ?thesis using a p LdSource background_aside [OF ok] pc_read_all
      by (fastforce simp: load_action_def pc_read_def)
  next
    case (Cons s ss')
    obtain r f where l: "source_Load K dk ce s (ft_fs w) = (r, f)" by fastforce
    note fs = src.files [OF l]
    show ?thesis
    proof (cases r)
      case (Inl e)
      have "aside (ft_st w) (ft_st (reload_failed (w\<lparr>ft_fs := f\<rparr>)))"
        using reload_failed_aside [of "w\<lparr>ft_fs := f\<rparr>"] by simp
      then show ?thesis using a Inl LdSource Cons l fs background_aside [OF ok]
        by (auto simp: load_action_def reload_failed_def)
    next
      case (Inr es)
      then show ?thesis using a LdSource Cons l fs background_aside [OF ok] pc_read_more [OF _ l [unfolded Inr] h v] p
        by (auto simp: load_action_def)
    qed
  qed
next
  case (LdSwap m)
  then show ?thesis using a p reload_swap_background [of K V ss m w]
    by (auto simp: load_action_def pc_read_def reload_swap_def)
next
  case (LdRecord m)
  then show ?thesis using a background_aside [OF ok reload_record_aside]
    by (auto simp: load_action_def reload_record_def time_Now_def)
next
  case LdDone
  then show ?thesis using a background_aside [OF ok] by (simp add: load_action_def)
qed

section \<open>Faults of the file system\<close>

text \<open>Which calls fail is not something the program changes.\<close>

lemma ReadMeta_fault: "fs_fault (snd (ReadMeta K u f)) = fs_fault f"
  by (simp add: ReadMeta_def os_eqs split: option.splits)

lemma store_Write_fault: "store_Write K u body meta f = (e, f') \<Longrightarrow> fs_fault f' = fs_fault f"
  using store_Write_visible [of K u body f meta] by (simp add: visible_def)

lemma fetch_store_fault:
  "fetch_store F t start pm resp w = (res, w') \<Longrightarrow> fs_fault (ft_fs w') = fs_fault (ft_fs w)"
  by (auto simp: fetch_store_def Let_def split: if_splits sum.splits prod.splits option.splits dest: store_Write_fault)

lemma FetchOne_fault:
  assumes "FetchOne F c t w = (res, w')"
  shows "fs_fault (ft_fs w') = fs_fault (ft_fs w)"
proof -
  have "fs_fault (ft_fs v') = fs_fault (ft_fs v)" if "fetch_body F c t start v = (r, v')" for start v r v'
    using that ReadMeta_fault [of "fc_Codec F" "tg_URL t" "ft_fs v"]
    by (auto simp: fetch_body_def Let_def split: prod.splits option.splits sum.splits dest: fetch_store_fault)
  then show ?thesis using assms by (fastforce simp: FetchOne_def split: prod.splits option.splits)
qed

lemma sweep_loop_fault: "sweep_loop ks names n f = (r, f') \<Longrightarrow> fs_fault f' = fs_fault f"
proof (induction ks names n f rule: sweep_loop.induct)
  case (2 ks name names n f)
  then show ?case
    by (auto simp: os_Remove_def sys_call_def set_files_def split: if_splits option.splits prod.splits)
qed simp

lemma Sweep_fault: "Sweep K keep f = (r, f') \<Longrightarrow> fs_fault f' = fs_fault f"
  by (auto simp: Sweep_def os_ReadDir_def sys_call_def split: option.splits if_splits dest: sweep_loop_fault)

lemma loader_loop_fault: "loader_loop K dk ce ss i all f = (r, f') \<Longrightarrow> fs_fault f' = fs_fault f"
proof (induction ss arbitrary: i all f)
  case (Cons s ss)
  obtain x g where l: "source_Load K dk ce s f = (x, g)" by fastforce
  then show ?case using Cons.IH Cons.prems src.files [OF l] by (cases x) auto
qed simp

section \<open>The server keeps to what the queries allow\<close>

abbreviation srv_codec :: "'e service \<Rightarrow> codec" where
  "srv_codec S \<equiv> fc_Codec (sc_fetcher S)"

abbreviation srv_lists :: "'e service \<Rightarrow> contents set \<Rightarrow> Matcher set" where
  "srv_lists S V \<equiv> lists (srv_codec S) V (sc_sources S)"

abbreviation srv_bodies :: "'e service \<Rightarrow> fsys \<Rightarrow> fsys \<Rightarrow> bool" where
  "srv_bodies S \<equiv> bodies_safe (srv_codec S) (map tg_URL (sc_targets S))"

definition fetch_read :: "'e service \<Rightarrow> contents set \<Rightarrow> fetch_pc \<Rightarrow> bool" where
  "fetch_read S V p = (case p of FtReload l \<Rightarrow> pc_read (srv_codec S) V (sc_sources S) l | _ \<Rightarrow> True)"

definition hup_read :: "'e service \<Rightarrow> contents set \<Rightarrow> hup_pc \<Rightarrow> bool" where
  "hup_read S V p = (case p of HupReload l \<Rightarrow> pc_read (srv_codec S) V (sc_sources S) l | _ \<Rightarrow> True)"

lemma fetch_step_sim:
  assumes "fetch_step S gctx dk (p, w) (p', w')" and "fetch_read S V p" and "codec_ok (srv_codec S)"
    and ok: "active_ok (srv_codec S) V (sc_sources S) (ft_st w)"
    and h: "honest (ft_fs w)" and v: "(dk, fs_files (ft_fs w)) \<in> V"
  shows "fetch_read S V p' \<and> background (srv_codec S) V (sc_sources S) w w' \<and> srv_bodies S (ft_fs w) (ft_fs w')
    \<and> fs_fault (ft_fs w') = fs_fault (ft_fs w)"
  using assms(1)
proof (cases rule: fetch_step.cases)
  case (ft_sweep res fs)
  then show ?thesis using background_aside [OF ok] Sweep_bodies [OF ft_sweep(4)] Sweep_fault [OF ft_sweep(4)] by (simp add: fetch_read_def)
next
  case (ft_one t res ts changed)
  then show ?thesis
    using background_aside [OF ok FetchOne_aside [OF ft_one(3)]]
      body_safe_bodies [OF assms(3) FetchOne_effect(1) [OF ft_one(3)]] FetchOne_fault [OF ft_one(3)]
    by (simp add: fetch_read_def)
next
  case (ft_reload l ce l')
  then show ?thesis
    using load_action_sim [OF ft_reload(4) _ ok h v] assms(2) by (simp add: fetch_read_def bodies_safe_def)
qed (use background_aside [OF ok] in \<open>simp_all add: fetch_read_def bodies_safe_def\<close>)

lemma hup_step_sim:
  assumes "hup_step S gctx dk (p, sig, w) (p', sig', w')" and "hup_read S V p"
    and ok: "active_ok (srv_codec S) V (sc_sources S) (ft_st w)"
    and h: "honest (ft_fs w)" and v: "(dk, fs_files (ft_fs w)) \<in> V"
  shows "hup_read S V p' \<and> background (srv_codec S) V (sc_sources S) w w' \<and> srv_bodies S (ft_fs w) (ft_fs w')
    \<and> fs_fault (ft_fs w') = fs_fault (ft_fs w)"
  using assms(1)
proof (cases rule: hup_step.cases)
  case (hup_reload l ce l')
  then show ?thesis
    using load_action_sim [OF hup_reload(5) _ ok h v] assms(2) by (simp add: hup_read_def bodies_safe_def)
qed (use background_aside [OF ok] in \<open>simp_all add: hup_read_def bodies_safe_def RefreshNow_def\<close>)

definition srv_ready :: "Readiness \<Rightarrow> ('e, 'g) srv \<Rightarrow> bool" where
  "srv_ready rdy y \<longleftrightarrow>
     (sv_wait y = WaitTCP \<longrightarrow> sv_udp y)
     \<and> (rd_listeners (sv_rdy y) \<longrightarrow> sv_udp y \<and> sv_tcp y)
     \<and> rd_blocklist (sv_rdy y) = rd_blocklist rdy \<and> rd_upstream (sv_rdy y) = rd_upstream rdy"

definition srv_good :: "'e service \<Rightarrow> contents set \<Rightarrow> Readiness \<Rightarrow> fsys \<Rightarrow> ('e, 'g) srv \<Rightarrow> bool" where
  "srv_good S V rdy f0 y \<longleftrightarrow>
     conc_deps (sc_deps S) \<and> codec_ok (srv_codec S) \<and> fetch_read S V (sv_fetch y) \<and> hup_read S V (sv_hup y)
     \<and> active_ok (srv_codec S) V (sc_sources S) (ft_st (sv_w y)) \<and> srv_ready rdy y
     \<and> srv_bodies S f0 (ft_fs (sv_w y)) \<and> honest (ft_fs (sv_w y))"

lemma srv_ready_step:
  "srv_step S G gctx readyCtx y y' \<Longrightarrow> srv_ready rdy y \<Longrightarrow> srv_ready rdy y'"
  by (erule srv_step.cases) (simp_all add: srv_ready_def SetListenersReady_def)

lemma srv_step_sim:
  assumes good: "srv_good S V rdy f0 y" and st: "srv_step S G gctx readyCtx y y'" and v: "view y \<in> V"
  shows "srv_good S V rdy f0 y'
    \<and> (queries y' = queries y \<or> conc_step (sc_deps S) G (srv_lists S V) (queries y) (queries y'))"
proof -
  note r = srv_ready_step [OF st, of rdy]
  show ?thesis
    using st
  proof (cases rule: srv_step.cases)
    case (srv_query i q p p' s' g')
    have "conc_act (sc_deps S) G (queries y) (queries y')"
      using conc_act.act [of i "queries y" q p "sc_deps S" G p' s' g'] srv_query by (simp add: queries_def)
    moreover have "st_holder s' = st_holder (ft_st (sv_w y))"
      using q_step_kept [OF _ srv_query(4)] good by (simp add: srv_good_def kept_def)
    ultimately show ?thesis
      using good r srv_query(1) by (auto simp: srv_good_def active_ok_def intro: step_act)
  next
    case (srv_arrive q)
    then show ?thesis
      using good r step_arrive [of "sc_deps S" G "srv_lists S V" "queries y" q]
      by (simp add: srv_good_def queries_def)
  next
    case (srv_fetch p' w')
    have "fetch_read S V p' \<and> background (srv_codec S) V (sc_sources S) (sv_w y) w' \<and> srv_bodies S (ft_fs (sv_w y)) (ft_fs w')
      \<and> fs_fault (ft_fs w') = fs_fault (ft_fs (sv_w y))"
      using fetch_step_sim [OF srv_fetch(2), of V] good v by (simp add: srv_good_def view_def)
    then show ?thesis
      using good r srv_fetch(1) step_outside [of "srv_lists S V" "queries y" "ft_st w'" "sc_deps S" G]
      by (auto simp: srv_good_def background_def queries_def honest_def intro: bodies_safe_trans)
  next
    case (srv_hup p' sig' w')
    have "hup_read S V p' \<and> background (srv_codec S) V (sc_sources S) (sv_w y) w' \<and> srv_bodies S (ft_fs (sv_w y)) (ft_fs w')
      \<and> fs_fault (ft_fs w') = fs_fault (ft_fs (sv_w y))"
      using hup_step_sim [OF srv_hup(2), of V] good v by (simp add: srv_good_def view_def)
    then show ?thesis
      using good r srv_hup(1) step_outside [of "srv_lists S V" "queries y" "ft_st w'" "sc_deps S" G]
      by (auto simp: srv_good_def background_def queries_def honest_def intro: bodies_safe_trans)
  qed (use good r in \<open>simp_all add: srv_good_def queries_def\<close>)
qed

text \<open>The steps taken from states whose contents are among \<open>V\<close>.\<close>

definition seen_step :: "'e service \<Rightarrow> 'g sf \<Rightarrow> ctx \<Rightarrow> ctx \<Rightarrow> contents set \<Rightarrow> ('e, 'g) srv \<Rightarrow> ('e, 'g) srv \<Rightarrow> bool" where
  "seen_step S G gctx readyCtx V y y' \<longleftrightarrow> srv_step S G gctx readyCtx y y' \<and> view y \<in> V"

interpretation sim_srv: step_simulation "seen_step S G gctx readyCtx V"
    "conc_step (sc_deps S) G (srv_lists S V)" queries "srv_good S V rdy f0" for S G gctx readyCtx V rdy f0
  by unfold_locales (auto simp: seen_step_def dest: srv_step_sim)

lemma run_seen_steps:
  "srv_run S G gctx readyCtx y0 ys \<Longrightarrow> seen ys \<subseteq> V \<Longrightarrow> (seen_step S G gctx readyCtx V)\<^sup>*\<^sup>* y0 (hd ys)"
proof (induction rule: srv_run.induct)
  case (run_more y ys y')
  then have "seen_step S G gctx readyCtx V y y'" "(seen_step S G gctx readyCtx V)\<^sup>*\<^sup>* y0 y"
    by (auto simp: seen_step_def [abs_def] seen_def)
  then show ?case by (simp add: rtranclp.rtrancl_into_rtrancl)
qed simp

lemma run_from: "srv_run S G gctx readyCtx y0 ys \<Longrightarrow> view y0 \<in> seen ys"
  by (induction rule: srv_run.induct) (simp_all add: seen_def)

section \<open>Goroutines that are not interrupted\<close>

text \<open>A reload that runs through does what \<open>reloadFromDisk\<close> does, and a cycle what \<open>cycle\<close> does.\<close>

lemma load_sources:
  "loader_loop K dk ce rest i all (ft_fs w) = (r, f) \<Longrightarrow>
   \<exists>n. (load_action K dk ce ss gctx ^^ n) (LdSource rest i all, w) =
     (case r of Inl e \<Rightarrow> (LdDone, reload_failed (w\<lparr>ft_fs := f\<rparr>)) | Inr (m, k) \<Rightarrow> (LdSwap m, w\<lparr>ft_fs := f\<rparr>))"
proof (induction rest arbitrary: i all w)
  case Nil
  then show ?case by (intro exI [of _ 1]) (auto simp: load_action_def)
next
  case (Cons s rest)
  obtain x g where l: "source_Load K dk ce s (ft_fs w) = (x, g)" by fastforce
  show ?case
  proof (cases x)
    case (Inl e)
    then show ?thesis using Cons.prems l by (intro exI [of _ 1]) (auto simp: load_action_def)
  next
    case (Inr es)
    have "loader_loop K dk ce rest (Suc i) (all @ es) (ft_fs (w\<lparr>ft_fs := g\<rparr>)) = (r, f)"
      using Cons.prems l Inr by simp
    from Cons.IH [OF this] obtain n where n: "(load_action K dk ce ss gctx ^^ n) (LdSource rest (Suc i) (all @ es), w\<lparr>ft_fs := g\<rparr>) =
      (case r of Inl e \<Rightarrow> (LdDone, reload_failed (w\<lparr>ft_fs := f\<rparr>)) | Inr (m, k) \<Rightarrow> (LdSwap m, w\<lparr>ft_fs := f\<rparr>))"
      by (auto split: sum.splits)
    have "load_action K dk ce ss gctx (LdSource (s # rest) i all, w) = (LdSource rest (Suc i) (all @ es), w\<lparr>ft_fs := g\<rparr>)"
      using l Inr by (simp add: load_action_def)
    with n show ?thesis by (intro exI [of _ "Suc n"]) (simp add: funpow_swap1)
  qed
qed

lemma load_alone:
  "\<exists>n. (load_action K dk ce ss gctx ^^ n) (LdCheck, w) = (LdDone, reloadFromDisk K dk ce ss gctx w)"
proof (cases "cx_err gctx (now (ft_st w))")
  case (Some e)
  then show ?thesis
    by (intro exI [of _ 1])
      (simp add: load_action_def ctx_Err_def time_Now_def reloadFromDisk_def reload_load_def)
next
  case None
  let ?w = "w\<lparr>ft_st := ticked (ft_st w)\<rparr>" and ?a = "load_action K dk ce ss gctx"
  obtain r f where l: "Loader_Load K dk ce ss (ft_fs ?w) = (r, f)" by fastforce
  from load_sources [OF this [unfolded Loader_Load_def]] obtain n where
    n: "(?a ^^ n) (LdSource ss 0 [], ?w) = (case r of Inl e \<Rightarrow> (LdDone, reload_failed (?w\<lparr>ft_fs := f\<rparr>))
      | Inr (m, k) \<Rightarrow> (LdSwap m, ?w\<lparr>ft_fs := f\<rparr>))" by blast
  have c: "?a (LdCheck, w) = (LdSource ss 0 [], ?w)"
    using None by (simp add: load_action_def ctx_Err_def time_Now_def)
  have s: "(?a ^^ Suc n) (LdCheck, w) = (?a ^^ n) (LdSource ss 0 [], ?w)" using c by (simp add: funpow_swap1)
  show ?thesis
  proof (cases r)
    case (Inl e)
    then have "(?a ^^ Suc n) (LdCheck, w) = (LdDone, reloadFromDisk K dk ce ss gctx w)"
      using n s l None by (simp add: reloadFromDisk_def reload_load_def ctx_Err_def time_Now_def)
    then show ?thesis by blast
  next
    case (Inr x)
    then have "(?a ^^ Suc (Suc (Suc n))) (LdCheck, w) = (LdDone, reloadFromDisk K dk ce ss gctx w)"
      using n s l None
      by (cases x) (simp add: load_action_def reloadFromDisk_def reload_load_def ctx_Err_def time_Now_def)
    then show ?thesis by blast
  qed
qed

lemma reload_run:
  "(load_action (srv_codec S) dk ce (sc_sources S) gctx ^^ n) (p, w) = (LdDone, w') \<Longrightarrow>
   (fetch_step S gctx dk)\<^sup>*\<^sup>* (FtReload p, w) (FtReload LdDone, w')"
proof (induction n arbitrary: p w)
  case (Suc n)
  obtain p1 w1 where a: "load_action (srv_codec S) dk ce (sc_sources S) gctx (p, w) = (p1, w1)" by fastforce
  have "(load_action (srv_codec S) dk ce (sc_sources S) gctx ^^ n) (p1, w1) = (LdDone, w')"
    using Suc.prems a by (simp add: funpow_swap1)
  from Suc.IH [OF this] have r: "(fetch_step S gctx dk)\<^sup>*\<^sup>* (FtReload p1, w1) (FtReload LdDone, w')" .
  show ?case
  proof (cases "p = LdDone")
    case True
    then show ?thesis using a r by (simp add: load_action_def)
  next
    case False
    show ?thesis by (rule converse_rtranclp_into_rtranclp [of "fetch_step S gctx dk", OF ft_reload [OF False a] r])
  qed
qed simp

lemma targets_run:
  "cycle_loop (sc_fetcher S) gctx ts ch w = (ch', w') \<Longrightarrow>
   (fetch_step S gctx dk)\<^sup>*\<^sup>* (FtTarget ts ch, w) (FtTarget [] ch', w')"
proof (induction ts arbitrary: ch w)
  case (Cons t ts)
  obtain res w1 where f: "FetchOne (sc_fetcher S) gctx t w = (res, w1)" by fastforce
  then have "cycle_loop (sc_fetcher S) gctx ts (ch \<or> fr_Outcome res = FetchOutcomeSuccess) w1 = (ch', w')"
    using Cons.prems by simp
  from Cons.IH [OF this] show ?case
    by (rule converse_rtranclp_into_rtranclp [of "fetch_step S gctx dk", OF ft_one [OF f]])
qed simp

lemma cycle_run:
  "(fetch_step S gctx dk)\<^sup>*\<^sup>* (FtTarget (sc_targets S) False, w)
     (FtWait, cycle (sc_fetcher S) gctx (sc_targets S) (reloadFromDisk (srv_codec S) dk ce (sc_sources S) gctx) w)"
proof -
  obtain ch w1 where c: "cycle_loop (sc_fetcher S) gctx (sc_targets S) False w = (ch, w1)" by fastforce
  note t = targets_run [OF c, of dk]
  show ?thesis
  proof (cases ch)
    case True
    obtain n where "(load_action (srv_codec S) dk ce (sc_sources S) gctx ^^ n) (LdCheck, w1)
        = (LdDone, reloadFromDisk (srv_codec S) dk ce (sc_sources S) gctx w1)" using load_alone by blast
    from reload_run [OF this] have "(fetch_step S gctx dk)\<^sup>*\<^sup>* (FtTarget [] True, w1)
        (FtReload LdDone, reloadFromDisk (srv_codec S) dk ce (sc_sources S) gctx w1)"
      by (rule converse_rtranclp_into_rtranclp [of "fetch_step S gctx dk", OF ft_changed])
    with t True have "(fetch_step S gctx dk)\<^sup>*\<^sup>* (FtTarget (sc_targets S) False, w)
        (FtReload LdDone, reloadFromDisk (srv_codec S) dk ce (sc_sources S) gctx w1)"
      by (simp add: rtranclp_trans)
    from rtranclp.rtrancl_into_rtrancl [OF this ft_reloaded] show ?thesis using True c by (simp add: cycle_def)
  next
    case False
    from rtranclp.rtrancl_into_rtrancl [OF t [simplified False] ft_same]
    show ?thesis using False c by (simp add: cycle_def)
  qed
qed

section \<open>From startup on\<close>

lemma warmup_free:
  assumes "cache_free (u_Exchange p)" and "warmupProbe E c p t s = (r, s')"
  shows "st_lru s' = st_lru s" and "st_holder s' = st_holder s" and "quiet (st_metrics s) (st_metrics s')"
proof -
  obtain c' s1 where t: "WithTimeout c t s = (c', s1)" by fastforce
  then have s1: "st_lru s1 = st_lru s" "st_holder s1 = st_holder s" "st_metrics s1 = st_metrics s"
    by (auto simp: WithTimeout_def time_Now_def)
  obtain out req' where x: "u_Exchange p c' (ev_NewMsg E ''a.root-servers.net.'' TypeA) s1 = ((out, req'), s')"
    using assms(2) by (auto simp: warmupProbe_def t split: prod.splits go.splits)
  have "frame False c' s1 s'"
    using upstream_contract.keeps [OF cache_free.axioms(1) [OF assms(1)] x] by blast
  then show "st_holder s' = st_holder s" "quiet (st_metrics s) (st_metrics s')" using s1 by (simp_all add: frame_def)
  show "st_lru s' = st_lru s" using cache_free.lru_kept [OF assms(1), of c' _ s1] x s1 by (metis snd_conv)
qed

text \<open>The sources a configuration names.\<close>

definition source_of :: "BlocklistSource \<Rightarrow> source" where
  "source_of s = (if bs_Type s = ''file'' then FileSource (bs_Path s) else HTTPSource (bs_Name s) (bs_URL s))"

abbreviation configured :: "Config \<Rightarrow> source list" where
  "configured cfg \<equiv> map source_of (bl_Sources (cfg_Blocklists cfg))"

lemma build_sources_of: "build_sources ss = Inr (srcs, tgts) \<Longrightarrow> srcs = map source_of ss"
  by (induction ss arbitrary: srcs tgts) (auto simp: source_of_def split: if_splits sum.splits)

lemma Load_read_from:
  assumes "honest f" and "Loader_Load K dk ce ss f = (Inr (m, n), f')" and "(dk, fs_files f) \<in> V"
  shows "read_from K V ss m"
proof -
  from loader_contents [OF assms(1) assms(2) [unfolded Loader_Load_def]] obtain ess where
    e: "map (source_content K dk (fs_files f)) ss = map Some ess" and m: "m = NewMatcher (concat ess)" by auto
  have "list_all2 (\<lambda>s es. source_content K dk (fs_files f) s = Some es) ss ess"
    using e by (auto simp: list_all2_conv_all_nth dest: map_eq_imp_length_eq) (metis length_map nth_map)
  then have "list_all2 (read_at K V) ss ess" by (rule list_all2_mono) (use assms(3) in blast)
  with m show ?thesis unfolding read_from_def by blast
qed

lemma startup_good:
  assumes "codec_ok (ev_codec E)" and "honest f"
    and "startup E c cfg dk ce clk net f = Ret (Inr (S, w, rdy, lg))" and "view (srv_init w g dk rdy) \<in> V"
  shows "srv_good S V rdy (ft_fs w) (srv_init w g dk rdy)" and "srv_codec S = ev_codec E"
    and "sf_idle G g \<Longrightarrow> conc_inv (sc_deps S) G (srv_lists S V) (max 1 (cc_Capacity (cfg_Cache cfg)))
      (queries (srv_init w g dk rdy))"
    and "sc_sources S = configured cfg"
proof -
  from assms(3) obtain sources targets initial n f' ups err s' where 1:
    "build_sources (bl_Sources (cfg_Blocklists cfg)) = Inr (sources, targets)"
    "Loader_Load (ev_codec E) dk ce sources f = (Inr (initial, n), f')"
    "build_upstreams (ev_lib E) (cfg_Upstreams cfg) = Inr ups" "bind_listeners E cfg = None"
    "warmupProbe E c (NewPool True ups) (cfg_StartupProbeTimeout cfg)
      (init_st clk (cc_Capacity (cfg_Cache cfg)) initial net) = (Ret err, s')"
    "sc_deps S = service_deps E cfg ups" "sc_sources S = sources" "sc_targets S = targets"
    "srv_codec S = ev_codec E" "sc_httpClient S = httpClient cfg"
    "w = \<lparr>ft_st = s', ft_fs = f', ft_poke = False\<rparr>"
    "rdy = \<lparr>rd_blocklist = True, rd_listeners = False, rd_upstream = (err = None)\<rparr>"
    by (rule startup_cases)
  show "srv_codec S = ev_codec E" by (rule 1(9))
  show "sc_sources S = configured cfg" using build_sources_of [OF 1(1)] 1(7) by simp
  have d: "conc_deps (sc_deps S)"
    by (rule built_conc_deps [OF 1(3)]) (simp_all add: 1(6) service_deps_def)
  have "cache_free (u_Exchange (NewPool True ups))"
    using pool_free [OF build_upstreams_free [OF 1(3)]] by (simp add: NewPool_def)
  note s' = warmup_free [OF this 1(5)]
  note l = 1(2) [unfolded Loader_Load_def]
  have h: "honest (ft_fs w)" using assms(2) loader_loop_fault [OF l] 1(11) by (simp add: honest_def)
  have "(dk, fs_files f) \<in> V" using assms(4) loader_loop_files [OF l] 1(11) by (simp add: view_def srv_init_def)
  note m = Load_read_from [OF assms(2) 1(2) this]
  have "Current (st_holder s') = Some initial" using s'(2) sample_holder by metis
  then show "srv_good S V rdy (ft_fs w) (srv_init w g dk rdy)"
    using assms(1) d m h 1(7,9,11,12)
    by (simp add: srv_good_def srv_init_def fetch_read_def hup_read_def active_ok_def srv_ready_def bodies_safe_def)
  assume g: "sf_idle G g"
  have "initial \<in> srv_lists S V" using m 1(7,9) by simp
  from conc_init_inv [OF g this, of "sc_deps S" "cc_Capacity (cfg_Cache cfg)" clk net]
  show "conc_inv (sc_deps S) G (srv_lists S V) (max 1 (cc_Capacity (cfg_Cache cfg))) (queries (srv_init w g dk rdy))"
    using s' 1(11) quiet_counted [OF s'(3)] by (simp add: conc_inv_def conc_init_def queries_def srv_init_def)
qed

lemma srv_run_sim:
  assumes "codec_ok (ev_codec E)" and "honest f" and "startup E c cfg dk ce clk net f = Ret (Inr (S, w, rdy, lg))"
    and "srv_run S G gctx readyCtx (srv_init w g dk rdy) (y # ys)"
  shows "srv_good S (seen (y # ys)) rdy (ft_fs w) y"
    and "(conc_step (sc_deps S) G (srv_lists S (seen (y # ys))))\<^sup>*\<^sup>* (conc_init (ft_st w) g) (queries y)"
    and "srv_lists S (seen (y # ys)) = lists (ev_codec E) (seen (y # ys)) (configured cfg)"
  using sim_srv.runs [OF run_seen_steps [OF assms(4) order.refl]
      startup_good(1) [OF assms(1-3) run_from [OF assms(4)]]]
    startup_good(2,4) [OF assms(1-3) run_from [OF assms(4)]]
  by (simp_all add: queries_def srv_init_def conc_init_def)

lemma srv_run_inv:
  assumes "codec_ok (ev_codec E)" and "honest f" and "startup E c cfg dk ce clk net f = Ret (Inr (S, w, rdy, lg))"
    and "sf_ok G" and "sf_idle G g" and "srv_run S G gctx readyCtx (srv_init w g dk rdy) (y # ys)"
  shows "conc_inv (sc_deps S) G (lists (ev_codec E) (seen (y # ys)) (configured cfg))
    (max 1 (cc_Capacity (cfg_Cache cfg))) (queries y)"
proof -
  note r = srv_run_sim [OF assms(1-3,6)]
  have d: "conc_deps (sc_deps S)" using r(1) by (simp add: srv_good_def)
  have "queries (srv_init w g dk rdy) = conc_init (ft_st w) g" by (simp add: queries_def srv_init_def conc_init_def)
  then show ?thesis
    using conc_steps_inv [OF r(2) d assms(4)] startup_good(3) [OF assms(1-3) run_from [OF assms(6)] assms(5)] r(3)
    by simp
qed

text \<open>What the server may answer. A name counts as listed when a source held, at one of the moments
  \<open>V\<close>, an entry that covers it.\<close>

definition listed :: "codec \<Rightarrow> contents set \<Rightarrow> source list \<Rightarrow> string \<Rightarrow> bool" where
  "listed K V ss name \<longleftrightarrow> (\<exists>s \<in> set ss. \<exists>(dk, files) \<in> V. \<exists>es. source_content K dk files s = Some es
     \<and> (\<exists>e \<in> set es. covers e (canonicalise name)))"

definition answer_ok :: "'e deps \<Rightarrow> (string \<Rightarrow> bool) \<Rightarrow> msg \<Rightarrow> msg \<Rightarrow> bool" where
  "answer_ok d blocked req x \<longleftrightarrow> x = servfail req \<or>
     (case msg_Question req of
        [q] \<Rightarrow> (x = nxdomain req \<and> blocked (rr_Name q))
          \<or> (\<exists>r n. fwd_out d (Key q) (Ret (Some r, None))
               \<and> x = (decrementTTLs (CloneMsg r) n)\<lparr>msg_ID := msg_ID req\<rparr>)
      | _ \<Rightarrow> (\<exists>c s. fst (forward_Resolve (u_Exchange (d_Upstream d)) c req s) = Ret (Some x, None)))"

lemma read_from_listed:
  assumes "read_from K V ss m" and "Match m name"
  shows "listed K V ss name"
proof -
  from assms(1) obtain ess where l: "list_all2 (read_at K V) ss ess"
    and m: "m = NewMatcher (concat ess)" by (auto simp: read_from_def)
  from assms(2) obtain es e where e: "es \<in> set ess" "e \<in> set es" "covers (canonicalise e) (canonicalise name)"
    by (auto simp: m mt.matches_iff)
  from e(1) obtain i where i: "i < length ess" "ess ! i = es" by (auto simp: in_set_conv_nth)
  then have s: "ss ! i \<in> set ss" "read_at K V (ss ! i) es"
    using l list_all2_nthD2 [OF l i(1)] by (simp_all add: list_all2_lengthD)
  then obtain dk files where v: "(dk, files) \<in> V" "source_content K dk files (ss ! i) = Some es" by blast
  have "covers e (canonicalise name)" using e canonicalise_valid [OF source_content_valid [OF v(2) e(2)]] by simp
  with s(1) v e(2) show ?thesis unfolding listed_def by blast
qed

lemma genuine_answer_ok: "genuine d (lists K V ss) req x \<Longrightarrow> answer_ok d (listed K V ss) req x"
  using read_from_listed by (fastforce simp: genuine_def answer_ok_def split: list.splits)

section \<open>A run of the server\<close>

text \<open>Actions of one query are actions of the server, and leave the sources alone.\<close>

lemma srv_lift:
  assumes "(q_next (sc_deps S) G i q)\<^sup>*\<^sup>* (p, ft_st (sv_w y), sv_grp y) (p', s', g')"
    and "i < length (sv_qs y)" "sv_qs y ! i = (q, p)" and "srv_run S G gctx readyCtx y0 (y # ys)"
  shows "\<exists>zs. srv_run S G gctx readyCtx y0
      (y\<lparr>sv_w := (sv_w y)\<lparr>ft_st := s'\<rparr>, sv_grp := g', sv_qs := (sv_qs y)[i := (q, p')]\<rparr> # zs)
    \<and> seen (y\<lparr>sv_w := (sv_w y)\<lparr>ft_st := s'\<rparr>, sv_grp := g', sv_qs := (sv_qs y)[i := (q, p')]\<rparr> # zs) = seen (y # ys)"
  using assms(1)
proof (induction "(p', s', g')" arbitrary: p' s' g' rule: rtranclp_induct)
  case base
  have "(sv_qs y)[i := (q, p)] = sv_qs y" using assms(3) by (metis list_update_id)
  then have "y\<lparr>sv_w := (sv_w y)\<lparr>ft_st := ft_st (sv_w y)\<rparr>, sv_grp := sv_grp y, sv_qs := (sv_qs y)[i := (q, p)]\<rparr> = y"
    by simp
  then show ?case using assms(4) by metis
next
  case (step z)
  obtain p1 s1 g1 where z: "z = (p1, s1, g1)" by (metis prod_cases3)
  let ?y = "\<lambda>s g p. y\<lparr>sv_w := (sv_w y)\<lparr>ft_st := s\<rparr>, sv_grp := g, sv_qs := (sv_qs y)[i := (q, p)]\<rparr>"
  from step.hyps(3) [OF z] obtain zs where zs: "srv_run S G gctx readyCtx y0 (?y s1 g1 p1 # zs)"
    "seen (?y s1 g1 p1 # zs) = seen (y # ys)" by blast
  have "srv_step S G gctx readyCtx (?y s1 g1 p1)
      ((?y s1 g1 p1)\<lparr>sv_w := (sv_w (?y s1 g1 p1))\<lparr>ft_st := s'\<rparr>, sv_grp := g', sv_qs := (sv_qs (?y s1 g1 p1))[i := (q, p')]\<rparr>)"
    by (rule srv_query) (use step.hyps(2) assms(2) z in \<open>simp_all add: q_next_def\<close>)
  then have "srv_step S G gctx readyCtx (?y s1 g1 p1) (?y s' g' p')" by simp
  from run_more [OF zs(1) this] zs(2) show ?case
    by (intro exI [of _ "?y s1 g1 p1 # zs"]) (simp add: seen_def view_def)
qed

text \<open>The UDP listener starts, a query arrives and runs to its answer.\<close>

lemma one_query_served:
  "\<exists>m y ys. srv_run S map_sf gctx readyCtx (srv_init w map_group0 dk rdy) (y # ys)
     \<and> seen (y # ys) = {(dk, fs_files (ft_fs w))} \<and> sv_qs y = [(q, Answered m)] \<and> \<not> sv_tcp y"
proof -
  let ?y0 = "srv_init w map_group0 dk rdy"
  let ?y1 = "?y0\<lparr>sv_udp := True\<rparr>"
  let ?y2 = "?y1\<lparr>sv_qs := sv_qs ?y1 @ [(q, AtMetrics)]\<rparr>"
  obtain m s' where "ServeDNS (Build (alone (sc_deps S))) (qy_ctx q) (qy_w q) (qy_req q) (ft_st w) = (m, s')"
    by fastforce
  from lone_run [OF map_sf_ok(1) map_sf_alone(1) map_sf_alone(2) this] obtain g' where
    n: "(q_next (sc_deps S) map_sf 0 q)\<^sup>*\<^sup>* (AtMetrics, ft_st (sv_w ?y2), sv_grp ?y2) (Answered m, s', g')"
    by (auto simp: srv_init_def)
  have "srv_step S map_sf gctx readyCtx ?y0 ?y1" by (rule srv_udp)
  moreover have "srv_step S map_sf gctx readyCtx ?y1 ?y2" by (rule srv_arrive) simp
  ultimately have "srv_run S map_sf gctx readyCtx ?y0 [?y2, ?y1, ?y0]" by (blast intro: srv_run.intros)
  from srv_lift [OF n _ _ this] obtain zs where
    zs: "srv_run S map_sf gctx readyCtx ?y0
      (?y2\<lparr>sv_w := (sv_w ?y2)\<lparr>ft_st := s'\<rparr>, sv_grp := g', sv_qs := (sv_qs ?y2)[0 := (q, Answered m)]\<rparr> # zs)"
    "seen (?y2\<lparr>sv_w := (sv_w ?y2)\<lparr>ft_st := s'\<rparr>, sv_grp := g', sv_qs := (sv_qs ?y2)[0 := (q, Answered m)]\<rparr> # zs)
      = seen [?y2, ?y1, ?y0]"
    by (auto simp: srv_init_def)
  let ?y3 = "?y2\<lparr>sv_w := (sv_w ?y2)\<lparr>ft_st := s'\<rparr>, sv_grp := g', sv_qs := (sv_qs ?y2)[0 := (q, Answered m)]\<rparr>"
  have "seen [?y2, ?y1, ?y0] = {(dk, fs_files (ft_fs w))}" by (simp add: seen_def view_def srv_init_def)
  with zs show ?thesis
    by (intro exI [of _ m] exI [of _ ?y3] exI [of _ zs] conjI) (simp_all add: srv_init_def)
qed

lemma sample_codec_ok: "codec_ok (ev_codec sample_env)"
  using sample_env_ok by (simp add: env_ok_def)

lemma sample_honest: "honest (sample_fs (\<lambda>_. None))"
  by (simp add: honest_def sample_fs_def)

text \<open>A server with a local blocklist, which holds one name.\<close>

definition listed_config :: Config where
  "listed_config = sample_config\<lparr>cfg_Blocklists := (cfg_Blocklists sample_config)
     \<lparr>bl_Sources := [\<lparr>bs_Type = ''file'', bs_Name = ''l'', bs_Path = ''list'', bs_URL = []\<rparr>]\<rparr>\<rparr>"

lemma listed_startup:
  obtains S w rdy lg where
    "startup sample_env Background listed_config sample_disk no_ctx_err int () (sample_fs (\<lambda>_. None))
       = Ret (Inr (S, w, rdy, lg))"
proof -
  let ?s = "init_st int 10000 (NewMatcher [''ads.example'']) () :: unit st"
  let ?p = "NewPool True [NewUDPClient sample_lib ''192.0.2.53:53'' time_Second]"
  obtain s' where "warmupProbe sample_env Background ?p (3 * time_Second) ?s = (Ret None, s')"
    by (simp add: warmupProbe_def WithTimeout_def time_Now_def NewPool_def pool_Exchange_def attempt_def
        NewUDPClient_def udp_Exchange_def client_Exchange_def sample_lib_def sample_env_def new_Msg_def)
  then show thesis
    using that by (simp add: startup_def listed_config_def sample_config_def Default_def Loader_Load_def
        upstream_New_def bind_listeners_def sample_env_def sample_file)
qed

lemma listed_configured: "configured listed_config = [FileSource ''list'']"
  by (simp add: listed_config_def source_of_def)

lemma listed_content: "source_content K sample_disk files (FileSource ''list'') = Some [''ads.example'']"
  by (rule FileSource_complete [OF sample_file])

lemma listed_read: "read_from K {(sample_disk, files)} [FileSource ''list''] m \<longleftrightarrow> m = NewMatcher [''ads.example'']"
  by (auto simp: read_from_def list_all2_Cons1 listed_content simp del: source_content.simps)

section \<open>Properties\<close>



text \<open>C3: Every answer the server gives, in any such interleaving, is genuine: SERVFAIL; NXDOMAIN for a
  name covered by an entry that one of the configured sources held at some moment of this run; or a
  copy of what an upstream answered to the same question (the query's own exchange, the exchange of
  another query it was coalesced with, or an aged copy from the cache); a query with one question
  gets its own ID and no packed buffer.\<close>

theorem server_answers_genuine:
  assumes "codec_ok (ev_codec E)" and "honest f"
    and "startup E c cfg dk ce clk net f = Ret (Inr (S, w, rdy, lg))"
    and "sf_ok G" and "sf_idle G g" and "srv_run S G gctx readyCtx (srv_init w g dk rdy) (y # ys)"
    and "(q, Answered m) \<in> set (sv_qs y)"
  shows "\<exists>x. m = Ret x \<and> answer_ok (sc_deps S) (listed (ev_codec E) (seen (y # ys)) (configured cfg)) (qy_req q) x
    \<and> (single (qy_req q) \<longrightarrow> msg_ID x = msg_ID (qy_req q) \<and> msg_Data x = None)"
proof -
  let ?B = "lists (ev_codec E) (seen (y # ys)) (configured cfg)"
  have "q_ok (sc_deps S) ?B (qy_req q) (Answered m)"
    using srv_run_inv [OF assms(1-6)] assms(7) by (fastforce simp: conc_inv_def queries_def)
  then obtain x where x: "m = Ret x" "genuine (sc_deps S) ?B (qy_req q) x" by (auto simp: q_ok_def)
  then show ?thesis using genuine_answer_ok [OF x(2)] genuine_single by blast
qed

lemma other_canonical: "canonicalise ''a.example.'' = ''a.example''"
  by code_simp

text \<open>With the one-name blocklist a client that asks for another name is not told NXDOMAIN for it.\<close>

theorem server_answers_genuine_witness:
  "\<exists>S w rdy lg x y ys. startup sample_env Background listed_config sample_disk no_ctx_err int () (sample_fs (\<lambda>_. None))
       = Ret (Inr (S, w, rdy, lg))
     \<and> srv_run S map_sf Background Background (srv_init w map_group0 sample_disk rdy) (y # ys)
     \<and> sv_qs y = [(sample_query, Answered (Ret x))] \<and> answer_ok (sc_deps S) (\<lambda>_. False) sample_req x
     \<and> msg_ID x = msg_ID sample_req"
proof -
  obtain S w rdy lg where s: "startup sample_env Background listed_config sample_disk no_ctx_err int ()
      (sample_fs (\<lambda>_. None)) = Ret (Inr (S, w, rdy, lg))" by (rule listed_startup)
  obtain m y ys where y: "srv_run S map_sf Background Background (srv_init w map_group0 sample_disk rdy) (y # ys)"
    "seen (y # ys) = {(sample_disk, fs_files (ft_fs w))}"
    "sv_qs y = [(sample_query, Answered m)]" using one_query_served by blast
  from server_answers_genuine [OF sample_codec_ok sample_honest s map_sf_ok y(1), of sample_query m] y(3) sample_q
  obtain x where x: "m = Ret x" "msg_ID x = msg_ID sample_req"
    "answer_ok (sc_deps S) (listed (ev_codec sample_env) (seen (y # ys)) (configured listed_config)) sample_req x"
    by (auto simp: sample_query_def)
  have "\<not> listed (ev_codec sample_env) (seen (y # ys)) (configured listed_config) (rr_Name sample_rr)"
    unfolding y(2) listed_configured
    by (simp add: listed_def listed_content sample_rr_def other_canonical covers_def suffix_def Cons_eq_append_conv del: source_content.simps)
  then have "answer_ok (sc_deps S) (\<lambda>_. False) sample_req x"
    using x(3) by (simp add: answer_ok_def sample_req_def)
  with s y x show ?thesis by blast
qed

text \<open>C4: The server refines the concurrent queries: what its queries share goes, in every run from
  startup, through states that the queries alone can reach with blocklists that are, each of them, the
  union of everything the configured sources held at moments of this run; everything the other
  goroutines do in between is to the queries one of the steps outside them.\<close>

theorem server_refines_concurrent_queries:
  assumes "codec_ok (ev_codec E)" and "honest f"
    and "startup E c cfg dk ce clk net f = Ret (Inr (S, w, rdy, lg))"
    and "srv_run S G gctx readyCtx (srv_init w g dk rdy) (y # ys)"
  shows "conc_reach (sc_deps S) G {m. read_from (ev_codec E) (seen (y # ys)) (configured cfg) m} (ft_st w) g (queries y)"
  using srv_run_sim(2,3) [OF assms] by (simp add: conc_reach_def)

theorem server_refines_concurrent_queries_witness:
  "\<exists>S w rdy lg m y. startup sample_env Background listed_config sample_disk no_ctx_err int () (sample_fs (\<lambda>_. None))
       = Ret (Inr (S, w, rdy, lg))
     \<and> conc_reach (sc_deps S) map_sf {NewMatcher [''ads.example'']} (ft_st w) map_group0 (queries y)
     \<and> cn_qs (queries y) = [(sample_query, Answered m)]"
proof -
  obtain S w rdy lg where s: "startup sample_env Background listed_config sample_disk no_ctx_err int ()
      (sample_fs (\<lambda>_. None)) = Ret (Inr (S, w, rdy, lg))" by (rule listed_startup)
  obtain m y ys where y: "srv_run S map_sf Background Background (srv_init w map_group0 sample_disk rdy) (y # ys)"
    "seen (y # ys) = {(sample_disk, fs_files (ft_fs w))}"
    "sv_qs y = [(sample_query, Answered m)]" using one_query_served by blast
  from server_refines_concurrent_queries [OF sample_codec_ok sample_honest s y(1)]
  have "conc_reach (sc_deps S) map_sf {NewMatcher [''ads.example'']} (ft_st w) map_group0 (queries y)"
    unfolding y(2) listed_configured by (simp add: listed_read)
  moreover have "cn_qs (queries y) = [(sample_query, Answered m)]" using y(3) by (simp add: queries_def)
  ultimately show ?thesis using s by blast
qed

end
