(* ===== verification/Config_Load.thy ===== *)
theory Config_Load
  imports Config_Validate
begin

text \<open>
  Loading of the configuration (\<open>internal/config/load.go\<close>) and the flags of the serve command
  (\<open>newServeCmd\<close> and \<open>bindServeFlags\<close> in \<open>cmd/bns/serve.go\<close>). The configuration library is a
  parameter: an instance is the list of the calls made on it, and the library says which call fails
  and what decoding gives after them.
\<close>

section \<open>Definitions\<close>

datatype setting = SetStr string | SetInt int | SetDuration int | SetBool bool

datatype viper_call =
    SetEnvPrefix string
  | SetEnvKeyReplacer string string
  | AutomaticEnv
  | SetDefault string setting
  | BindPFlag string string
  | SetConfigFile string
  | ReadInConfig

type_synonym viper = "viper_call list"

text \<open>\<open>vl_BindPFlag\<close> is given whether the command defines the flag.\<close>

record viper_lib =
  vl_BindPFlag :: "viper \<Rightarrow> string \<Rightarrow> string option \<Rightarrow> goerror option"
  vl_ReadInConfig :: "viper \<Rightarrow> goerror option"
  vl_Unmarshal :: "viper \<Rightarrow> Config \<Rightarrow> goerror + Config"

definition bindDefaults :: "Config \<Rightarrow> viper" where
  "bindDefaults d =
     [SetDefault ''listen.udp'' (SetStr (li_UDP (cfg_Listen d))),
      SetDefault ''listen.tcp'' (SetStr (li_TCP (cfg_Listen d))),
      SetDefault ''listen.query_timeout'' (SetDuration (li_QueryTimeout (cfg_Listen d))),
      SetDefault ''cache.capacity'' (SetInt (cc_Capacity (cfg_Cache d))),
      SetDefault ''cache.min_ttl'' (SetDuration (cc_MinTTL (cfg_Cache d))),
      SetDefault ''cache.max_ttl'' (SetDuration (cc_MaxTTL (cfg_Cache d))),
      SetDefault ''cache.negative_ttl_max'' (SetDuration (cc_NegativeTTLMax (cfg_Cache d))),
      SetDefault ''admin.listen'' (SetStr (ad_Listen (cfg_Admin d))),
      SetDefault ''logging.level'' (SetStr (lg_Level (cfg_Logging d))),
      SetDefault ''logging.format'' (SetStr (lg_Format (cfg_Logging d))),
      SetDefault ''logging.query_log.enabled'' (SetBool (lg_QueryLog (cfg_Logging d))),
      SetDefault ''shutdown_timeout'' (SetDuration (cfg_ShutdownTimeout d)),
      SetDefault ''startup_probe_timeout'' (SetDuration (cfg_StartupProbeTimeout d))]"

record LoadOptions =
  lo_ConfigPath :: string
  lo_FlagBinder :: "(viper \<Rightarrow> goerror option \<times> viper) option"

text \<open>The result of \<open>Load\<close> and the calls it made on the library.\<close>

definition Load :: "viper_lib \<Rightarrow> parse_url \<Rightarrow> LoadOptions \<Rightarrow> (goerror + Config) \<times> viper" where
  "Load V P opts =
     (let v = [SetEnvPrefix ''BNS'', SetEnvKeyReplacer ''.'' ''__'', AutomaticEnv] @ bindDefaults Default in
      case (case lo_FlagBinder opts of None \<Rightarrow> (None, v) | Some binder \<Rightarrow> binder v) of
        (Some e, v) \<Rightarrow> (Inl (ErrWrap ''bind flags'' e), v)
      | (None, v) \<Rightarrow>
          (case (if lo_ConfigPath opts \<noteq> [] then
                   (let v = v @ [SetConfigFile (lo_ConfigPath opts)] in (vl_ReadInConfig V v, v @ [ReadInConfig]))
                 else (None, v)) of
             (Some e, v) \<Rightarrow> (Inl (ErrWrap ''read config'' e), v)
           | (None, v) \<Rightarrow>
               (case vl_Unmarshal V v Default of
                  Inl e \<Rightarrow> (Inl (ErrWrap ''decode config'' e), v)
                | Inr cfg \<Rightarrow>
                    (case Validate P cfg of
                       Some e \<Rightarrow> (Inl (ErrWrap ''validate config'' e), v)
                     | None \<Rightarrow> (Inr cfg, v)))))"

section \<open>The flags of the serve command\<close>

text \<open>The kind of a flag with its default. The shorthand is empty for a flag without one.\<close>

datatype flag_kind = FlagString string | FlagInt int | FlagBool bool | FlagDuration int

record flag_def =
  fd_Name :: string
  fd_Shorthand :: string
  fd_Kind :: flag_kind

definition serve_flag_defs :: "flag_def list" where
  "serve_flag_defs =
     [\<lparr>fd_Name = ''config'', fd_Shorthand = ''c'', fd_Kind = FlagString []\<rparr>,
      \<lparr>fd_Name = ''listen.udp'', fd_Shorthand = [], fd_Kind = FlagString []\<rparr>,
      \<lparr>fd_Name = ''listen.tcp'', fd_Shorthand = [], fd_Kind = FlagString []\<rparr>,
      \<lparr>fd_Name = ''listen.query-timeout'', fd_Shorthand = [], fd_Kind = FlagDuration 0\<rparr>,
      \<lparr>fd_Name = ''cache.capacity'', fd_Shorthand = [], fd_Kind = FlagInt 0\<rparr>,
      \<lparr>fd_Name = ''cache.min-ttl'', fd_Shorthand = [], fd_Kind = FlagDuration 0\<rparr>,
      \<lparr>fd_Name = ''cache.max-ttl'', fd_Shorthand = [], fd_Kind = FlagDuration 0\<rparr>,
      \<lparr>fd_Name = ''cache.negative-ttl-max'', fd_Shorthand = [], fd_Kind = FlagDuration 0\<rparr>,
      \<lparr>fd_Name = ''admin.listen'', fd_Shorthand = [], fd_Kind = FlagString []\<rparr>,
      \<lparr>fd_Name = ''pprof'', fd_Shorthand = [], fd_Kind = FlagBool False\<rparr>,
      \<lparr>fd_Name = ''logging.level'', fd_Shorthand = [], fd_Kind = FlagString []\<rparr>,
      \<lparr>fd_Name = ''logging.format'', fd_Shorthand = [], fd_Kind = FlagString []\<rparr>,
      \<lparr>fd_Name = ''logging.query-log'', fd_Shorthand = [], fd_Kind = FlagBool False\<rparr>,
      \<lparr>fd_Name = ''shutdown-timeout'', fd_Shorthand = [], fd_Kind = FlagDuration 0\<rparr>,
      \<lparr>fd_Name = ''startup-probe-timeout'', fd_Shorthand = [], fd_Kind = FlagDuration 0\<rparr>]"

abbreviation serve_flags :: "string list" where
  "serve_flags \<equiv> map fd_Name serve_flag_defs"

definition flag_binds :: "(string \<times> string) list" where
  "flag_binds =
     [(''listen.udp'', ''listen.udp''), (''listen.tcp'', ''listen.tcp''),
      (''listen.query_timeout'', ''listen.query-timeout''), (''cache.capacity'', ''cache.capacity''),
      (''cache.min_ttl'', ''cache.min-ttl''), (''cache.max_ttl'', ''cache.max-ttl''),
      (''cache.negative_ttl_max'', ''cache.negative-ttl-max''), (''admin.listen'', ''admin.listen''),
      (''admin.pprof'', ''pprof''), (''logging.level'', ''logging.level''), (''logging.format'', ''logging.format''),
      (''logging.query_log.enabled'', ''logging.query-log''), (''shutdown_timeout'', ''shutdown-timeout''),
      (''startup_probe_timeout'', ''startup-probe-timeout'')]"

text \<open>\<open>c.Flag(name)\<close> is nil for a flag the command does not define.\<close>

definition lookup_flag :: "string \<Rightarrow> string option" where
  "lookup_flag name = (if name \<in> set serve_flags then Some name else None)"

fun bind_loop :: "viper_lib \<Rightarrow> (string \<times> string) list \<Rightarrow> viper \<Rightarrow> goerror option \<times> viper" where
  "bind_loop V [] v = (None, v)"
| "bind_loop V ((viperKey, flagName) # bs) v =
     (case vl_BindPFlag V v viperKey (lookup_flag flagName) of
        Some e \<Rightarrow> (Some e, v)
      | None \<Rightarrow> bind_loop V bs (v @ [BindPFlag viperKey flagName]))"

definition bindServeFlags :: "viper_lib \<Rightarrow> viper \<Rightarrow> goerror option \<times> viper" where
  "bindServeFlags V v = bind_loop V flag_binds v"

definition serve_options :: "viper_lib \<Rightarrow> string \<Rightarrow> LoadOptions" where
  "serve_options V cfgPath = \<lparr>lo_ConfigPath = cfgPath, lo_FlagBinder = Some (bindServeFlags V)\<rparr>"

section \<open>Lemmas\<close>

text \<open>Binding a flag fails only for a flag the command does not define.\<close>

definition binds_defined :: "viper_lib \<Rightarrow> bool" where
  "binds_defined V \<longleftrightarrow> (\<forall>v k f. vl_BindPFlag V v k (Some f) = None)"

lemma flags_defined: "snd ` set flag_binds \<subseteq> set serve_flags"
  by (simp add: flag_binds_def serve_flag_defs_def)

lemma bind_loop_ok:
  assumes "binds_defined V" "snd ` set bs \<subseteq> set serve_flags"
  shows "bind_loop V bs v = (None, v @ map (\<lambda>(k, f). BindPFlag k f) bs)"
  using assms(2)
  by (induction bs arbitrary: v) (use assms(1) in \<open>auto simp: lookup_flag_def binds_defined_def\<close>)

text \<open>The calls before the file is read, in order: environment, defaults, flags.\<close>

definition base_calls :: viper where
  "base_calls = ([SetEnvPrefix ''BNS'', SetEnvKeyReplacer ''.'' ''__'', AutomaticEnv] @ bindDefaults Default)
     @ map (\<lambda>(k, f). BindPFlag k f) flag_binds"

text \<open>What a load ends with once the calls are made.\<close>

definition decode :: "viper_lib \<Rightarrow> parse_url \<Rightarrow> viper \<Rightarrow> (goerror + Config) \<times> viper" where
  "decode V P v =
     (case vl_Unmarshal V v Default of
        Inl e \<Rightarrow> (Inl (ErrWrap ''decode config'' e), v)
      | Inr cfg \<Rightarrow>
          (case Validate P cfg of Some e \<Rightarrow> (Inl (ErrWrap ''validate config'' e), v) | None \<Rightarrow> (Inr cfg, v)))"

text \<open>The serve command binds its flags without error and reads the file last, so that the
  library's precedence decides between them.\<close>

lemma Load_serve:
  assumes "binds_defined V"
  shows "Load V P (serve_options V path) =
    (if path = [] then decode V P base_calls
     else let v = base_calls @ [SetConfigFile path] in
       case vl_ReadInConfig V v of
         Some e \<Rightarrow> (Inl (ErrWrap ''read config'' e), v @ [ReadInConfig])
       | None \<Rightarrow> decode V P (v @ [ReadInConfig]))"
proof -
  have "bindServeFlags V ([SetEnvPrefix ''BNS'', SetEnvKeyReplacer ''.'' ''__'', AutomaticEnv] @ bindDefaults Default)
      = (None, base_calls)"
    unfolding bindServeFlags_def base_calls_def by (rule bind_loop_ok [OF assms flags_defined])
  then show ?thesis
    unfolding Load_def serve_options_def Let_def by (simp only: LoadOptions.simps option.case prod.case decode_def) (auto split: option.split sum.split)
qed

lemma Load_validated:
  assumes "Load V P opts = (Inr cfg, v)"
  shows "Validate P cfg = None"
  using assms unfolding Load_def Let_def
  by (simp split: option.splits prod.splits sum.splits del: append.simps)

text \<open>The keys the library learns about before it reads the file. It looks for a variable of the
  environment only for a key it knows.\<close>

fun call_key :: "viper_call \<Rightarrow> string option" where
  "call_key (SetDefault k x) = Some k"
| "call_key (BindPFlag k f) = Some k"
| "call_key _ = None"

lemma blocklist_keys_unknown: "\<forall>k. Some k \<in> call_key ` set base_calls \<longrightarrow> \<not> prefix ''blocklists.'' k"
  by (auto simp: base_calls_def bindDefaults_def flag_binds_def)

end
