(* ===== verification/Serve_Lifecycle.thy ===== *)
theory Serve_Lifecycle
  imports Serve
begin

text \<open>
  The life of the goroutines that \<open>runServe\<close> (\<open>cmd/bns/serve.go\<close>) starts in its error
  group: the two DNS listeners under \<open>server.Serve\<close>, the goroutine that waits for \<open>Ready\<close>,
  the admin server, the fetcher, the SIGHUP loop and the goroutine that shuts the servers down. The
  group's context is done once the process is signalled or a goroutine has returned an error; the
  process returns when all goroutines have. The listeners of the DNS library and the HTTP server may
  fail at any time. Whether a DNS listener remembers a \<open>Shutdown\<close> that comes before it has
  started is the parameter \<open>early\<close>; an HTTP server is documented to do so.
\<close>

section \<open>State\<close>

datatype listener = LsInit | LsUp | LsDown

datatype shut = ShutWait | ShutAdmin | ShutUDP | ShutTCP | ShutDone

text \<open>A flag of a running goroutine is true until it returns. \<open>lf_lresults\<close> holds the results of
  the two \<open>ListenAndServe\<close> calls and \<open>lf_results\<close> those of the goroutines of the group,
  both in the order of the returns.\<close>

record life =
  lf_signal :: bool
  lf_udp :: listener
  lf_tcp :: listener
  lf_udpReady :: bool
  lf_tcpReady :: bool
  lf_udpTold :: bool
  lf_tcpTold :: bool
  lf_adminTold :: bool
  lf_lresults :: "goerror option list"
  lf_serve :: bool
  lf_wait :: wait
  lf_rdy :: bool
  lf_admin :: bool
  lf_fetch :: bool
  lf_hup :: bool
  lf_shut :: shut
  lf_results :: "goerror option list"

definition life_init :: life where
  "life_init = \<lparr>lf_signal = False, lf_udp = LsInit, lf_tcp = LsInit, lf_udpReady = False,
     lf_tcpReady = False, lf_udpTold = False, lf_tcpTold = False, lf_adminTold = False,
     lf_lresults = [], lf_serve = True, lf_wait = WaitUDP, lf_rdy = False, lf_admin = True,
     lf_fetch = True, lf_hup = True, lf_shut = ShutWait, lf_results = []\<rparr>"

text \<open>\<open>gctx.Done()\<close>, a goroutine of the group that returns, and the end of \<open>g.Wait\<close>.\<close>

definition gctx_done :: "life \<Rightarrow> bool" where
  "gctx_done y \<longleftrightarrow> lf_signal y \<or> group_Wait (lf_results y) \<noteq> None"

definition ret :: "goerror option \<Rightarrow> life \<Rightarrow> life" where
  "ret r y = y\<lparr>lf_results := lf_results y @ [r]\<rparr>"

definition life_done :: "life \<Rightarrow> bool" where
  "life_done y \<longleftrightarrow> \<not> lf_serve y \<and> (\<exists>r. lf_wait y = Returned r) \<and> \<not> lf_admin y \<and> \<not> lf_fetch y
     \<and> \<not> lf_hup y \<and> lf_shut y = ShutDone"

section \<open>Steps\<close>

text \<open>\<open>ListenAndServe\<close> started (\<open>NotifyStartedFunc\<close> closes the channel) or returned.\<close>

definition udp_started :: "life \<Rightarrow> life" where
  "udp_started y = y\<lparr>lf_udp := LsUp, lf_udpReady := True\<rparr>"

definition tcp_started :: "life \<Rightarrow> life" where
  "tcp_started y = y\<lparr>lf_tcp := LsUp, lf_tcpReady := True\<rparr>"

definition udp_ended :: "goerror option \<Rightarrow> life \<Rightarrow> life" where
  "udp_ended r y = y\<lparr>lf_udp := LsDown, lf_lresults := lf_lresults y @ [r]\<rparr>"

definition tcp_ended :: "goerror option \<Rightarrow> life \<Rightarrow> life" where
  "tcp_ended r y = y\<lparr>lf_tcp := LsDown, lf_lresults := lf_lresults y @ [r]\<rparr>"

text \<open>The two calls of \<open>Server.Shutdown\<close>, in order.\<close>

definition udp_Shutdown :: "bool \<Rightarrow> life \<Rightarrow> life" where
  "udp_Shutdown early y = y\<lparr>lf_shut := ShutUDP, lf_udpTold := early \<or> lf_udp y \<noteq> LsInit\<rparr>"

definition tcp_Shutdown :: "bool \<Rightarrow> life \<Rightarrow> life" where
  "tcp_Shutdown early y = y\<lparr>lf_shut := ShutTCP, lf_tcpTold := early \<or> lf_tcp y \<noteq> LsInit\<rparr>"

definition admin_Shutdown :: "life \<Rightarrow> life" where
  "admin_Shutdown y = y\<lparr>lf_shut := ShutAdmin, lf_adminTold := True\<rparr>"

text \<open>What the goroutine of the admin server makes of the error of \<open>Serve\<close>, which is never nil.\<close>

definition admin_return :: "goerror \<Rightarrow> goerror option" where
  "admin_return e = (if \<not> errors_Is e ErrServerClosed then Some e else None)"

definition not_ready :: "sentinel \<Rightarrow> goerror" where
  "not_ready e = ErrWrap ''dns listeners not ready'' (ErrSentinel e)"

text \<open>The exit status that \<open>main\<close> of \<open>bns\<close> gives to the result of the command.\<close>

definition bns_exit :: "goerror option \<Rightarrow> int" where
  "bns_exit err = (if err \<noteq> None then 1 else 0)"

datatype event = Signal | Fault goerror | Step

inductive life_step :: "bool \<Rightarrow> event \<Rightarrow> life \<Rightarrow> life \<Rightarrow> bool" for early :: bool where
  life_signal: "\<not> lf_signal y \<Longrightarrow> life_step early Signal y (y\<lparr>lf_signal := True\<rparr>)"
| life_udp_up: "lf_udp y = LsInit \<Longrightarrow> \<not> lf_udpTold y \<Longrightarrow> life_step early Step y (udp_started y)"
| life_tcp_up: "lf_tcp y = LsInit \<Longrightarrow> \<not> lf_tcpTold y \<Longrightarrow> life_step early Step y (tcp_started y)"
| life_udp_down: "lf_udp y \<noteq> LsDown \<Longrightarrow> lf_udpTold y \<Longrightarrow> r \<in> {None, Some (ErrSentinel ErrClosed)} \<Longrightarrow>
    life_step early Step y (udp_ended r y)"
| life_tcp_down: "lf_tcp y \<noteq> LsDown \<Longrightarrow> lf_tcpTold y \<Longrightarrow> r \<in> {None, Some (ErrSentinel ErrClosed)} \<Longrightarrow>
    life_step early Step y (tcp_ended r y)"
| life_udp_fail: "lf_udp y \<noteq> LsDown \<Longrightarrow> life_step early (Fault e) y (udp_ended (Some e) y)"
| life_tcp_fail: "lf_tcp y \<noteq> LsDown \<Longrightarrow> life_step early (Fault e) y (tcp_ended (Some e) y)"
| life_serve: "lf_serve y \<Longrightarrow> lf_udp y = LsDown \<Longrightarrow> lf_tcp y = LsDown \<Longrightarrow>
    life_step early Step y (ret (server_Serve (lf_lresults y)) (y\<lparr>lf_serve := False\<rparr>))"
| life_wait_udp: "lf_wait y = WaitUDP \<Longrightarrow> lf_udpReady y \<Longrightarrow> life_step early Step y (y\<lparr>lf_wait := WaitTCP\<rparr>)"
| life_wait_tcp: "lf_wait y = WaitTCP \<Longrightarrow> lf_tcpReady y \<Longrightarrow>
    life_step early Step y (ret None (y\<lparr>lf_wait := Returned None, lf_rdy := True\<rparr>))"
| life_wait_cancel: "lf_wait y \<in> {WaitUDP, WaitTCP} \<Longrightarrow> gctx_done y \<Longrightarrow>
    life_step early Step y (ret (Some (not_ready Canceled)) (y\<lparr>lf_wait := Returned (Some (not_ready Canceled))\<rparr>))"
| life_wait_late: "lf_wait y \<in> {WaitUDP, WaitTCP} \<Longrightarrow>
    life_step early (Fault (not_ready DeadlineExceeded)) y
      (ret (Some (not_ready DeadlineExceeded)) (y\<lparr>lf_wait := Returned (Some (not_ready DeadlineExceeded))\<rparr>))"
| life_admin_down: "lf_admin y \<Longrightarrow> lf_adminTold y \<Longrightarrow>
    life_step early Step y (ret (admin_return (ErrSentinel ErrServerClosed)) (y\<lparr>lf_admin := False\<rparr>))"
| life_admin_fail: "lf_admin y \<Longrightarrow> life_step early (Fault e) y (ret (admin_return e) (y\<lparr>lf_admin := False\<rparr>))"
| life_fetch_end: "lf_fetch y \<Longrightarrow> gctx_done y \<Longrightarrow> life_step early Step y (ret None (y\<lparr>lf_fetch := False\<rparr>))"
| life_hup_end: "lf_hup y \<Longrightarrow> gctx_done y \<Longrightarrow> life_step early Step y (ret None (y\<lparr>lf_hup := False\<rparr>))"
| life_shut_admin: "lf_shut y = ShutWait \<Longrightarrow> gctx_done y \<Longrightarrow> life_step early Step y (admin_Shutdown y)"
| life_shut_udp: "lf_shut y = ShutAdmin \<Longrightarrow> life_step early Step y (udp_Shutdown early y)"
| life_shut_tcp: "lf_shut y = ShutUDP \<Longrightarrow> life_step early Step y (tcp_Shutdown early y)"
| life_shut_end: "lf_shut y = ShutTCP \<Longrightarrow> life_step early Step y (ret None (y\<lparr>lf_shut := ShutDone\<rparr>))"

inductive life_run :: "bool \<Rightarrow> event list \<Rightarrow> life \<Rightarrow> life \<Rightarrow> bool" for early :: bool where
  life_nil: "life_run early [] y y"
| life_snoc: "life_run early es y y' \<Longrightarrow> life_step early ev y' y'' \<Longrightarrow> life_run early (es @ [ev]) y y''"

lemmas life_defs = udp_started_def tcp_started_def udp_ended_def tcp_ended_def udp_Shutdown_def
  tcp_Shutdown_def admin_Shutdown_def ret_def

lemma life_run_append: "life_run early es' y' y'' \<Longrightarrow> life_run early es y y' \<Longrightarrow> life_run early (es @ es') y y''"
proof (induction rule: life_run.induct)
  case (life_snoc es' y' z ev z')
  then show ?case using life_run.life_snoc by (metis append_assoc)
qed simp

section \<open>Every run is finite\<close>

fun listener_rank :: "listener \<Rightarrow> nat" where
  "listener_rank LsInit = 2" | "listener_rank LsUp = 1" | "listener_rank LsDown = 0"

fun wait_rank :: "wait \<Rightarrow> nat" where
  "wait_rank WaitUDP = 2" | "wait_rank WaitTCP = 1" | "wait_rank (Returned _) = 0"

fun shut_rank :: "shut \<Rightarrow> nat" where
  "shut_rank ShutWait = 4" | "shut_rank ShutAdmin = 3" | "shut_rank ShutUDP = 2" | "shut_rank ShutTCP = 1"
| "shut_rank ShutDone = 0"

definition life_rank :: "life \<Rightarrow> nat" where
  "life_rank y = of_bool (\<not> lf_signal y) + listener_rank (lf_udp y) + listener_rank (lf_tcp y)
     + of_bool (lf_serve y) + wait_rank (lf_wait y) + of_bool (lf_admin y) + of_bool (lf_fetch y)
     + of_bool (lf_hup y) + shut_rank (lf_shut y)"

lemma listener_rank_pos: "l \<noteq> LsDown \<Longrightarrow> 0 < listener_rank l"
  by (cases l) simp_all

lemma life_step_rank: "life_step early ev y y' \<Longrightarrow> life_rank y' < life_rank y"
  by (cases rule: life_step.cases, assumption)
    (auto simp: life_rank_def life_defs dest: listener_rank_pos)

lemma life_run_rank: "life_run early es y y' \<Longrightarrow> length es + life_rank y' \<le> life_rank y"
  by (induction rule: life_run.induct) (auto dest: life_step_rank)

section \<open>What the goroutines keep\<close>

text \<open>Once done, the group's context stays done.\<close>

lemma gctx_done_ret [simp]: "gctx_done (ret r y) \<longleftrightarrow> gctx_done y \<or> r \<noteq> None"
  by (auto simp: gctx_done_def ret_def group_Wait_def first_error_append split: option.splits)

lemma gctx_done_frame [simp]:
  "gctx_done (udp_started y) = gctx_done y" "gctx_done (tcp_started y) = gctx_done y"
  "gctx_done (udp_ended r y) = gctx_done y" "gctx_done (tcp_ended r y) = gctx_done y"
  "gctx_done (udp_Shutdown early y) = gctx_done y" "gctx_done (tcp_Shutdown early y) = gctx_done y"
  "gctx_done (admin_Shutdown y) = gctx_done y" "gctx_done (y\<lparr>lf_serve := b\<rparr>) = gctx_done y"
  "gctx_done (y\<lparr>lf_wait := w\<rparr>) = gctx_done y" "gctx_done (y\<lparr>lf_wait := w, lf_rdy := b\<rparr>) = gctx_done y"
  "gctx_done (y\<lparr>lf_admin := b\<rparr>) = gctx_done y" "gctx_done (y\<lparr>lf_fetch := b\<rparr>) = gctx_done y"
  "gctx_done (y\<lparr>lf_hup := b\<rparr>) = gctx_done y" "gctx_done (y\<lparr>lf_shut := sh\<rparr>) = gctx_done y"
  "gctx_done (y\<lparr>lf_signal := True\<rparr>)"
  by (simp_all add: gctx_done_def life_defs)

lemma gctx_done_mono: "life_step early ev y y' \<Longrightarrow> gctx_done y \<Longrightarrow> gctx_done y'"
  by (cases rule: life_step.cases, assumption) simp_all

text \<open>The shutdown goroutine acts only after the context is done, and in order.\<close>

definition life_inv :: "life \<Rightarrow> bool" where
  "life_inv y \<longleftrightarrow> (lf_adminTold y \<longleftrightarrow> lf_shut y \<noteq> ShutWait)
     \<and> (lf_udpTold y \<longrightarrow> lf_shut y \<in> {ShutUDP, ShutTCP, ShutDone})
     \<and> (lf_tcpTold y \<longrightarrow> lf_shut y \<in> {ShutTCP, ShutDone})
     \<and> (lf_shut y \<noteq> ShutWait \<longrightarrow> gctx_done y)
     \<and> (lf_wait y = WaitTCP \<longrightarrow> lf_udpReady y) \<and> (lf_rdy y \<longrightarrow> lf_udpReady y \<and> lf_tcpReady y)"

text \<open>No call of \<open>Shutdown\<close> gets lost.\<close>

definition heard :: "bool \<Rightarrow> life \<Rightarrow> bool" where
  "heard early y \<longleftrightarrow> (early \<or> (lf_udp y \<noteq> LsInit \<and> lf_tcp y \<noteq> LsInit))
     \<and> (lf_shut y \<in> {ShutUDP, ShutTCP, ShutDone} \<longrightarrow> lf_udpTold y)
     \<and> (lf_shut y \<in> {ShutTCP, ShutDone} \<longrightarrow> lf_tcpTold y)"

lemma life_init_inv: "life_inv life_init" "heard True life_init"
  by (simp_all add: life_inv_def heard_def life_init_def)

lemma life_step_inv: "life_step early ev y y' \<Longrightarrow> life_inv y \<Longrightarrow> life_inv y'"
  by (cases rule: life_step.cases, assumption) (simp_all add: life_inv_def, simp_all add: life_defs, blast?)

lemma life_step_heard: "life_step early ev y y' \<Longrightarrow> heard early y \<Longrightarrow> heard early y'"
  by (cases rule: life_step.cases, assumption) (auto simp: heard_def life_defs)

lemma life_run_inv: "life_run early es y y' \<Longrightarrow> life_inv y \<Longrightarrow> life_inv y'"
  by (induction rule: life_run.induct) (auto intro: life_step_inv)

lemma life_run_heard: "life_run early es y y' \<Longrightarrow> heard early y \<Longrightarrow> heard early y'"
  by (induction rule: life_run.induct) (auto intro: life_step_heard)

lemma life_run_done: "life_run early es y y' \<Longrightarrow> gctx_done y \<Longrightarrow> gctx_done y'"
  by (induction rule: life_run.induct) (auto intro: gctx_done_mono)

text \<open>When the goroutines can make no further step of their own, all have returned.\<close>

lemma stuck_is_done:
  assumes inv: "life_inv y" and h: "heard early y" and d: "gctx_done y"
    and stuck: "\<nexists>y'. life_step early Step y y'"
  shows "life_done y"
proof -
  have "lf_shut y = ShutDone"
    using stuck d life_shut_admin life_shut_udp life_shut_tcp life_shut_end by (metis shut.exhaust)
  moreover from this have "lf_udpTold y" "lf_tcpTold y" "lf_adminTold y"
    using h inv by (auto simp: heard_def life_inv_def)
  moreover from this have "lf_udp y = LsDown" "lf_tcp y = LsDown" "\<not> lf_admin y"
    using stuck life_udp_down [of y None] life_tcp_down [of y None] life_admin_down by blast+
  moreover from this have "\<not> lf_serve y" using stuck life_serve by blast
  moreover have "\<not> lf_fetch y" "\<not> lf_hup y" using stuck d life_fetch_end life_hup_end by blast+
  moreover have "lf_wait y \<notin> {WaitUDP, WaitTCP}" using stuck d life_wait_cancel by blast
  ultimately show ?thesis by (cases "lf_wait y") (auto simp: life_done_def)
qed

section \<open>Results\<close>

text \<open>Every error that is not a cancellation was caused by a fault.\<close>

definition blamed :: "event list \<Rightarrow> life \<Rightarrow> bool" where
  "blamed es y \<longleftrightarrow> (\<forall>e. Some e \<in> set (lf_lresults y) \<longrightarrow> errors_Is e ErrClosed \<or> Fault e \<in> set es)
     \<and> (\<forall>e. Some e \<in> set (lf_results y) \<longrightarrow> errors_Is e Canceled \<or> Fault e \<in> set es)"

lemma first_error_mem: "first_error xs = Some e \<Longrightarrow> Some e \<in> set xs"
  by (induction xs rule: first_error.induct) auto

lemma server_Serve_mem:
  assumes "server_Serve rs = Some e"
  shows "Some e \<in> set rs \<and> \<not> errors_Is e ErrClosed"
proof -
  have "Some e \<in> ignoreClosed ` set rs"
    using first_error_mem [of "map ignoreClosed rs" e] assms by (simp add: server_Serve_def group_Wait_def)
  then show ?thesis by (auto simp: ignoreClosed_def split: option.splits if_splits)
qed

lemma life_step_blamed:
  assumes st: "life_step early ev y y'" and b: "blamed es y"
  shows "blamed (es @ [ev]) y'"
  using st
proof (cases rule: life_step.cases)
  case life_serve
  have "errors_Is e Canceled \<or> Fault e \<in> set es" if "server_Serve (lf_lresults y) = Some e" for e
    using server_Serve_mem [OF that] b by (auto simp: blamed_def)
  then show ?thesis using b life_serve by (fastforce simp: blamed_def life_defs)
qed (use b in \<open>auto simp: blamed_def life_defs not_ready_def admin_return_def\<close>)

lemma life_run_blamed: "life_run early es y y' \<Longrightarrow> blamed [] y \<Longrightarrow> blamed es y'"
  by (induction rule: life_run.induct) (auto intro: life_step_blamed)

lemma runServe_blame:
  assumes "life_run early es life_init y" and "runServe_result (lf_results y) = Some e"
  shows "Fault e \<in> set es"
proof -
  have "blamed es y" by (rule life_run_blamed [OF assms(1)]) (simp add: blamed_def life_init_def)
  moreover have "Some e \<in> set (lf_results y)" "\<not> errors_Is e Canceled"
    using assms(2) first_error_mem [of "lf_results y" e]
    by (auto simp: runServe_result_def group_Wait_def split: option.splits if_splits)
  ultimately show ?thesis by (auto simp: blamed_def)
qed

section \<open>A listener that fails\<close>

text \<open>While the context is not done, nothing but a fault or a signal ends the TCP listener.\<close>

definition half_dead :: "life \<Rightarrow> bool" where
  "half_dead y \<longleftrightarrow> life_inv y \<and> \<not> gctx_done y \<and> lf_udp y = LsDown \<and> lf_tcp y = LsUp \<and> lf_serve y"

lemma half_dead_step:
  assumes st: "life_step early Step y y'" and h: "half_dead y"
  shows "half_dead y' \<and> (lf_rdy y \<longrightarrow> lf_rdy y')"
proof -
  have inv: "life_inv y" and d: "\<not> gctx_done y" and up: "lf_udp y = LsDown" "lf_tcp y = LsUp" "lf_serve y"
    using h by (simp_all add: half_dead_def)
  have w: "lf_shut y = ShutWait" "\<not> lf_adminTold y" "\<not> lf_tcpTold y" using inv d by (auto simp: life_inv_def)
  have "\<not> gctx_done y' \<and> lf_udp y' = LsDown \<and> lf_tcp y' = LsUp \<and> lf_serve y' \<and> (lf_rdy y \<longrightarrow> lf_rdy y')"
    using st by (cases rule: life_step.cases) (use d up w in \<open>simp_all, simp_all add: ret_def\<close>)
  then show ?thesis using life_step_inv [OF st inv] by (simp add: half_dead_def)
qed

lemma half_dead_run:
  assumes "life_run early es y y'" and "set es \<subseteq> {Step}" and "half_dead y"
  shows "half_dead y' \<and> (lf_rdy y \<longrightarrow> lf_rdy y')"
  using assms
proof (induction rule: life_run.induct)
  case (life_snoc es y y' ev y'')
  then show ?case using half_dead_step [of early y' y''] by auto
qed simp

section \<open>Sample runs\<close>

definition both_up :: life where
  "both_up = tcp_started (udp_started life_init)"

definition serving :: life where
  "serving = ret None (both_up\<lparr>lf_wait := Returned None, lf_rdy := True\<rparr>)"

lemma life_cons: "life_step early ev y y' \<Longrightarrow> life_run early es y' y'' \<Longrightarrow> life_run early (ev # es) y y''"
  using life_run_append [of early es y' y'' "[ev]" y] life_snoc [OF life_nil, of early ev y y'] by simp

lemma serving_run: "life_run early [Step, Step, Step, Step] life_init serving"
proof -
  let ?w = "both_up\<lparr>lf_wait := WaitTCP\<rparr>"
  have "life_step early Step life_init (udp_started life_init)"
    by (rule life_udp_up) (simp_all add: life_init_def)
  moreover have "life_step early Step (udp_started life_init) both_up"
    unfolding both_up_def by (rule life_tcp_up) (simp_all add: life_init_def life_defs)
  moreover have "life_step early Step both_up ?w"
    by (rule life_wait_udp) (simp_all add: both_up_def life_init_def life_defs)
  moreover have "life_step early Step ?w (ret None (?w\<lparr>lf_wait := Returned None, lf_rdy := True\<rparr>))"
    by (rule life_wait_tcp) (simp_all add: both_up_def life_init_def life_defs)
  moreover have "ret None (?w\<lparr>lf_wait := Returned None, lf_rdy := True\<rparr>) = serving"
    by (simp add: serving_def)
  ultimately show ?thesis by (metis life_cons life_nil)
qed

text \<open>From every state some run of the goroutines leads to a state where they can do nothing more.\<close>

lemma life_settles:
  "\<exists>es y'. life_run early es y y' \<and> set es \<subseteq> {Step} \<and> (\<nexists>y''. life_step early Step y' y'')"
proof (induction "life_rank y" arbitrary: y rule: less_induct)
  case less
  show ?case
  proof (cases "\<exists>z. life_step early Step y z")
    case True
    then obtain z where z: "life_step early Step y z" ..
    from less [OF life_step_rank [OF z]] obtain es y' where "life_run early es z y'" "set es \<subseteq> {Step}"
      "\<nexists>y''. life_step early Step y' y''" by blast
    then show ?thesis using life_cons [OF z] by (metis insert_subset list.simps(15) singletonI)
  next
    case False
    then show ?thesis using life_nil by (metis empty_subsetI list.set(1))
  qed
qed

lemma serving_eval:
  "serving = \<lparr>lf_signal = False, lf_udp = LsUp, lf_tcp = LsUp, lf_udpReady = True, lf_tcpReady = True,
     lf_udpTold = False, lf_tcpTold = False, lf_adminTold = False, lf_lresults = [], lf_serve = True,
     lf_wait = Returned None, lf_rdy = True, lf_admin = True, lf_fetch = True, lf_hup = True,
     lf_shut = ShutWait, lf_results = [None]\<rparr>"
  by (simp add: serving_def both_up_def life_init_def life_defs)

section \<open>A shutdown that comes too early\<close>

text \<open>The comment of \<open>Shutdown\<close> asks its callers to wait for \<open>Ready\<close>. The shutdown
  goroutine does not: a signal during startup can reach a listener before it has started. If such a
  call has no effect, the process never ends.\<close>

definition deaf :: "life \<Rightarrow> bool" where
  "deaf y \<longleftrightarrow> lf_shut y \<in> {ShutUDP, ShutTCP, ShutDone} \<and> \<not> lf_udpTold y \<and> lf_udp y \<noteq> LsDown \<and> lf_serve y"

lemma deaf_step: "life_step early Step y y' \<Longrightarrow> deaf y \<Longrightarrow> deaf y'"
  by (cases rule: life_step.cases, assumption) (auto simp: deaf_def life_defs)

lemma deaf_run: "life_run early es y y' \<Longrightarrow> set es \<subseteq> {Step} \<Longrightarrow> deaf y \<Longrightarrow> deaf y'"
proof (induction rule: life_run.induct)
  case (life_snoc es y y' ev y'')
  then show ?case using deaf_step [of early y' y''] by auto
qed simp

lemma early_shutdown_lost:
  "\<exists>es y. life_run False (Signal # es) life_init y \<and> set es \<subseteq> {Step} \<and> gctx_done y
     \<and> (\<nexists>y'. life_step False Step y y') \<and> \<not> life_done y"
proof -
  let ?s = "life_init\<lparr>lf_signal := True\<rparr>"
  let ?y = "udp_Shutdown False (admin_Shutdown ?s)"
  have "life_step False Signal life_init ?s" by (rule life_signal) (simp add: life_init_def)
  moreover have "life_step False Step ?s (admin_Shutdown ?s)"
    by (rule life_shut_admin) (simp_all add: life_init_def gctx_done_def)
  moreover have "life_step False Step (admin_Shutdown ?s) ?y"
    by (rule life_shut_udp) (simp add: admin_Shutdown_def)
  ultimately have r: "life_run False [Signal, Step, Step] life_init ?y" by (metis life_cons life_nil)
  obtain es y where e: "life_run False es ?y y" "set es \<subseteq> {Step}" "\<nexists>y'. life_step False Step y y'"
    using life_settles by blast
  have "deaf ?y" by (simp add: deaf_def life_defs life_init_def)
  then have "deaf y" by (rule deaf_run [OF e(1,2)])
  then have "\<not> life_done y" by (simp add: deaf_def life_done_def)
  moreover have "gctx_done y" by (rule life_run_done [OF e(1)]) simp
  moreover have "life_run False (Signal # Step # Step # es) life_init y"
    using life_run_append [OF e(1) r] by simp
  moreover have "set (Step # Step # es) \<subseteq> {Step}" using e(2) by simp
  ultimately show ?thesis using e(3) by blast
qed

section \<open>Properties\<close>

text \<open>C12: An orderly end, under the condition that both listeners had started when they were told to
  shut down, or that the library remembers a shutdown that comes before the start: once the context
  of the group has ended (by a signal, or because a goroutine of the group returned an error, which
  the failure of one listener alone does not bring about), every interleaving of the goroutines,
  with any further faults, is at most fifteen steps long, none of them stops with a goroutine still
  running, and the process exits with a status other than zero only with an error that a listener,
  the admin server or the readiness deadline produced: a signal alone ends it with status zero.\<close>

theorem shutdown_completes:
  assumes "life_run early es life_init y" and "gctx_done y"
    and "early \<or> (lf_udp y \<noteq> LsInit \<and> lf_tcp y \<noteq> LsInit \<and> lf_shut y = ShutWait)"
    and "life_run early es' y y'"
  shows "length (es @ es') \<le> 15
    \<and> ((\<nexists>y''. life_step early Step y' y'') \<longrightarrow> life_done y')
    \<and> (bns_exit (runServe_result (lf_results y')) \<noteq> 0 \<longrightarrow>
         (\<exists>e. runServe_result (lf_results y') = Some e \<and> Fault e \<in> set (es @ es')))"
proof (intro conjI impI)
  note run = life_run_append [OF assms(4,1)]
  have "life_rank life_init = 15" by (simp add: life_rank_def life_init_def)
  then show "length (es @ es') \<le> 15" using life_run_rank [OF run] by simp
  have h: "heard early y"
  proof (cases early)
    case True
    then show ?thesis using life_run_heard [OF assms(1)] life_init_inv(2) by simp
  next
    case False
    then show ?thesis using assms(3) by (simp add: heard_def)
  qed
  assume "\<nexists>y''. life_step early Step y' y''"
  then show "life_done y'"
    by (rule stuck_is_done [OF life_run_inv [OF run life_init_inv(1)] life_run_heard [OF assms(4) h]
        life_run_done [OF assms(4,2)]])
next
  assume "bns_exit (runServe_result (lf_results y')) \<noteq> 0"
  then obtain e where "runServe_result (lf_results y') = Some e" by (auto simp: bns_exit_def split: if_splits)
  with runServe_blame [OF life_run_append [OF assms(4,1)] this]
  show "\<exists>e. runServe_result (lf_results y') = Some e \<and> Fault e \<in> set (es @ es')" by blast
qed

theorem shutdown_completes_witness:
  "\<exists>es y. life_run False (Step # Step # Step # Step # Signal # es) life_init y \<and> life_done y
     \<and> set es \<subseteq> {Step} \<and> bns_exit (runServe_result (lf_results y)) = 0"
proof -
  let ?y = "serving\<lparr>lf_signal := True\<rparr>"
  have "life_step False Signal serving ?y" by (rule life_signal) (simp add: serving_eval)
  then have r: "life_run False [Step, Step, Step, Step, Signal] life_init ?y"
    using life_snoc [OF serving_run] by fastforce
  obtain es y where e: "life_run False es ?y y" "set es \<subseteq> {Step}" "\<nexists>y''. life_step False Step y y''"
    using life_settles by blast
  have "gctx_done ?y" "lf_udp ?y \<noteq> LsInit \<and> lf_tcp ?y \<noteq> LsInit \<and> lf_shut ?y = ShutWait"
    by (simp_all add: serving_eval gctx_done_def)
  from shutdown_completes [OF r this(1) disjI2 [OF this(2)] e(1)] e
  have "life_done y" and "bns_exit (runServe_result (lf_results y)) = 0" by auto
  then show ?thesis using life_run_append [OF e(1) r] e(2) by auto
qed

text \<open>C32: The comment of \<open>Serve\<close> says that it runs until either listener errors. It waits for
  both: after the UDP listener has failed, the goroutines take any number of steps of their own and
  the TCP listener goes on, the failure is not reported, the process is not shut down and readiness
  stays as it was.\<close>

theorem failed_listener_not_reported:
  assumes "life_run early es life_init y" and "lf_udp y = LsDown" and "lf_tcp y = LsUp" and "lf_serve y"
    and "\<not> gctx_done y" and "life_run early es' y y'" and "set es' \<subseteq> {Step}"
  shows "lf_serve y' \<and> \<not> gctx_done y' \<and> lf_tcp y' = LsUp \<and> (lf_rdy y \<longrightarrow> lf_rdy y')"
  using half_dead_run [OF assms(6,7)] life_run_inv [OF assms(1) life_init_inv(1)] assms(2-5)
  by (simp add: half_dead_def)

theorem failed_listener_not_reported_witness:
  "\<exists>y. life_run False [Step, Step, Step, Step, Fault (ErrNew ''read udp'')] life_init y
     \<and> lf_lresults y = [Some (ErrNew ''read udp'')] \<and> lf_rdy y \<and> lf_serve y \<and> \<not> gctx_done y"
proof -
  let ?y = "udp_ended (Some (ErrNew ''read udp'')) serving"
  have "life_step False (Fault (ErrNew ''read udp'')) serving ?y"
    by (rule life_udp_fail) (simp add: serving_eval)
  then have r: "life_run False [Step, Step, Step, Step, Fault (ErrNew ''read udp'')] life_init ?y"
    using life_snoc [OF serving_run] by fastforce
  show ?thesis
    using failed_listener_not_reported [OF r, of "[]" ?y] r life_nil
    by (auto simp: serving_eval udp_ended_def gctx_done_def group_Wait_def)
qed

end
