(* ===== verification/Bns_Command.thy ===== *)
theory Bns_Command
  imports Config_Load Serve_Lifecycle
begin

text \<open>
  The command line of the server: the commands \<open>newRootCmd\<close> (\<open>cmd/bns/root.go\<close>) and
  \<open>newServeCmd\<close> (\<open>cmd/bns/serve.go\<close>) put together, and \<open>main\<close> around them. Finding a command for
  the arguments and running it belongs to \<open>cobra\<close> and is a parameter; the body of the serve command
  is \<open>serve_RunE\<close>.
\<close>

section \<open>The commands\<close>

datatype command = Command
  (cm_Use: string) (cm_Short: string) (cm_Long: string) (cm_SilenceUsage: bool) (cm_SilenceErrors: bool)
  (cm_Version: string) (cm_VersionTemplate: string) (cm_Flags: "flag_def list") (cm_Commands: "command list")

definition newServeCmd :: command where
  "newServeCmd = Command ''serve'' ''Run the BNS DNS forwarder'' [] False False [] [] serve_flag_defs []"

text \<open>\<open>buildinfo.Version\<close>; the linker may replace it.\<close>

definition Version :: string where
  "Version = ''dev''"

definition newRootCmd :: "string \<Rightarrow> command" where
  "newRootCmd version =
     Command ''bns'' (''BNS '' @ [CHR 0xE2, CHR 0x80, CHR 0x94] @ '' Ben's Name Server'')
       ''A caching DNS forwarder with ad-blocking.'' True True version
       (''bns version {{.Version}}'' @ [CHR 0x0A]) [] [newServeCmd]"

text \<open>\<open>main\<close>: the exit status and the error printed to the standard error.\<close>

definition bns_main :: "(command \<Rightarrow> string list \<Rightarrow> goerror option) \<Rightarrow> string \<Rightarrow> string list \<Rightarrow> int \<times> (string \<times> goerror) list" where
  "bns_main ExecuteContext version args =
     (let err = ExecuteContext (newRootCmd version) args in
      (bns_exit err, case err of None \<Rightarrow> [] | Some e \<Rightarrow> [(''bns:'', e)]))"

section \<open>Flags and settings\<close>

text \<open>A flag and the default of the setting it is bound to have the same type.\<close>

fun kind_fits :: "flag_kind \<Rightarrow> setting \<Rightarrow> bool" where
  "kind_fits (FlagString _) (SetStr _) = True"
| "kind_fits (FlagInt _) (SetInt _) = True"
| "kind_fits (FlagDuration _) (SetDuration _) = True"
| "kind_fits (FlagBool _) (SetBool _) = True"
| "kind_fits _ _ = False"

definition bound_kind :: "string \<Rightarrow> flag_kind option" where
  "bound_kind key =
     (case map_of flag_binds key of
        None \<Rightarrow> None
      | Some f \<Rightarrow> map_option fd_Kind (find (\<lambda>d. fd_Name d = f) serve_flag_defs))"

fun default_fits :: "viper_call \<Rightarrow> bool" where
  "default_fits (SetDefault key s) = (case bound_kind key of None \<Rightarrow> False | Some k \<Rightarrow> kind_fits k s)"
| "default_fits _ = True"

text \<open>A flag that is not given must not change a setting, so its default is the zero value.\<close>

fun zero_kind :: "flag_kind \<Rightarrow> bool" where
  "zero_kind (FlagString s) = (s = [])"
| "zero_kind (FlagInt i) = (i = 0)"
| "zero_kind (FlagDuration d) = (d = 0)"
| "zero_kind (FlagBool b) = (\<not> b)"

section \<open>Properties\<close>

text \<open>The flags of the serve command fit the settings they are bound to: names are unique, every
  flag but the path of the configuration file is bound, to a key of its own and in the order of the
  command, every key that has a default is bound to a flag of the type of that default, only
  \<open>admin.pprof\<close> is bound without a default, and the defaults of the flags themselves are zero
  values.\<close>

theorem serve_flags_fit_settings:
  "distinct (map fd_Name (cm_Flags newServeCmd)) \<and> distinct (map fst flag_binds)
   \<and> map snd flag_binds = filter (\<lambda>f. f \<noteq> ''config'') (map fd_Name (cm_Flags newServeCmd))
   \<and> list_all default_fits (bindDefaults c)
   \<and> map call_key (bindDefaults c) = map Some (filter (\<lambda>k. k \<noteq> ''admin.pprof'') (map fst flag_binds))
   \<and> list_all (zero_kind \<circ> fd_Kind) (cm_Flags newServeCmd)"
proof (intro conjI)
  show "list_all default_fits (bindDefaults c)"
    by (simp add: bindDefaults_def bound_kind_def flag_binds_def serve_flag_defs_def)
qed (simp_all add: newServeCmd_def serve_flag_defs_def flag_binds_def bindDefaults_def)

end
