(* ===== verification/Logging.thy ===== *)
theory Logging
  imports Config_Validate
begin

text \<open>
  The choice of log level, format and query log (\<open>internal/logging/logging.go\<close>). Writing the
  records belongs to \<open>log/slog\<close>; a handler is represented by its kind and its level.
\<close>

datatype slog_level = LevelDebug | LevelInfo | LevelWarn | LevelError
datatype slog_handler = TextHandler slog_level | JSONHandler slog_level

text \<open>The numbers \<open>slog\<close> gives to the levels; a record passes when its level is not below the
  handler's.\<close>

fun level_value :: "slog_level \<Rightarrow> int" where
  "level_value LevelDebug = -4"
| "level_value LevelInfo = 0"
| "level_value LevelWarn = 4"
| "level_value LevelError = 8"

text \<open>Levels are ordered by their numbers.\<close>

instantiation slog_level :: linorder
begin

definition less_eq_slog_level :: "slog_level \<Rightarrow> slog_level \<Rightarrow> bool" where
  "less_eq_slog_level a b = (level_value a \<le> level_value b)"

definition less_slog_level :: "slog_level \<Rightarrow> slog_level \<Rightarrow> bool" where
  "less_slog_level a b = (level_value a < level_value b)"

instance
proof
  fix a b :: slog_level
  show "a \<le> b \<Longrightarrow> b \<le> a \<Longrightarrow> a = b" by (cases a; cases b) (simp_all add: less_eq_slog_level_def)
qed (auto simp: less_eq_slog_level_def less_slog_level_def)

end

lemma LevelError_greatest: "l \<le> LevelError" for l :: slog_level
  by (cases l) (simp_all add: less_eq_slog_level_def)

fun handler_level :: "slog_handler \<Rightarrow> slog_level" where
  "handler_level (TextHandler l) = l"
| "handler_level (JSONHandler l) = l"

definition handler_Enabled :: "slog_handler \<Rightarrow> slog_level \<Rightarrow> bool" where
  "handler_Enabled h l = (handler_level h \<le> l)"

definition parseLevel :: "string \<Rightarrow> slog_level" where
  "parseLevel s =
     (let t = ToLower s in
      if t = ''debug'' then LevelDebug
      else if t = ''warn'' \<or> t = ''warning'' then LevelWarn
      else if t = ''error'' then LevelError
      else LevelInfo)"

definition logging_New :: "LoggingCfg \<Rightarrow> slog_handler" where
  "logging_New cfg =
     (if ToLower (lg_Format cfg) = ''text'' then TextHandler (parseLevel (lg_Level cfg))
      else JSONHandler (parseLevel (lg_Level cfg)))"

text \<open>The query log: a handler that writes at level info, or the no-op.\<close>

definition QueryLogger :: "bool \<Rightarrow> slog_handler option" where
  "QueryLogger enabled = (if \<not> enabled then None else Some (JSONHandler LevelInfo))"

definition QueryLog_Enabled :: "slog_handler option \<Rightarrow> bool" where
  "QueryLog_Enabled q = (q \<noteq> None)"

definition LogQuery :: "slog_handler option \<Rightarrow> 'a \<Rightarrow> 'a list \<Rightarrow> 'a list" where
  "LogQuery q attrs out =
     (case q of None \<Rightarrow> out | Some h \<Rightarrow> if handler_Enabled h LevelInfo then out @ [attrs] else out)"

section \<open>Levels and formats that validation admits\<close>

lemma ToLower_levels:
  "ToLower ''debug'' = ''debug''" "ToLower ''info'' = ''info''" "ToLower ''warn'' = ''warn''"
  "ToLower ''error'' = ''error''" "ToLower ''text'' = ''text''" "ToLower ''json'' = ''json''"
  by (simp_all add: ToLower_graphic graphic_def char_eval)

fun level_name :: "slog_level \<Rightarrow> string" where
  "level_name LevelDebug = ''debug''"
| "level_name LevelInfo = ''info''"
| "level_name LevelWarn = ''warn''"
| "level_name LevelError = ''error''"

lemma parseLevel_name: "parseLevel (level_name l) = l"
  by (cases l) (simp_all add: parseLevel_def Let_def ToLower_levels)

lemma valid_levels: "s \<in> {''debug'', ''info'', ''warn'', ''error''} \<Longrightarrow> \<exists>l. s = level_name l"
  by (auto intro: exI [of _ LevelDebug] exI [of _ LevelInfo] exI [of _ LevelWarn] exI [of _ LevelError])

text \<open>With a validated configuration the logger writes in the configured format exactly the records
  at or above the configured level, so errors are never suppressed; the query log writes every
  line when it is enabled and nothing otherwise.\<close>

lemma validated_logging:
  assumes "valid_config P c"
  shows "\<exists>l. lg_Level (cfg_Logging c) = level_name l
    \<and> logging_New (cfg_Logging c) = (if lg_Format (cfg_Logging c) = ''text'' then TextHandler l else JSONHandler l)
    \<and> handler_Enabled (logging_New (cfg_Logging c)) LevelError
    \<and> LogQuery (QueryLogger (lg_QueryLog (cfg_Logging c))) a out
        = out @ (if lg_QueryLog (cfg_Logging c) then [a] else [])"
proof -
  have v: "lg_Level (cfg_Logging c) \<in> {''debug'', ''info'', ''warn'', ''error''}"
    "lg_Format (cfg_Logging c) \<in> {''json'', ''text''}"
    using assms by (simp_all add: valid_config_def)
  obtain l where l: "lg_Level (cfg_Logging c) = level_name l" using valid_levels [OF v(1)] by blast
  then show ?thesis
    using v(2) LevelError_greatest [of l]
    by (auto simp: logging_New_def parseLevel_name ToLower_levels handler_Enabled_def LogQuery_def QueryLogger_def)
qed

end
