(* ===== verification/Metric_Labels.thy ===== *)
theory Metric_Labels
  imports Serve
begin

text \<open>
  The collectors as they are declared (\<open>internal/metrics/metrics.go\<close>): their names and label
  names, and that the running server only ever uses them with the declared number of label values,
  drawn from sets fixed by the configuration. With another number of values \<open>WithLabelValues\<close>
  panics; with unbounded values the number of series grows without limit.
\<close>

section \<open>Declarations\<close>

definition metrics_descs :: "(string \<times> string list) list" where
  "metrics_descs =
     [(''bns_queries_total'', [''outcome'', ''qtype'']),
      (''bns_query_duration_seconds'', [''outcome'']),
      (''bns_upstream_queries_total'', [''upstream'', ''protocol'', ''outcome'']),
      (''bns_upstream_duration_seconds'', [''upstream'', ''protocol'']),
      (''bns_cache_entries'', []), (''bns_cache_capacity'', []), (''bns_cache_evictions_total'', []),
      (''bns_cache_lookups_total'', [''result'']),
      (''bns_blocklist_entries'', []), (''bns_blocklist_loaded_timestamp_seconds'', []),
      (''bns_blocklist_reloads_total'', [''outcome'']),
      (''bns_coalesced_queries_total'', []), (''bns_panics_total'', []),
      (''bns_blocklist_fetch_total'', [''source'', ''outcome'']),
      (''bns_blocklist_last_success_timestamp_seconds'', [''source'']),
      (''bns_blocklist_entries_by_source'', [''source'']),
      (''bns_doh_http_status_total'', [''upstream'', ''status'']),
      (''bns_doh_tls_handshakes_total'', [''upstream'', ''result''])]"

text \<open>The label values in use, by collector.\<close>

definition series :: "metrics \<Rightarrow> (string \<times> string list set) list" where
  "series m =
     [(''bns_queries_total'', dom (QueriesTotal m)),
      (''bns_query_duration_seconds'', dom (QueryDurationSeconds m)),
      (''bns_upstream_queries_total'', dom (UpstreamQueriesTotal m)),
      (''bns_upstream_duration_seconds'', dom (UpstreamDurationSeconds m)),
      (''bns_cache_lookups_total'', dom (CacheLookupsTotal m)),
      (''bns_blocklist_reloads_total'', dom (BlocklistReloadsTotal m)),
      (''bns_blocklist_fetch_total'', dom (BlocklistFetchTotal m)),
      (''bns_blocklist_last_success_timestamp_seconds'', dom (BlocklistLastSuccessTimestamp m)),
      (''bns_blocklist_entries_by_source'', dom (BlocklistEntriesBySource m)),
      (''bns_doh_http_status_total'', dom (DoHHTTPStatusTotal m)),
      (''bns_doh_tls_handshakes_total'', dom (DoHTLSHandshakesTotal m))]"

definition well_typed :: "metrics \<Rightarrow> bool" where
  "well_typed m \<longleftrightarrow> list_all (\<lambda>(name, ls). \<exists>labels. map_of metrics_descs name = Some labels
     \<and> (\<forall>l \<in> ls. length l = length labels)) (series m)"

text \<open>The label values allowed with upstreams named \<open>U\<close> and blocklist sources named \<open>N\<close>; the
  only open one is the status code a DoH server answers with.\<close>

definition labels_ok :: "string set \<Rightarrow> string set \<Rightarrow> metrics \<Rightarrow> bool" where
  "labels_ok U N m \<longleftrightarrow>
     dom (QueriesTotal m) \<subseteq> all_labels
     \<and> dom (QueryDurationSeconds m) \<subseteq> (\<lambda>x. [x]) ` set all_outcomes
     \<and> dom (UpstreamQueriesTotal m) \<subseteq> {[u, p, r] | u p r. u \<in> U \<and> p \<in> {''udp'', ''doh''} \<and> r \<in> {''ok'', ''error''}}
     \<and> dom (UpstreamDurationSeconds m) \<subseteq> {[u, p] | u p. u \<in> U \<and> p \<in> {''udp'', ''doh''}}
     \<and> dom (CacheLookupsTotal m) \<subseteq> {[''hit''], [''miss'']}
     \<and> dom (BlocklistReloadsTotal m) \<subseteq> {[''ok''], [''error'']}
     \<and> dom (BlocklistFetchTotal m) \<subseteq> {[n, outcome_label oc] | n oc. n \<in> N}
     \<and> dom (BlocklistLastSuccessTimestamp m) \<subseteq> (\<lambda>n. [n]) ` N
     \<and> dom (BlocklistEntriesBySource m) \<subseteq> (\<lambda>n. [n]) ` N
     \<and> dom (DoHHTTPStatusTotal m) \<subseteq> {[u, Itoa c] | u c. u \<in> U}
     \<and> dom (DoHTLSHandshakesTotal m) \<subseteq> {[u, r] | u r. u \<in> U \<and> r \<in> {''ok'', ''error''}}"

lemma labels_ok_length:
  assumes "labels_ok U N m"
  shows "\<forall>l \<in> dom (QueriesTotal m). length l = 2" "\<forall>l \<in> dom (QueryDurationSeconds m). length l = 1"
    "\<forall>l \<in> dom (UpstreamQueriesTotal m). length l = 3" "\<forall>l \<in> dom (UpstreamDurationSeconds m). length l = 2"
    "\<forall>l \<in> dom (CacheLookupsTotal m). length l = 1" "\<forall>l \<in> dom (BlocklistReloadsTotal m). length l = 1"
    "\<forall>l \<in> dom (BlocklistFetchTotal m). length l = 2" "\<forall>l \<in> dom (BlocklistLastSuccessTimestamp m). length l = 1"
    "\<forall>l \<in> dom (BlocklistEntriesBySource m). length l = 1" "\<forall>l \<in> dom (DoHHTTPStatusTotal m). length l = 2"
    "\<forall>l \<in> dom (DoHTLSHandshakesTotal m). length l = 2"
  using assms unfolding labels_ok_def all_labels_def
  by - (elim conjE, rule ballI, drule (1) subsetD, force)+

lemma labels_ok_typed: "labels_ok U N m \<Longrightarrow> well_typed m"
  using labels_ok_length [of U N m] by (simp add: well_typed_def series_def metrics_descs_def)

section \<open>Every recording keeps to the declarations\<close>

lemma labels_ok_New: "labels_ok U N metrics_New"
  by (simp add: labels_ok_def metrics_New_def all_outcomes_def vec_Touch_def)

lemma labels_ok_gauges [simp]:
  "labels_ok U N (m\<lparr>BlocklistEntries := a\<rparr>) = labels_ok U N m"
  "labels_ok U N (m\<lparr>BlocklistLoadedTimestamp := b\<rparr>) = labels_ok U N m"
  "labels_ok U N (m\<lparr>CacheCapacity := c\<rparr>) = labels_ok U N m"
  "labels_ok U N (m\<lparr>CoalescedQueriesTotal := k\<rparr>) = labels_ok U N m"
  "labels_ok U N (m\<lparr>PanicsTotal := k\<rparr>) = labels_ok U N m"
  by (simp_all add: labels_ok_def)

lemma labels_ok_query:
  assumes "labels_ok U N m" and "[x, y] \<in> all_labels"
  shows "labels_ok U N (count_query x y t m)"
  using assms by (auto simp: labels_ok_def count_query_def all_labels_def simp del: set_simps)

lemma labels_ok_attempt:
  assumes "labels_ok U N m" and "u_Name u \<in> U" and "u_Protocol u \<in> {''udp'', ''doh''}"
  shows "labels_ok U N (attempt_metrics u t ok m)"
  using assms by (auto simp: labels_ok_def attempt_metrics_def)

lemma labels_ok_doh:
  assumes "url \<in> U"
  shows "labels_ok U N m \<Longrightarrow> labels_ok U N (fold (handshake_metric url) hs m)"
    and "labels_ok U N m \<Longrightarrow> labels_ok U N (status_metric url c m)"
proof -
  have h: "labels_ok U N m \<Longrightarrow> labels_ok U N (handshake_metric url b m)" for b m
    using assms by (auto simp: labels_ok_def handshake_metric_def)
  show "labels_ok U N m \<Longrightarrow> labels_ok U N (fold (handshake_metric url) hs m)"
    by (induction hs arbitrary: m) (simp_all add: h)
  show "labels_ok U N m \<Longrightarrow> labels_ok U N (status_metric url c m)"
    using assms by (auto simp: labels_ok_def status_metric_def)
qed

lemma labels_ok_lookup:
  "r \<in> {''hit'', ''miss''} \<Longrightarrow> labels_ok U N (st_metrics s) \<Longrightarrow> labels_ok U N (st_metrics (recordLookup m r s))"
  by (auto simp: labels_ok_def recordLookup_def)

lemma labels_ok_fetch:
  assumes "labels_ok U N m" and "n \<in> N"
  shows "labels_ok U N (fm_IncFetch n (outcome_label oc) m)" "labels_ok U N (fm_SetLastSuccess n t m)"
    "labels_ok U N (fm_SetEntries n k m)"
  using assms by (auto simp: labels_ok_def fm_IncFetch_def fm_SetLastSuccess_def fm_SetEntries_def)

lemma labels_ok_reload:
  "r \<in> {''ok'', ''error''} \<Longrightarrow> labels_ok U N m \<Longrightarrow>
     labels_ok U N (m\<lparr>BlocklistReloadsTotal := vec_Inc (BlocklistReloadsTotal m) [r]\<rparr>)"
  by (auto simp: labels_ok_def)

section \<open>The stages and the upstreams\<close>

definition keeps_labels :: "string set \<Rightarrow> string set \<Rightarrow> (ctx \<Rightarrow> msg \<Rightarrow> 'e st \<Rightarrow> 'a \<times> 'e st) \<Rightarrow> bool" where
  "keeps_labels U N f \<longleftrightarrow>
     (\<forall>c req s out s'. f c req s = (out, s') \<longrightarrow> labels_ok U N (st_metrics s) \<longrightarrow> labels_ok U N (st_metrics s'))"

lemma keeps_labelsI:
  assumes "\<And>c req s out s'. f c req s = (out, s') \<Longrightarrow> labels_ok U N (st_metrics s) \<Longrightarrow> labels_ok U N (st_metrics s')"
  shows "keeps_labels U N f"
  using assms unfolding keeps_labels_def by blast

lemma keeps_labelsD:
  "keeps_labels U N f \<Longrightarrow> f c req s = (out, s') \<Longrightarrow> labels_ok U N (st_metrics s) \<Longrightarrow> labels_ok U N (st_metrics s')"
  unfolding keeps_labels_def by blast

lemma client_Exchange_metrics: "client_Exchange L c req nw addr t s = (r, s') \<Longrightarrow> st_metrics s' = st_metrics s"
  by (auto simp: client_Exchange_def split: prod.splits)

lemma udp_labels: "keeps_labels U N (udp_Exchange L addr t)"
proof (rule keeps_labelsI)
  fix c req out and s s' :: "'a st"
  assume r: "udp_Exchange L addr t c req s = (out, s')" and ok: "labels_ok U N (st_metrics s)"
  obtain o1 r1 s1 where e1: "client_Exchange L c req ''udp'' addr t s = ((o1, r1), s1)"
    by (metis prod.collapse)
  obtain o2 r2 s2 where e2: "client_Exchange L c r1 ''tcp'' addr t s1 = ((o2, r2), s2)"
    by (metis prod.collapse)
  have "s' = s1 \<or> s' = s2"
    using r e1 e2 by (auto simp: udp_Exchange_def split: prod.splits option.splits if_splits)
  then show "labels_ok U N (st_metrics s')"
    using client_Exchange_metrics [OF e1] client_Exchange_metrics [OF e2] ok by auto
qed

lemma doh_labels: "dc_url cl \<in> U \<Longrightarrow> keeps_labels U N (doh_Exchange L cl)"
  by (rule keeps_labelsI)
    (auto simp: doh_Exchange_def Let_def labels_ok_doh split: sum.splits option.splits prod.splits)

definition upstream_labels :: "string set \<Rightarrow> string set \<Rightarrow> 'e upstream \<Rightarrow> bool" where
  "upstream_labels U N u \<longleftrightarrow> u_Name u \<in> U \<and> u_Protocol u \<in> {''udp'', ''doh''} \<and> keeps_labels U N (u_Exchange u)"

lemma attempt_labels:
  assumes u: "upstream_labels U N u"
  shows "keeps_labels U N (attempt m u)"
proof (rule keeps_labelsI)
  fix c req out s s'
  assume r: "attempt m u c req s = (out, s')" and ok: "labels_ok U N (st_metrics s)"
  obtain o1 r1 s2 where e: "u_Exchange u c req (ticked s) = ((o1, r1), s2)" by (metis prod.collapse)
  have "labels_ok U N (st_metrics s2)"
    using keeps_labelsD [of U N "u_Exchange u", OF _ e] u ok by (simp add: upstream_labels_def)
  then show "labels_ok U N (st_metrics s')"
    using r e u labels_ok_attempt [of U N _ u]
    by (auto simp: attempt_def time_Now_def upstream_labels_def split: go.splits prod.splits if_splits)
qed

lemma MarkUpstream_metrics [simp]: "st_metrics (MarkUpstream c n p s) = st_metrics s"
  by (simp add: MarkUpstream_def split: option.splits)

lemma MarkBlocked_metrics [simp]: "st_metrics (MarkBlocked c s) = st_metrics s"
  by (simp add: MarkBlocked_def split: option.splits)

lemma pool_loop_labels:
  assumes "\<forall>u \<in> set us. upstream_labels U N u" and "pool_loop m us errs c req s = (out, s')"
    and "labels_ok U N (st_metrics s)"
  shows "labels_ok U N (st_metrics s')"
  using assms
proof (induction us arbitrary: errs req s)
  case (Cons u us)
  obtain o1 r1 s1 where a: "attempt m u c req s = ((o1, r1), s1)" by (metis prod.collapse)
  have ok: "labels_ok U N (st_metrics s1)"
    using keeps_labelsD [OF attempt_labels a] Cons.prems by simp
  show ?case
  proof (cases "\<exists>r e s2. o1 = Ret (r, Some e) \<and> ctx_Err c s1 = (None, s2)")
    case True
    then obtain r e s2 where o: "o1 = Ret (r, Some e)" and cx: "ctx_Err c s1 = (None, s2)" by blast
    have "pool_loop m us (errs @ [ErrWrap (u_Name u) e]) c r1 s2 = (out, s')"
      using Cons.prems(2) a o cx by simp
    moreover have "labels_ok U N (st_metrics s2)" using cx ok by (auto simp: ctx_Err_def time_Now_def)
    ultimately show ?thesis using Cons.IH Cons.prems(1) by simp
  next
    case False
    then show ?thesis
      using Cons.prems(2) a ok
      by (auto simp: Let_def ctx_Err_def time_Now_def split: go.splits prod.splits option.splits)
  qed
qed simp

lemma pool_labels: "\<forall>u \<in> set us. upstream_labels U N u \<Longrightarrow> keeps_labels U N (pool_Exchange m us)"
  by (rule keeps_labelsI) (auto simp: pool_Exchange_def split: if_splits dest: pool_loop_labels)

lemma build_upstreams_labels:
  "build_upstreams L us = Inr ups \<Longrightarrow> u_Name ` set ups \<subseteq> U \<Longrightarrow> \<forall>u \<in> set ups. upstream_labels U N u"
proof (induction us arbitrary: ups)
  case (Cons u us)
  have "upstream_labels U N x" if "upstream_New L u = Inr x" "u_Name x \<in> U" for x
    using that
    by (auto simp: upstream_labels_def upstream_New_def NewUDPClient_def NewDoHClient_def Let_def udp_labels
        intro!: doh_labels split: if_splits sum.splits option.splits)
  with Cons show ?case by (auto split: sum.splits)
qed simp

lemma forward_labels: "keeps_labels U N exch \<Longrightarrow> keeps_labels U N (forward_Resolve exch)"
  by (rule keeps_labelsI) (auto simp: forward_Resolve_def split: prod.splits dest: keeps_labelsD)

lemma coalesce_labels:
  assumes sf: "singleflight Do next" and n: "keeps_labels U N next"
  shows "keeps_labels U N (coalesce_Resolve Do m next)"
proof (rule keeps_labelsI)
  fix c req out s s'
  assume r: "coalesce_Resolve Do m next c req s = (out, s')" and ok: "labels_ok U N (st_metrics s)"
  show "labels_ok U N (st_metrics s')"
  proof (cases "\<exists>q. msg_Question req = [q]")
    case False
    then have "next c req s = (out, s')"
      using r by (auto simp: coalesce_Resolve_def split: list.splits)
    then show ?thesis using keeps_labelsD [OF n] ok by blast
  next
    case True
    then obtain q where q: "msg_Question req = [q]" ..
    obtain sh o1 s1 where d: "Do (Key q) (next c req) s = with_shared sh (o1, s1)"
      and ok1: "labels_ok U N (st_metrics s1)"
      using sf q ok keeps_labelsD [OF n] unfolding singleflight_def by (metis surj_pair)
    show ?thesis
      using r d q ok1
      by (cases o1)
        (auto simp: coalesce_Resolve_def Let_def split: prod.splits option.splits if_splits)
  qed
qed

lemma cache_fill_labels: "cache_fill cfg k (out, s) = (out', s') \<Longrightarrow> st_metrics s' = st_metrics s"
  by (rule cache_fill_cases [where x = "(out, s)" and cfg = cfg])
    (auto simp: cache_fill_store cache_fill_no_store)

lemma cache_labels:
  assumes n: "keeps_labels U N next"
  shows "keeps_labels U N (cache_Resolve cfg m next)"
proof (rule keeps_labelsI)
  fix c req out s s'
  assume r: "cache_Resolve cfg m next c req s = (out, s')" and ok: "labels_ok U N (st_metrics s)"
  show "labels_ok U N (st_metrics s')"
  proof (cases "\<exists>q. msg_Question req = [q]")
    case False
    then show ?thesis using r ok keeps_labelsD [OF n] by (simp add: cache_bypass)
  next
    case True
    then obtain q where q: "msg_Question req = [q]" ..
    obtain hit lru where g: "Get (st_lru s) (Key q) (now s) = (hit, lru)" by fastforce
    have look: "labels_ok U N (st_metrics (recordLookup m x ((ticked s)\<lparr>st_lru := lru\<rparr>)))"
      if "x \<in> {''hit'', ''miss''}" for x by (rule labels_ok_lookup [OF that]) (simp add: ok)
    show ?thesis
    proof (cases hit)
      case (Some resp)
      then show ?thesis using r g look by (auto simp: cache_hit [OF q])
    next
      case None
      obtain o1 s1 where nx: "next c req (recordLookup m ''miss'' ((ticked s)\<lparr>st_lru := lru\<rparr>)) = (o1, s1)"
        by fastforce
      then have "labels_ok U N (st_metrics s1)" using keeps_labelsD [OF n nx] look by simp
      then show ?thesis using r g None nx cache_fill_labels by (fastforce simp: cache_miss [OF q])
    qed
  qed
qed

lemma block_labels: "keeps_labels U N next \<Longrightarrow> keeps_labels U N (block_Resolve next)"
  by (rule keeps_labelsI)
    (auto simp: block_Resolve_def split: list.splits option.splits if_splits dest: keeps_labelsD)

lemma qlog_labels:
  assumes n: "keeps_labels U N next"
  shows "keeps_labels U N (qlog_New b T next)"
proof (rule keeps_labelsI)
  fix c req out s s'
  assume r: "qlog_New b T next c req s = (out, s')" and ok: "labels_ok U N (st_metrics s)"
  obtain o1 s1 where nx: "next c req (ticked s) = (o1, s1)" by fastforce
  then have "labels_ok U N (st_metrics s1)" using keeps_labelsD [OF n nx] ok by simp
  then show "labels_ok U N (st_metrics s')"
    using r nx ok keeps_labelsD [OF n, of c req s]
    by (auto simp: qlog_New_def qlog_Resolve_def time_Now_def split: if_splits go.splits prod.splits)
qed

lemma metric_labels:
  assumes n: "keeps_labels U N next"
  shows "keeps_labels U N (metric_Resolve True T next)"
proof (rule keeps_labelsI)
  fix c req out s s'
  assume r: "metric_Resolve True T next c req s = (out, s')" and ok: "labels_ok U N (st_metrics s)"
  obtain o1 s1 where nx: "next (marked_ctx c s) req (marked_st s) = (o1, s1)" by fastforce
  then have ok1: "labels_ok U N (st_metrics s1)" using keeps_labelsD [OF n nx] ok by simp
  obtain x e where xe: "recovered o1 = (x, e)" by fastforce
  have "query_label T req \<in> set (''other'' # known_qtypes)"
    using NormalizeQType_bounded by (simp add: query_label_def split: list.splits)
  then have "[Outcome (marked_ctx c s) s1 x e, query_label T req] \<in> all_labels"
    using Outcome_known [of "marked_ctx c s" s1 x e] by (auto simp: all_labels_def simp del: set_simps)
  then show "labels_ok U N (st_metrics s')"
    using r nx xe ok1 labels_ok_query by (auto simp: metric_Resolve_eq metric_defer_eq)
qed

lemma Build_labels:
  assumes "d_Metrics d" and "singleflight (d_Do d) (forward_Resolve (u_Exchange (d_Upstream d)))"
    and "keeps_labels U N (u_Exchange (d_Upstream d))"
  shows "keeps_labels U N (Build d)"
  using assms unfolding Build_eq behind_metrics_def behind_block_def
  by (simp add: metric_labels qlog_labels block_labels cache_labels coalesce_labels forward_labels)

section \<open>The fetcher and the reload\<close>

abbreviation fetch_ok :: "string set \<Rightarrow> string set \<Rightarrow> 'e fetch \<Rightarrow> bool" where
  "fetch_ok U N w \<equiv> labels_ok U N (st_metrics (ft_st w))"

lemma hooks_labels:
  assumes "n \<in> N" and "fetch_ok U N w"
  shows "fetch_ok U N (recordOutcome F n oc w)" "fetch_ok U N (markSuccess F n ts w)"
    "fetch_ok U N (setEntries F n k w)"
  using assms
  by (simp_all add: recordOutcome_def markSuccess_def setEntries_def labels_ok_fetch)

lemma fetch_store_labels:
  assumes "tg_Name t \<in> N" and "fetch_ok U N w" and "fetch_store F t start pm resp w = (res, w')"
  shows "fetch_ok U N w'"
  using assms
  by (auto simp: fetch_store_def Let_def hooks_labels split: if_splits sum.splits prod.splits option.splits)

lemma FetchOne_labels:
  assumes t: "tg_Name t \<in> N" and ok: "fetch_ok U N w" and r: "FetchOne F c t w = (res, w')"
  shows "fetch_ok U N w'"
proof -
  have b: "fetch_ok U N w2" if "fetch_body F c t start w1 = (res', w2)" "fetch_ok U N w1" for start w1 w2 res'
    using that
    by (auto simp: fetch_body_def Let_def split: prod.splits option.splits sum.splits
        intro: fetch_store_labels [OF t, rotated])
  show ?thesis
    using r ok b
    by (fastforce simp: FetchOne_def time_Now_def ctx_Err_def hooks_labels [OF t]
        split: prod.splits option.splits)
qed

lemma cycle_loop_labels:
  "tg_Name ` set ts \<subseteq> N \<Longrightarrow> fetch_ok U N w \<Longrightarrow> cycle_loop F c ts ch w = (ch', w') \<Longrightarrow> fetch_ok U N w'"
proof (induction ts arbitrary: ch w)
  case (Cons t ts)
  obtain res w1 where f: "FetchOne F c t w = (res, w1)" by fastforce
  then show ?case using Cons FetchOne_labels [OF _ Cons.prems(2) f] by auto
qed simp

lemma cycle_labels:
  assumes "tg_Name ` set ts \<subseteq> N" and "\<And>w. fetch_ok U N w \<Longrightarrow> fetch_ok U N (h w)" and "fetch_ok U N w"
  shows "fetch_ok U N (cycle F c ts h w)"
proof -
  obtain ch w1 where l: "cycle_loop F c ts False w = (ch, w1)" by fastforce
  then show ?thesis using cycle_loop_labels [OF assms(1,3) l] assms(2) by (simp add: cycle_def)
qed

lemma run_step_labels:
  assumes "run_step F c ts h r r'" and "tg_Name ` set ts \<subseteq> N"
    and "\<And>w. fetch_ok U N w \<Longrightarrow> fetch_ok U N (h w)" and "fetch_ok U N (rn_w r)"
  shows "fetch_ok U N (rn_w r')"
  using assms(1)
  by (cases rule: run_step.cases) (use assms(4) cycle_labels [OF assms(2,3)] in \<open>simp_all add: RefreshNow_def\<close>)

lemma reload_labels: "fetch_ok U N w \<Longrightarrow> fetch_ok U N (reloadFromDisk K dk ce ss gctx w)"
proof -
  assume ok: "fetch_ok U N w"
  obtain r w1 where l: "reload_load K dk ce ss gctx w = (r, w1)" by fastforce
  have ok1: "fetch_ok U N w1"
    using l by (cases rule: reload_load_cases) (simp_all add: ok reload_failed_def labels_ok_reload)
  have "labels_ok U N (x\<lparr>BlocklistEntries := a, BlocklistLoadedTimestamp := b,
      BlocklistReloadsTotal := vec_Inc (BlocklistReloadsTotal x) [''ok'']\<rparr>)" if "labels_ok U N x" for x a b
    using that by (auto simp: labels_ok_def)
  then show ?thesis
    using ok1 by (simp add: reloadFromDisk_def l reload_record_def reload_swap_def time_Now_def split: option.splits)
qed

section \<open>The running server\<close>

lemma sys_step_labels:
  assumes b: "keeps_labels U N (Build (sc_deps S))" and n: "tg_Name ` set (sc_targets S) \<subseteq> N"
    and s: "sys_step S gctx readyCtx y y'" and ok: "fetch_ok U N (sy_w y)"
  shows "fetch_ok U N (sy_w y')"
  using s
proof (cases rule: sys_step.cases)
  case (sys_query c rw req m s')
  then obtain out where "Build (sc_deps S) (withClientInfoFromWriter c rw) req (sy_st y) = (out, s')"
    by (auto simp: ServeDNS_def split: prod.splits go.splits)
  from keeps_labelsD [OF b this] ok show ?thesis using sys_query(1) by simp
next
  case (sys_fetcher ce r')
  then show ?thesis using run_step_labels [OF sys_fetcher(2) n reload_labels ok] by simp
next
  case (sys_hup ce)
  then show ?thesis using reload_labels [OF ok] by (simp add: on_SIGHUP_def RefreshNow_def)
qed (use ok in simp_all)

lemma warmup_labels:
  assumes "keeps_labels U N (u_Exchange p)" and "labels_ok U N (st_metrics s)"
    and "warmupProbe E c p t s = (r, s')"
  shows "labels_ok U N (st_metrics s')"
proof -
  obtain c' s1 where t: "WithTimeout c t s = (c', s1)" by fastforce
  then have "st_metrics s1 = st_metrics s" by (auto simp: WithTimeout_def time_Now_def)
  moreover obtain x where "u_Exchange p c' (ev_NewMsg E ''a.root-servers.net.'' TypeA) s1 = (x, s')"
    using assms(3) by (auto simp: warmupProbe_def t split: prod.splits go.splits)
  ultimately show ?thesis using keeps_labelsD [of U N "u_Exchange p"] assms(1,2) by metis
qed

lemma upstream_names:
  "build_upstreams L us = Inr ups \<Longrightarrow> map u_Name ups = upstreamLabels us"
proof (induction us arbitrary: ups)
  case (Cons u us)
  have "u_Name x = (if up_Type u = ''doh'' then up_URL u else up_Addr u)" if "upstream_New L u = Inr x" for x
    using that
    by (auto simp: upstream_New_def NewUDPClient_def NewDoHClient_def Let_def split: if_splits sum.splits option.splits)
  with Cons show ?case by (auto simp: upstreamLabels_def split: sum.splits)
qed (simp add: upstreamLabels_def)

lemma target_names:
  "build_sources ss = Inr (srcs, tgts) \<Longrightarrow> tg_Name ` set tgts \<subseteq> bs_Name ` set ss"
proof (induction ss arbitrary: srcs tgts)
  case (Cons s ss)
  then obtain srcs' tgts' where ih: "build_sources ss = Inr (srcs', tgts')"
    and t: "tgts = tgts' \<or> tgts = \<lparr>tg_Name = bs_Name s, tg_URL = bs_URL s\<rparr> # tgts'"
    by (auto split: if_splits sum.splits prod.splits)
  from t show ?case
  proof
    assume "tgts = tgts'"
    then show ?case using Cons.IH [OF ih] by auto
  next
    assume "tgts = \<lparr>tg_Name = bs_Name s, tg_URL = bs_URL s\<rparr> # tgts'"
    then have "tg_Name ` set tgts = insert (bs_Name s) (tg_Name ` set tgts')" by simp
    then show ?case using Cons.IH [OF ih] by (simp add: subset_insertI2)
  qed
qed simp

lemma labels_ok_init: "labels_ok U N (st_metrics (init_st clk cap bl net))"
  by (simp add: init_st_def labels_ok_New)

section \<open>Properties\<close>

text \<open>C14: The collectors are used as declared. Their names are distinct, so registering them cannot
  panic; and in every state the running server can reach, every series of every collector has as
  many label values as the collector declares labels (so \<open>WithLabelValues\<close> cannot panic) and
  its values are drawn from fixed sets: four outcomes, ten query types, the configured upstreams and
  sources; a query name is never one of them.\<close>

theorem metric_labels_as_declared:
  assumes "env_ok E" and "startup E c cfg dk ce clk net f = Ret (Inr (S, w, rdy, lg))"
    and "sys_reach S gctx readyCtx (sys_init w dk rdy) y"
  shows "distinct (map fst metrics_descs) \<and> well_typed (st_metrics (sy_st y))
    \<and> labels_ok (set (upstreamLabels (cfg_Upstreams cfg))) (bs_Name ` set (bl_Sources (cfg_Blocklists cfg)))
        (st_metrics (sy_st y))"
proof -
  let ?U = "set (upstreamLabels (cfg_Upstreams cfg))"
  let ?N = "bs_Name ` set (bl_Sources (cfg_Blocklists cfg))"
  from assms(2) obtain sources targets initial n f' ups err s' where 1:
    "build_sources (bl_Sources (cfg_Blocklists cfg)) = Inr (sources, targets)"
    "Loader_Load (ev_codec E) dk ce sources f = (Inr (initial, n), f')"
    "build_upstreams (ev_lib E) (cfg_Upstreams cfg) = Inr ups" "bind_listeners E cfg = None"
    "warmupProbe E c (NewPool True ups) (cfg_StartupProbeTimeout cfg)
      (init_st clk (cc_Capacity (cfg_Cache cfg)) initial net) = (Ret err, s')"
    "sc_deps S = service_deps E cfg ups" "sc_sources S = sources" "sc_targets S = targets"
    "fc_Codec (sc_fetcher S) = ev_codec E" "sc_httpClient S = httpClient cfg"
    "w = \<lparr>ft_st = s', ft_fs = f', ft_poke = False\<rparr>"
    "rdy = \<lparr>rd_blocklist = True, rd_listeners = False, rd_upstream = (err = None)\<rparr>"
    by (rule startup_cases)
  have "u_Name ` set ups \<subseteq> ?U" using upstream_names [OF 1(3)] by (metis list.set_map order_refl)
  then have p: "keeps_labels ?U ?N (u_Exchange (NewPool True ups))"
    using pool_labels [OF build_upstreams_labels [OF 1(3)]] by (simp add: NewPool_def)
  have b: "keeps_labels ?U ?N (Build (sc_deps S))"
    using startup_state(1) [OF assms(1,2)] p 1(6)
    by (intro Build_labels) (simp_all add: deps_ok_def service_deps_def)
  have n: "tg_Name ` set (sc_targets S) \<subseteq> ?N" using target_names [OF 1(1)] 1(8) by simp
  have "fetch_ok ?U ?N w" using warmup_labels [OF p labels_ok_init 1(5)] 1(11) by simp
  with assms(3) have "fetch_ok ?U ?N (sy_w y)"
    by (induction rule: sys_reach.induct) (simp_all add: sys_init_def sys_step_labels [OF b n])
  then show ?thesis using labels_ok_typed by (auto simp: metrics_descs_def)
qed

theorem metric_labels_as_declared_witness:
  "\<exists>S w rdy lg. startup sample_env Background sample_config sample_disk no_ctx_err int () (sample_fs (\<lambda>_. None))
       = Ret (Inr (S, w, rdy, lg)) \<and> well_typed (st_metrics (sy_st (sys_init w sample_disk rdy)))"
proof -
  obtain S w rdy lg where s: "startup sample_env Background sample_config sample_disk no_ctx_err int ()
      (sample_fs (\<lambda>_. None)) = Ret (Inr (S, w, rdy, lg))" by (rule sample_startup)
  from metric_labels_as_declared [OF sample_env_ok s sys_reach.sys_start [of S Background Background]] s
  show ?thesis by blast
qed

end
