(* ===== verification/Stress_Metrics.thy ===== *)
theory Stress_Metrics
  imports Go_Net Metrics Blocklist_Parse "HOL-Library.AList" "HOL-Library.Multiset"
begin

text \<open>
  Scraping of the metrics page by the stress harness (\<open>internal/stress/metrics.go\<close>): the parser
  of the Prometheus text format, the snapshot it fills, and the difference of two snapshots. The
  64-bit floating point numbers are values of a type \<open>'f\<close> with the operations the code uses;
  counters are 64-bit integers and wrap. A Go map is an association list without duplicate keys.
\<close>

section \<open>Data\<close>

text \<open>\<open>strconv.ParseFloat\<close>, conversion to \<open>int64\<close>, comparison, subtraction, zero and
  \<open>math.Inf(+1)\<close>.\<close>

record 'f fops =
  fo_Parse :: "string \<Rightarrow> goerror + 'f"
  fo_int64 :: "'f \<Rightarrow> int"
  fo_less :: "'f \<Rightarrow> 'f \<Rightarrow> bool"
  fo_sub :: "'f \<Rightarrow> 'f \<Rightarrow> 'f"
  fo_zero :: 'f
  fo_Inf :: 'f

record 'f HistogramBucket =
  hb_UpperBound :: 'f
  hb_Count :: int

record 'f HistogramSnapshot =
  hs_Buckets :: "'f HistogramBucket list"
  hs_Sum :: 'f
  hs_Count :: int

type_synonym counts = "(string \<times> int) list"

record 'f Snapshot =
  sn_QueriesByOutcome :: counts
  sn_UpstreamQueries :: int
  sn_CoalescedQueries :: int
  sn_CacheEvictions :: int
  sn_Panics :: int
  sn_DurationHist :: "'f HistogramSnapshot"

record 'f MetricsDiff =
  md_QueriesByOutcome :: counts
  md_TotalQueries :: int
  md_UpstreamQueries :: int
  md_CoalescedQueries :: int
  md_CacheEvictions :: int
  md_Panics :: int
  md_DurationHist :: "'f HistogramSnapshot"

definition empty_hist :: "'f fops \<Rightarrow> 'f HistogramSnapshot" where
  "empty_hist F = \<lparr>hs_Buckets = [], hs_Sum = fo_zero F, hs_Count = 0\<rparr>"

definition empty_snapshot :: "'f fops \<Rightarrow> 'f Snapshot" where
  "empty_snapshot F =
     \<lparr>sn_QueriesByOutcome = [], sn_UpstreamQueries = 0, sn_CoalescedQueries = 0, sn_CacheEvictions = 0,
      sn_Panics = 0, sn_DurationHist = empty_hist F\<rparr>"

text \<open>Reading a key that is not in the map gives zero.\<close>

definition counts_get :: "counts \<Rightarrow> string \<Rightarrow> int" where
  "counts_get m k = (case map_of m k of None \<Rightarrow> 0 | Some v \<Rightarrow> v)"

section \<open>Lines\<close>

fun split_labels :: "bool \<Rightarrow> string \<Rightarrow> string \<Rightarrow> string list" where
  "split_labels depth cur [] = (if cur = [] then [] else [cur])"
| "split_labels depth cur (ch # chs) =
     (if ch = CHR 34 then split_labels (\<not> depth) (cur @ [ch]) chs
      else if ch = CHR '','' \<and> \<not> depth then cur # split_labels depth [] chs
      else split_labels depth (cur @ [ch]) chs)"

definition splitLabels :: "string \<Rightarrow> string list" where
  "splitLabels body = split_labels False [] body"

text \<open>\<open>strings.Trim(s, q)\<close> for a one-byte cut set.\<close>

definition Trim_byte :: "string \<Rightarrow> char \<Rightarrow> string" where
  "Trim_byte s q = rev (dropWhile (\<lambda>c. c = q) (rev (dropWhile (\<lambda>c. c = q) s)))"

fun put_labels :: "string list \<Rightarrow> (string \<rightharpoonup> string) \<Rightarrow> (string \<rightharpoonup> string)" where
  "put_labels [] labels = labels"
| "put_labels (pair # ps) labels =
     (case IndexByte pair (CHR ''='') of
        None \<Rightarrow> put_labels ps labels
      | Some eq \<Rightarrow>
          put_labels ps (labels(TrimSpace (take eq pair) \<mapsto> Trim_byte (TrimSpace (drop (eq + 1) pair)) (CHR 34))))"

text \<open>A closing brace before the opening one makes the slice expression panic.\<close>

definition parsePromLine :: "'f fops \<Rightarrow> string \<Rightarrow> (goerror + string \<times> (string \<rightharpoonup> string) \<times> 'f) go" where
  "parsePromLine F line =
     (case LastIndexByte line (CHR '' '') of
        None \<Rightarrow> Ret (Inl (ErrNew ''malformed line''))
      | Some spaceIdx \<Rightarrow>
          (case fo_Parse F (drop (spaceIdx + 1) line) of
             Inl e \<Rightarrow> Ret (Inl (ErrWrap ''bad value'' e))
           | Inr value \<Rightarrow>
               (case IndexByte line (CHR ''{'') of
                  None \<Rightarrow> Ret (Inr (take spaceIdx line, Map.empty, value))
                | Some openBrace \<Rightarrow>
                    (case IndexByte line (CHR ''}'') of
                       None \<Rightarrow> Ret (Inl (ErrNew ''missing }''))
                     | Some closeBrace \<Rightarrow>
                         if closeBrace < openBrace + 1 then Panic ''slice bounds out of range''
                         else Ret (Inr (take openBrace line,
                           put_labels (splitLabels (take (closeBrace - (openBrace + 1)) (drop (openBrace + 1) line)))
                             Map.empty, value))))))"

definition parseLE :: "'f fops \<Rightarrow> string \<Rightarrow> goerror + 'f" where
  "parseLE F s = (if s = ''+Inf'' then Inr (fo_Inf F) else fo_Parse F s)"

definition label_get :: "(string \<rightharpoonup> string) \<Rightarrow> string \<Rightarrow> string" where
  "label_get labels k = (case labels k of None \<Rightarrow> [] | Some v \<Rightarrow> v)"

section \<open>Snapshots\<close>

text \<open>The switch on the metric name.\<close>

definition snap_add :: "'f fops \<Rightarrow> string \<Rightarrow> (string \<rightharpoonup> string) \<Rightarrow> 'f \<Rightarrow> 'f Snapshot \<Rightarrow> 'f Snapshot \<times> goerror option" where
  "snap_add F name labels value snap =
     (if name = ''bns_queries_total'' then
        (let outcome = label_get labels ''outcome'' in
         if outcome = [] then (snap, None)
         else (snap\<lparr>sn_QueriesByOutcome := AList.update outcome
             (wrap64 (counts_get (sn_QueriesByOutcome snap) outcome + fo_int64 F value)) (sn_QueriesByOutcome snap)\<rparr>, None))
      else if name = ''bns_upstream_queries_total'' then
        (snap\<lparr>sn_UpstreamQueries := wrap64 (sn_UpstreamQueries snap + fo_int64 F value)\<rparr>, None)
      else if name = ''bns_coalesced_queries_total'' then
        (snap\<lparr>sn_CoalescedQueries := wrap64 (sn_CoalescedQueries snap + fo_int64 F value)\<rparr>, None)
      else if name = ''bns_cache_evictions_total'' then
        (snap\<lparr>sn_CacheEvictions := wrap64 (sn_CacheEvictions snap + fo_int64 F value)\<rparr>, None)
      else if name = ''bns_panics_total'' then
        (snap\<lparr>sn_Panics := wrap64 (sn_Panics snap + fo_int64 F value)\<rparr>, None)
      else if name = ''bns_query_duration_seconds_bucket'' then
        (case parseLE F (label_get labels ''le'') of
           Inl e \<Rightarrow> (snap, Some e)
         | Inr b \<Rightarrow>
             (snap\<lparr>sn_DurationHist := (sn_DurationHist snap)\<lparr>hs_Buckets :=
                hs_Buckets (sn_DurationHist snap) @ [\<lparr>hb_UpperBound = b, hb_Count = fo_int64 F value\<rparr>]\<rparr>\<rparr>, None))
      else if name = ''bns_query_duration_seconds_sum'' then
        (snap\<lparr>sn_DurationHist := (sn_DurationHist snap)\<lparr>hs_Sum := value\<rparr>\<rparr>, None)
      else if name = ''bns_query_duration_seconds_count'' then
        (snap\<lparr>sn_DurationHist := (sn_DurationHist snap)\<lparr>hs_Count := fo_int64 F value\<rparr>\<rparr>, None)
      else (snap, None))"

fun snap_loop :: "'f fops \<Rightarrow> string list \<Rightarrow> 'f Snapshot \<Rightarrow> ('f Snapshot \<times> goerror option) go" where
  "snap_loop F [] snap = Ret (snap, None)"
| "snap_loop F (l # ls) snap =
     (let line = TrimSpace l in
      if line = [] \<or> prefix ''#'' line then snap_loop F ls snap
      else case parsePromLine F line of
          Panic p \<Rightarrow> Panic p
        | Ret (Inl e) \<Rightarrow> Ret (snap, Some e)
        | Ret (Inr (name, labels, value)) \<Rightarrow>
            (case snap_add F name labels value snap of
               (snap', Some e) \<Rightarrow> Ret (snap', Some e)
             | (snap', None) \<Rightarrow> snap_loop F ls snap'))"

text \<open>The insertion sort on the buckets: exchange with the predecessor while it is larger.\<close>

fun sink :: "('a \<Rightarrow> 'a \<Rightarrow> bool) \<Rightarrow> nat \<Rightarrow> 'a list \<Rightarrow> 'a list" where
  "sink lt 0 xs = xs"
| "sink lt (Suc j) xs =
     (if lt (xs ! Suc j) (xs ! j) then sink lt j (xs[j := xs ! Suc j, Suc j := xs ! j]) else xs)"

definition insertion_sort :: "('a \<Rightarrow> 'a \<Rightarrow> bool) \<Rightarrow> 'a list \<Rightarrow> 'a list" where
  "insertion_sort lt xs = fold (sink lt) [1..<length xs] xs"

definition sort_buckets :: "'f fops \<Rightarrow> 'f Snapshot \<Rightarrow> 'f Snapshot" where
  "sort_buckets F snap =
     snap\<lparr>sn_DurationHist := (sn_DurationHist snap)\<lparr>hs_Buckets :=
       insertion_sort (\<lambda>a b. fo_less F (hb_UpperBound a) (hb_UpperBound b)) (hs_Buckets (sn_DurationHist snap))\<rparr>\<rparr>"

definition ParseSnapshot :: "'f fops \<Rightarrow> string \<Rightarrow> ('f Snapshot \<times> goerror option) go" where
  "ParseSnapshot F raw =
     (case scan_lines scanner_max (raw_lines raw) of
        ScanOK ls \<Rightarrow>
          (case snap_loop F ls (empty_snapshot F) of
             Panic p \<Rightarrow> Panic p
           | Ret (snap, Some e) \<Rightarrow> Ret (snap, Some e)
           | Ret (snap, None) \<Rightarrow> Ret (sort_buckets F snap, None))
      | ScanTooLong ls \<Rightarrow>
          (case snap_loop F ls (empty_snapshot F) of
             Panic p \<Rightarrow> Panic p
           | Ret (snap, Some e) \<Rightarrow> Ret (snap, Some e)
           | Ret (snap, None) \<Rightarrow> Ret (snap, Some (ErrNew ''bufio.Scanner: token too long''))))"

text \<open>\<open>get\<close> is the HTTP client: an error, or the status and the body with the error that ends
  reading it.\<close>

definition FetchSnapshot :: "'f fops \<Rightarrow> (string \<Rightarrow> goerror + int \<times> (goerror + string)) \<Rightarrow> string
    \<Rightarrow> ('f Snapshot \<times> string option \<times> goerror option) go" where
  "FetchSnapshot F get baseURL =
     (case get (baseURL @ ''/metrics'') of
        Inl e \<Rightarrow> Ret (empty_snapshot F, None, Some e)
      | Inr (status, Inl e) \<Rightarrow> Ret (empty_snapshot F, None, Some e)
      | Inr (status, Inr body) \<Rightarrow>
          if status \<noteq> 200 then Ret (empty_snapshot F, Some body, Some (ErrNew (''metrics status '' @ Itoa status)))
          else (case ParseSnapshot F body of
              Panic p \<Rightarrow> Panic p
            | Ret (snap, err) \<Rightarrow> Ret (snap, Some body, err)))"

section \<open>Differences\<close>

fun diff_counts :: "counts \<Rightarrow> counts \<Rightarrow> counts \<times> int \<Rightarrow> counts \<times> int" where
  "diff_counts before [] acc = acc"
| "diff_counts before ((k, v) # after) (q, t) =
     (let d = wrap64 (v - counts_get before k) in
      diff_counts before after (AList.update k d q, wrap64 (t + d)))"

definition diffHistogram :: "'f fops \<Rightarrow> 'f HistogramSnapshot \<Rightarrow> 'f HistogramSnapshot \<Rightarrow> 'f HistogramSnapshot" where
  "diffHistogram F before after =
     \<lparr>hs_Buckets =
        (if length (hs_Buckets before) \<noteq> length (hs_Buckets after) then hs_Buckets after
         else map2 (\<lambda>a b. \<lparr>hb_UpperBound = hb_UpperBound a, hb_Count = wrap64 (hb_Count a - hb_Count b)\<rparr>)
                (hs_Buckets after) (hs_Buckets before)),
      hs_Sum = fo_sub F (hs_Sum after) (hs_Sum before),
      hs_Count = wrap64 (hs_Count after - hs_Count before)\<rparr>"

definition Diff :: "'f fops \<Rightarrow> 'f Snapshot \<Rightarrow> 'f Snapshot \<Rightarrow> 'f MetricsDiff" where
  "Diff F before after =
     (case diff_counts (sn_QueriesByOutcome before) (sn_QueriesByOutcome after) ([], 0) of
        (q, t) \<Rightarrow>
          \<lparr>md_QueriesByOutcome = q, md_TotalQueries = t,
           md_UpstreamQueries = wrap64 (sn_UpstreamQueries after - sn_UpstreamQueries before),
           md_CoalescedQueries = wrap64 (sn_CoalescedQueries after - sn_CoalescedQueries before),
           md_CacheEvictions = wrap64 (sn_CacheEvictions after - sn_CacheEvictions before),
           md_Panics = wrap64 (sn_Panics after - sn_Panics before),
           md_DurationHist = diffHistogram F (sn_DurationHist before) (sn_DurationHist after)\<rparr>)"

section \<open>The sort is a stable sort\<close>

text \<open>Insertion into the reversed prefix.\<close>

fun insr :: "('a \<Rightarrow> 'a \<Rightarrow> bool) \<Rightarrow> 'a \<Rightarrow> 'a list \<Rightarrow> 'a list" where
  "insr lt x [] = [x]"
| "insr lt x (y # ys) = (if lt x y then y # insr lt x ys else x # y # ys)"

lemma sink_insr: "sink lt (length ys) (ys @ x # zs) = rev (insr lt x (rev ys)) @ zs"
proof (induction ys arbitrary: zs rule: rev_induct)
  case (snoc y ys)
  have "(ys @ [y] @ x # zs)[length ys := x, Suc (length ys) := y] = ys @ x # y # zs"
    by (simp add: list_update_append)
  then show ?case using snoc.IH [of "y # zs"] by (simp add: nth_append)
qed simp

lemma insr_perm: "mset (insr lt x ys) = add_mset x (mset ys)"
  by (induction ys) auto

lemma insr_set: "set (insr lt x ys) = insert x (set ys)"
  by (induction ys) auto

lemma insr_sorted:
  assumes "\<forall>y \<in> set ys. lt x y \<longleftrightarrow> k x < k y" and "sorted_wrt (\<lambda>a b. k b \<le> k a) ys"
  shows "sorted_wrt (\<lambda>a b. (k b :: 'k::linorder) \<le> k a) (insr lt x ys)"
  using assms by (induction ys) (auto simp: insr_set not_less intro: order_trans)

lemma insr_stable:
  assumes "\<forall>y \<in> set ys. lt x y \<longleftrightarrow> k x < (k y :: 'k::linorder)"
  shows "filter (\<lambda>z. c = k z) (insr lt x ys) = filter (\<lambda>z. c = k z) (x # ys)"
  using assms by (induction ys) auto

lemma sorted_rev_key: "sorted (map k (rev ys)) \<longleftrightarrow> sorted_wrt (\<lambda>a b. (k b :: 'k::linorder) \<le> k a) ys"
  by (simp add: sorted_map sorted_wrt_rev)

lemma sort_key_stable': "filter (\<lambda>x. c = k x) (sort_key k xs) = filter (\<lambda>x. c = k x) xs"
  using sort_key_stable [of k c xs] by (simp add: eq_commute)

lemma insertion_prefix:
  assumes key: "\<forall>a \<in> set xs. \<forall>b \<in> set xs. lt a b \<longleftrightarrow> k a < (k b :: 'k::linorder)"
    and "1 \<le> n" "n \<le> length xs"
  shows "fold (sink lt) [1..<n] xs = sort_key k (take n xs) @ drop n xs"
  using assms(2,3)
proof (induction n rule: nat_induct_at_least)
  case base
  then show ?case by (cases xs) auto
next
  case (Suc n)
  let ?p = "sort_key k (take n xs)" and ?x = "xs ! n"
  have d: "drop n xs = ?x # drop (Suc n) xs" using Suc.prems by (simp add: Cons_nth_drop_Suc)
  have len: "length ?p = n" using Suc.prems by simp
  have "fold (sink lt) [1..<Suc n] xs = sink lt n (?p @ ?x # drop (Suc n) xs)"
    using Suc.IH Suc.prems Suc.hyps d by simp
  also have "\<dots> = rev (insr lt ?x (rev ?p)) @ drop (Suc n) xs"
    using sink_insr [of lt ?p ?x "drop (Suc n) xs"] len by simp
  also have "rev (insr lt ?x (rev ?p)) = sort_key k (take (Suc n) xs)"
  proof (rule sym, rule properties_for_sort_key)
    have t: "take (Suc n) xs = take n xs @ [?x]" using Suc.prems by (simp add: take_Suc_conv_app_nth)
    have lt: "\<forall>y \<in> set (rev ?p). lt ?x y \<longleftrightarrow> k ?x < k y"
      using key Suc.prems by (auto dest: in_set_takeD)
    show "mset (rev (insr lt ?x (rev ?p))) = mset (take (Suc n) xs)" by (simp add: insr_perm t)
    show "sorted (map k (rev (insr lt ?x (rev ?p))))"
      unfolding sorted_rev_key using insr_sorted [of "rev ?p" lt ?x k, OF lt] sorted_rev_key [of k "rev ?p"] by simp
    show "filter (\<lambda>x. k c = k x) (rev (insr lt ?x (rev ?p))) = filter (\<lambda>x. k c = k x) (take (Suc n) xs)" for c
      by (simp add: rev_filter [symmetric] insr_stable [of "rev ?p" lt ?x k, OF lt] t sort_key_stable')
  qed
  finally show ?case .
qed

lemma insertion_sort_eq:
  assumes "\<forall>a \<in> set xs. \<forall>b \<in> set xs. lt a b \<longleftrightarrow> k a < (k b :: 'k::linorder)"
  shows "insertion_sort lt xs = sort_key k xs"
proof (cases "xs = []")
  case False
  then show ?thesis using insertion_prefix [OF assms, of "length xs"] by (simp add: insertion_sort_def Suc_le_eq)
qed (simp add: insertion_sort_def)

section \<open>Printing a page\<close>

text \<open>A series of a metrics page: its name, its labels and the text of its value.\<close>

record series =
  sr_name :: string
  sr_labels :: "(string \<times> string) list"
  sr_value :: string

definition print_label :: "string \<times> string \<Rightarrow> string" where
  "print_label l = (case l of (k, v) \<Rightarrow> k @ CHR ''='' # CHR 34 # v @ [CHR 34])"

definition print_series :: "series \<Rightarrow> string" where
  "print_series s =
     (if sr_labels s = [] then sr_name s
      else sr_name s @ CHR ''{'' # join_on (CHR '','') (map print_label (sr_labels s)) @ ''}'')
     @ CHR '' '' # sr_value s"

definition plain_char :: "char \<Rightarrow> bool" where
  "plain_char c \<longleftrightarrow> graphic c \<and> c \<notin> {CHR ''{'', CHR ''}'', CHR ''='', CHR '','', CHR 34, CHR ''#''}"

definition label_char :: "char \<Rightarrow> bool" where
  "label_char c \<longleftrightarrow> (c = CHR '' '' \<or> graphic c) \<and> c \<notin> {CHR ''{'', CHR ''}'', CHR 34}"

definition plain :: "string \<Rightarrow> bool" where
  "plain s \<longleftrightarrow> s \<noteq> [] \<and> list_all plain_char s"

definition series_ok :: "series \<Rightarrow> bool" where
  "series_ok s \<longleftrightarrow> plain (sr_name s) \<and> plain (sr_value s)
     \<and> (\<forall>(k, v) \<in> set (sr_labels s). plain k \<and> list_all label_char v)"

lemma split_quoted:
  "CHR 34 \<notin> set v \<Longrightarrow> split_labels True cur (v @ CHR 34 # rest) = split_labels False (cur @ v @ [CHR 34]) rest"
  by (induction v arbitrary: cur) auto

lemma split_plain:
  "CHR 34 \<notin> set k \<Longrightarrow> CHR '','' \<notin> set k \<Longrightarrow> split_labels False cur (k @ rest) = split_labels False (cur @ k) rest"
  by (induction k arbitrary: cur) auto

lemma split_label:
  assumes "plain k" "list_all label_char v"
  shows "split_labels False cur (print_label (k, v) @ rest) = split_labels False (cur @ print_label (k, v)) rest"
proof -
  have "CHR 34 \<notin> set k" "CHR '','' \<notin> set k" "CHR 34 \<notin> set v"
    using assms by (auto simp: plain_def plain_char_def label_char_def list_all_iff)
  then show ?thesis using split_plain [of k cur] by (simp add: print_label_def split_quoted)
qed

lemma splitLabels_join:
  assumes "\<forall>(k, v) \<in> set ls. plain k \<and> list_all label_char v"
  shows "splitLabels (join_on (CHR '','') (map print_label ls)) = map print_label ls"
  using assms unfolding splitLabels_def
proof (induction ls)
  case (Cons l ls)
  obtain k v where l: "l = (k, v)" by fastforce
  have kv: "plain k" "list_all label_char v" using Cons.prems l by auto
  have ne: "print_label (k, v) \<noteq> []" by (simp add: print_label_def)
  show ?case
  proof (cases ls)
    case Nil
    then show ?thesis using split_label [OF kv, of "[]" "[]"] ne l by simp
  next
    case (Cons l' ls')
    then have "split_labels False [] (join_on (CHR '','') (map print_label ls)) = map print_label ls"
      using Cons.IH Cons.prems by simp
    then show ?thesis using split_label [OF kv, of "[]"] Cons l by simp
  qed
qed simp

lemma plain_graphic: "plain s \<Longrightarrow> list_all graphic s"
  by (auto simp: plain_def plain_char_def list_all_iff)

lemma quote_graphic: "graphic (CHR 34)"
  by (simp add: graphic_def)

lemma TrimSpace_quoted: "TrimSpace (CHR 34 # v @ [CHR 34]) = CHR 34 # v @ [CHR 34]"
  using TrimLeftSpace_graphic [OF quote_graphic, of "v @ [CHR 34]"]
    TrimRightSpace_graphic [OF quote_graphic, of "CHR 34 # v"]
  by (simp add: TrimSpace_def)

lemma Trim_quoted:
  assumes "CHR 34 \<notin> set v"
  shows "Trim_byte (CHR 34 # v @ [CHR 34]) (CHR 34) = v"
proof -
  have d: "dropWhile (\<lambda>c. c = CHR 34) (v @ [CHR 34]) = (if v = [] then [] else v @ [CHR 34])"
    using assms by (cases v) auto
  have "dropWhile (\<lambda>c. c = CHR 34) (rev v) = rev v" using assms by (cases v rule: rev_cases) auto
  then show ?thesis by (simp add: Trim_byte_def d)
qed

definition put_label :: "string \<times> string \<Rightarrow> (string \<rightharpoonup> string) \<Rightarrow> (string \<rightharpoonup> string)" where
  "put_label l m = m(fst l \<mapsto> snd l)"

lemma put_label_pair: "put_label (k, v) m = m(k \<mapsto> v)"
  by (simp add: put_label_def)

lemma put_labels_print:
  assumes "\<forall>(k, v) \<in> set ls. plain k \<and> list_all label_char v"
  shows "put_labels (map print_label ls) m = fold put_label ls m"
  using assms
proof (induction ls arbitrary: m)
  case (Cons l ls)
  obtain k v where l: "l = (k, v)" by fastforce
  have kv: "plain k" "list_all label_char v" using Cons.prems l by auto
  have "CHR ''='' \<notin> set k" "CHR 34 \<notin> set v"
    using kv by (auto simp: plain_def plain_char_def label_char_def list_all_iff)
  then show ?case
    using Cons l TrimSpace_graphic [OF plain_graphic [OF kv(1)]]
    by (simp add: print_label_def IndexByte_append TrimSpace_quoted Trim_quoted put_label_pair)
qed simp

text \<open>The labels of a series as the parser sees them.\<close>

definition labels_of :: "series \<Rightarrow> (string \<rightharpoonup> string)" where
  "labels_of s = fold put_label (sr_labels s) Map.empty"

lemma set_print_labels:
  assumes "\<forall>(k, v) \<in> set ls. plain k \<and> list_all label_char v"
    and "c \<in> set (join_on (CHR '','') (map print_label ls))"
  shows "(c = CHR '' '' \<or> graphic c) \<and> c \<noteq> CHR ''{'' \<and> c \<noteq> CHR ''}''"
proof -
  have "c = CHR '','' \<or> (\<exists>l \<in> set ls. c \<in> set (print_label l))"
    using set_join_on [of "CHR '',''" "map print_label ls"] assms(2) by auto
  moreover have "graphic (CHR '','')" "graphic (CHR ''='')" "graphic (CHR 34)"
    by (simp_all add: graphic_def)
  ultimately show ?thesis
    using assms(1) by (fastforce simp: print_label_def plain_def plain_char_def label_char_def list_all_iff)
qed

lemma drop_prefix: "l = p @ x \<Longrightarrow> n = length p \<Longrightarrow> drop n l = x"
  by simp

lemma parsePromLine_print:
  assumes ok: "series_ok s" and v: "fo_Parse F (sr_value s) = Inr v"
  shows "parsePromLine F (print_series s) = Ret (Inr (sr_name s, labels_of s, v))"
proof -
  let ?n = "sr_name s" and ?j = "join_on (CHR '','') (map print_label (sr_labels s))"
  have ls: "\<forall>(k, v) \<in> set (sr_labels s). plain k \<and> list_all label_char v" using ok by (simp add: series_ok_def)
  have sp: "CHR '' '' \<notin> set (sr_value s)" and n: "CHR ''{'' \<notin> set ?n" "CHR ''}'' \<notin> set ?n"
    and val: "CHR ''{'' \<notin> set (sr_value s)"
  proof -
    have "\<not> plain_char c" if "c \<in> {CHR '' '', CHR ''{'', CHR ''}''}" for c
      using that by (auto simp: plain_char_def graphic_def)
    then show "CHR '' '' \<notin> set (sr_value s)" "CHR ''{'' \<notin> set ?n" "CHR ''}'' \<notin> set ?n"
      "CHR ''{'' \<notin> set (sr_value s)"
      using ok unfolding series_ok_def plain_def list_all_iff by blast+
  qed
  show ?thesis
  proof (cases "sr_labels s = []")
    case True
    have "IndexByte (?n @ CHR '' '' # sr_value s) (CHR ''{'') = None"
      using n val by (simp add: IndexByte_None)
    then show ?thesis
      using v LastIndexByte_snoc [OF sp, of ?n] by (simp add: parsePromLine_def print_series_def True labels_of_def)
  next
    case False
    let ?l = "?n @ CHR ''{'' # ?j @ CHR ''}'' # CHR '' '' # sr_value s"
    have "CHR ''}'' \<notin> set (?n @ CHR ''{'' # ?j)" using n set_print_labels [OF ls] by auto
    then have "IndexByte ?l (CHR ''}'') = Some (length ?n + Suc (length ?j))"
      using IndexByte_append [of "CHR ''}''" "?n @ CHR ''{'' # ?j"] by simp
    moreover have "IndexByte ?l (CHR ''{'') = Some (length ?n)" using n by (simp add: IndexByte_append)
    moreover have "LastIndexByte ?l (CHR '' '') = Some (length ?n + Suc (Suc (length ?j)))"
      using LastIndexByte_snoc [OF sp, of "?n @ CHR ''{'' # ?j @ ''}''"] by simp
    moreover have "print_series s = ?l" using False by (simp add: print_series_def)
    moreover have "drop (length ?n + Suc (Suc (length ?j)) + 1) ?l = sr_value s"
      by (rule drop_prefix [of _ "?n @ CHR ''{'' # ?j @ ''} ''"]) simp_all
    moreover have "take (length ?n + Suc (length ?j) - (length ?n + 1)) (drop (length ?n + 1) ?l) = ?j"
      "take (length ?n) ?l = ?n" by simp_all
    ultimately show ?thesis
      using v splitLabels_join [OF ls] put_labels_print [OF ls]
      by (simp add: parsePromLine_def labels_of_def del: add_Suc_right drop_append take_append)
  qed
qed

lemma print_series_ends:
  assumes "series_ok s"
  shows "TrimSpace (print_series s) = print_series s" and "print_series s \<noteq> []"
    and "\<not> prefix ''#'' (print_series s)" and "newline \<notin> set (print_series s)"
    and "drop_cr (print_series s) = print_series s"
proof -
  obtain a n where n: "sr_name s = a # n" "graphic a" "a \<noteq> CHR ''#''"
    using assms by (cases "sr_name s") (auto simp: series_ok_def plain_def plain_char_def)
  obtain v b where v: "sr_value s = v @ [b]" "graphic b"
    using assms by (cases "sr_value s" rule: rev_cases) (auto simp: series_ok_def plain_def plain_char_def)
  obtain m where m: "print_series s = a # m @ [b]"
    using n v by (cases "sr_labels s = []") (auto simp: print_series_def)
  show "TrimSpace (print_series s) = print_series s"
    using TrimLeftSpace_graphic [OF n(2), of "m @ [b]"] TrimRightSpace_graphic [OF v(2), of "a # m"]
    by (simp add: TrimSpace_def m)
  show "print_series s \<noteq> []" "\<not> prefix ''#'' (print_series s)" using n(3) by (simp_all add: m)
  have "c = CHR '' '' \<or> graphic c" if "c \<in> set (print_series s)" for c
  proof -
    have "graphic (CHR ''{'')" "graphic (CHR ''}'')" by (simp_all add: graphic_def)
    then show ?thesis
      using that assms set_print_labels [of "sr_labels s" c]
      by (auto simp: print_series_def series_ok_def plain_def plain_char_def list_all_iff split: if_splits)
  qed
  moreover have "newline \<noteq> CHR '' ''" "\<not> graphic newline" by (simp_all add: newline_def graphic_def char_eval)
  ultimately show "newline \<notin> set (print_series s)" by blast
  show "drop_cr (print_series s) = print_series s"
    using v(2) graphic_no_control [of b] by (auto simp: drop_cr_def TrimSuffix_def suffix_def m)
qed

section \<open>What a snapshot holds\<close>

text \<open>The series of one counter, and those with a given outcome, added up in 64 bits.\<close>

definition series_value :: "'f fops \<Rightarrow> series \<Rightarrow> int" where
  "series_value F s = (case fo_Parse F (sr_value s) of Inl _ \<Rightarrow> 0 | Inr v \<Rightarrow> fo_int64 F v)"

definition total :: "'f fops \<Rightarrow> (series \<Rightarrow> bool) \<Rightarrow> series list \<Rightarrow> int" where
  "total F P page = wrap64 (\<Sum>s\<leftarrow>filter P page. series_value F s)"

definition of_outcome :: "string \<Rightarrow> series \<Rightarrow> bool" where
  "of_outcome outc s \<longleftrightarrow> sr_name s = ''bns_queries_total'' \<and> label_get (labels_of s) ''outcome'' = outc"

definition readable :: "'f fops \<Rightarrow> series \<Rightarrow> bool" where
  "readable F s \<longleftrightarrow> series_ok s \<and> length (print_series s) < scanner_max
     \<and> (\<exists>v. fo_Parse F (sr_value s) = Inr v)
     \<and> (sr_name s = ''bns_query_duration_seconds_bucket'' \<longrightarrow>
          (\<exists>b. parseLE F (label_get (labels_of s) ''le'') = Inr b))"

lemma wrap64_add: "wrap64 (wrap64 a + b) = wrap64 (a + b)"
  unfolding wrap64_def by (simp add: mod_simps algebra_simps)

text \<open>The counters of a snapshot after the lines of a page, relative to those before.\<close>

definition adds :: "'f fops \<Rightarrow> series list \<Rightarrow> 'f Snapshot \<Rightarrow> 'f Snapshot \<Rightarrow> bool" where
  "adds F page a b \<longleftrightarrow>
     (let plus = (\<lambda>x P. wrap64 (x + (\<Sum>s\<leftarrow>filter P page. series_value F s))) in
      (\<forall>outc. outc \<noteq> [] \<longrightarrow> wrap64 (counts_get (sn_QueriesByOutcome b) outc)
         = plus (counts_get (sn_QueriesByOutcome a) outc) (of_outcome outc))
      \<and> wrap64 (sn_UpstreamQueries b) = plus (sn_UpstreamQueries a) (\<lambda>s. sr_name s = ''bns_upstream_queries_total'')
      \<and> wrap64 (sn_CoalescedQueries b) = plus (sn_CoalescedQueries a) (\<lambda>s. sr_name s = ''bns_coalesced_queries_total'')
      \<and> wrap64 (sn_CacheEvictions b) = plus (sn_CacheEvictions a) (\<lambda>s. sr_name s = ''bns_cache_evictions_total'')
      \<and> wrap64 (sn_Panics b) = plus (sn_Panics a) (\<lambda>s. sr_name s = ''bns_panics_total''))"

lemma counts_get_update: "counts_get (AList.update k v m) k' = (if k' = k then v else counts_get m k')"
  by (simp add: counts_get_def update_conv')

lemma adds_trans: "adds F p a b \<Longrightarrow> adds F q b c \<Longrightarrow> adds F (p @ q) a c"
  unfolding adds_def Let_def by (metis (no_types, lifting) add.assoc filter_append map_append sum_list_append wrap64_add)

definition in_range :: "'f Snapshot \<Rightarrow> bool" where
  "in_range a \<longleftrightarrow> (\<forall>outc. wrap64 (counts_get (sn_QueriesByOutcome a) outc) = counts_get (sn_QueriesByOutcome a) outc)
     \<and> wrap64 (sn_UpstreamQueries a) = sn_UpstreamQueries a \<and> wrap64 (sn_CoalescedQueries a) = sn_CoalescedQueries a
     \<and> wrap64 (sn_CacheEvictions a) = sn_CacheEvictions a \<and> wrap64 (sn_Panics a) = sn_Panics a"

lemma wrap64_idem: "wrap64 (wrap64 a) = wrap64 a"
  using wrap64_add [of a 0] by simp

lemma snap_add_adds:
  assumes r: "readable F s" and v: "fo_Parse F (sr_value s) = Inr v"
    and a: "snap_add F (sr_name s) (labels_of s) v a = (b, err)"
  shows "err = None \<and> adds F [s] a b \<and> (in_range a \<longrightarrow> in_range b)"
proof -
  have val: "series_value F s = fo_int64 F v" by (simp add: series_value_def v)
  obtain x where x: "parseLE F (label_get (labels_of s) ''le'') = Inr x"
    if "sr_name s = ''bns_query_duration_seconds_bucket''" using r by (auto simp: readable_def)
  show ?thesis
    using a unfolding snap_add_def Let_def
    by (auto simp: adds_def in_range_def val counts_get_update wrap64_idem of_outcome_def x split: if_splits)
qed

lemma snap_loop_adds:
  assumes "\<forall>s \<in> set page. readable F s"
  shows "\<exists>b. snap_loop F (map print_series page) a = Ret (b, None) \<and> adds F page a b \<and> (in_range a \<longrightarrow> in_range b)"
  using assms
proof (induction page arbitrary: a)
  case Nil
  then show ?case by (simp add: adds_def)
next
  case (Cons s page)
  have r: "readable F s" and ok: "series_ok s" using Cons.prems by (simp_all add: readable_def)
  obtain v where v: "fo_Parse F (sr_value s) = Inr v" using r by (auto simp: readable_def)
  obtain b err where b: "snap_add F (sr_name s) (labels_of s) v a = (b, err)" by fastforce
  note eff = snap_add_adds [OF r v b]
  obtain c where c: "snap_loop F (map print_series page) b = Ret (c, None)" "adds F page b c" "in_range b \<longrightarrow> in_range c"
    using Cons.IH Cons.prems by auto
  have "snap_loop F (map print_series (s # page)) a = Ret (c, None)"
    using eff b c print_series_ends [OF ok] by (simp add: parsePromLine_print [OF ok v])
  then show ?case using adds_trans [of F "[s]" a b page c] eff c by auto
qed

lemma empty_in_range: "in_range (empty_snapshot F)"
  by (simp add: in_range_def empty_snapshot_def counts_get_def wrap64_def)

lemma adds_empty:
  assumes "adds F page (empty_snapshot F) b" and "in_range b"
  shows "outc \<noteq> [] \<Longrightarrow> counts_get (sn_QueriesByOutcome b) outc = total F (of_outcome outc) page"
    and "sn_UpstreamQueries b = total F (\<lambda>s. sr_name s = ''bns_upstream_queries_total'') page"
    and "sn_CoalescedQueries b = total F (\<lambda>s. sr_name s = ''bns_coalesced_queries_total'') page"
    and "sn_CacheEvictions b = total F (\<lambda>s. sr_name s = ''bns_cache_evictions_total'') page"
    and "sn_Panics b = total F (\<lambda>s. sr_name s = ''bns_panics_total'') page"
  using assms by (simp_all add: adds_def in_range_def empty_snapshot_def total_def Let_def counts_get_def)

lemma page_lines:
  assumes "\<forall>s \<in> set page. readable F s"
  shows "scan_lines scanner_max (raw_lines (print_list (map print_series page))) = ScanOK (map print_series page)"
proof -
  have "raw_lines (print_list (map print_series page)) = map print_series page"
    by (rule raw_lines_print) (use assms print_series_ends(4) in \<open>auto simp: readable_def\<close>)
  moreover have "map drop_cr (map print_series page) = map print_series page"
    using assms print_series_ends(5) by (auto simp: readable_def)
  ultimately show ?thesis
    using scan_lines_short [of "map print_series page" scanner_max] assms by (auto simp: readable_def)
qed

lemma sort_buckets_sel [simp]:
  "sn_QueriesByOutcome (sort_buckets F b) = sn_QueriesByOutcome b" "sn_UpstreamQueries (sort_buckets F b) = sn_UpstreamQueries b"
  "sn_CoalescedQueries (sort_buckets F b) = sn_CoalescedQueries b" "sn_CacheEvictions (sort_buckets F b) = sn_CacheEvictions b"
  "sn_Panics (sort_buckets F b) = sn_Panics b"
  by (simp_all add: sort_buckets_def)

lemma diff_counts_sum:
  assumes "\<forall>(k, v) \<in> set after. counts_get before k \<le> v \<and> 0 \<le> counts_get before k"
    and "0 \<le> t" "t + (\<Sum>(k, v)\<leftarrow>after. v - counts_get before k) \<le> max_i64"
  shows "snd (diff_counts before after (q, t)) = t + (\<Sum>(k, v)\<leftarrow>after. v - counts_get before k)"
  using assms
proof (induction after arbitrary: q t)
  case (Cons kv after)
  obtain k v where kv: "kv = (k, v)" by fastforce
  let ?d = "v - counts_get before k" and ?r = "\<Sum>(k, v)\<leftarrow>after. v - counts_get before k"
  have d: "0 \<le> ?d" using Cons.prems(1) kv by auto
  have r: "0 \<le> ?r" by (rule sum_list_nonneg) (use Cons.prems(1) in auto)
  have b: "t + ?d + ?r \<le> max_i64" using Cons.prems(3) kv by (simp add: algebra_simps)
  have "min_i64 \<le> 0" by (simp add: min_i64_def)
  then have w: "wrap64 ?d = ?d" "wrap64 (t + ?d) = t + ?d"
    using d r b Cons.prems(2) by (auto intro!: wrap64_id)
  have "diff_counts before (kv # after) (q, t) = diff_counts before after (AList.update k ?d q, t + ?d)"
    using w kv by (simp add: Let_def)
  moreover have "snd (diff_counts before after (AList.update k ?d q, t + ?d)) = t + ?d + ?r"
    by (rule Cons.IH) (use Cons.prems(1,2) b d in auto)
  ultimately show ?case using kv by simp
qed simp

text \<open>The counters by outcome are a map, and their difference is taken outcome by outcome.\<close>

lemma snap_add_distinct:
  "snap_add F name labels v snap = (snap', e) \<Longrightarrow> distinct (map fst (sn_QueriesByOutcome snap)) \<Longrightarrow>
     distinct (map fst (sn_QueriesByOutcome snap'))"
  by (auto simp: snap_add_def Let_def distinct_update split: if_splits sum.splits)

lemma snap_loop_distinct:
  "snap_loop F ls snap = Ret (snap', e) \<Longrightarrow> distinct (map fst (sn_QueriesByOutcome snap)) \<Longrightarrow>
     distinct (map fst (sn_QueriesByOutcome snap'))"
  by (induction ls arbitrary: snap)
    (auto simp: Let_def split: if_splits go.splits sum.splits prod.splits option.splits dest: snap_add_distinct)

lemma FetchSnapshot_distinct:
  assumes "FetchSnapshot F get url = Ret (snap, raw, None)"
  shows "distinct (map fst (sn_QueriesByOutcome snap))"
proof -
  obtain body where p: "ParseSnapshot F body = Ret (snap, None)"
    using assms by (auto simp: FetchSnapshot_def split: sum.splits if_splits go.splits)
  then obtain ls s where "snap_loop F ls (empty_snapshot F) = Ret (s, None)" "snap = sort_buckets F s"
    by (auto simp: ParseSnapshot_def split: scan.splits go.splits option.splits prod.splits)
  then show ?thesis using snap_loop_distinct by (fastforce simp: sort_buckets_def empty_snapshot_def)
qed

lemma diff_counts_map:
  "distinct (map fst after) \<Longrightarrow> map_of (fst (diff_counts before after (q, t))) k =
     (case map_of after k of Some v \<Rightarrow> Some (wrap64 (v - counts_get before k)) | None \<Rightarrow> map_of q k)"
proof (induction after arbitrary: q t)
  case (Cons kv after)
  obtain k' v where kv: "kv = (k', v)" by fastforce
  have "map_of after k' = None" using Cons.prems kv by (simp add: map_of_eq_None_iff)
  then show ?case using Cons by (auto simp: kv Let_def update_conv' split: option.split)
qed simp

section \<open>Properties\<close>

text \<open>What the harness reads from a metrics page is what the page says: for a page of readable
  series (names and labels without the separators, values the number parser accepts, lines within
  the scanner's limit) the parse succeeds, and each counter of the snapshot is the 64-bit sum of
  its series, the query counter separately for each outcome over all query types.\<close>

theorem scrape_reads_counters:
  assumes "\<forall>s \<in> set page. readable F s"
  shows "\<exists>snap. ParseSnapshot F (print_list (map print_series page)) = Ret (snap, None)
    \<and> (\<forall>outc. outc \<noteq> [] \<longrightarrow> counts_get (sn_QueriesByOutcome snap) outc = total F (of_outcome outc) page)
    \<and> sn_UpstreamQueries snap = total F (\<lambda>s. sr_name s = ''bns_upstream_queries_total'') page
    \<and> sn_CoalescedQueries snap = total F (\<lambda>s. sr_name s = ''bns_coalesced_queries_total'') page
    \<and> sn_CacheEvictions snap = total F (\<lambda>s. sr_name s = ''bns_cache_evictions_total'') page
    \<and> sn_Panics snap = total F (\<lambda>s. sr_name s = ''bns_panics_total'') page"
proof -
  obtain b where b: "snap_loop F (map print_series page) (empty_snapshot F) = Ret (b, None)"
    "adds F page (empty_snapshot F) b" "in_range b"
    using snap_loop_adds [OF assms] empty_in_range by blast
  have "ParseSnapshot F (print_list (map print_series page)) = Ret (sort_buckets F b, None)"
    by (simp add: ParseSnapshot_def page_lines [OF assms] b(1))
  then show ?thesis using adds_empty [OF b(2,3)] by simp
qed

text \<open>Whole numbers in place of floating point ones.\<close>

definition int_fops :: "int fops" where
  "int_fops = \<lparr>fo_Parse = (\<lambda>s. case Atoi s of None \<Rightarrow> Inl (ErrNew ''invalid syntax'') | Some n \<Rightarrow> Inr n),
     fo_int64 = id, fo_less = (<), fo_sub = (-), fo_zero = 0, fo_Inf = max_i64\<rparr>"

definition sample_series :: "string \<Rightarrow> string \<Rightarrow> string \<Rightarrow> series" where
  "sample_series outc qtype n = \<lparr>sr_name = ''bns_queries_total'',
     sr_labels = [(''outcome'', outc), (''qtype'', qtype)], sr_value = n\<rparr>"

lemma sample_readable:
  "readable int_fops (sample_series ''blocked'' ''A'' ''7'')" "readable int_fops (sample_series ''blocked'' ''MX'' ''5'')"
  by (simp_all add: readable_def series_ok_def sample_series_def plain_def plain_char_def label_char_def graphic_def
      int_fops_def Atoi_def is_digits_def is_digit_def Let_def digits_value_def char_eval min_i64_def max_i64_def
      print_series_def print_label_def scanner_max_def)

theorem scrape_reads_counters_witness:
  "\<exists>snap. ParseSnapshot int_fops (print_list (map print_series
       [sample_series ''blocked'' ''A'' ''7'', sample_series ''blocked'' ''MX'' ''5''])) = Ret (snap, None)
     \<and> counts_get (sn_QueriesByOutcome snap) ''blocked'' = 12"
proof -
  let ?p = "[sample_series ''blocked'' ''A'' ''7'', sample_series ''blocked'' ''MX'' ''5'']"
  have "total int_fops (of_outcome ''blocked'') ?p = 12"
    by (simp add: total_def of_outcome_def sample_series_def labels_of_def put_label_def label_get_def series_value_def
        int_fops_def Atoi_def is_digits_def is_digit_def Let_def digits_value_def char_eval min_i64_def max_i64_def wrap64_def)
  then show ?thesis using scrape_reads_counters [of ?p int_fops] sample_readable by auto
qed

text \<open>The histogram buckets of a snapshot are put in order of their bounds by the hand-written
  insertion sort exactly as a stable sort would: whenever the bounds compare like the elements of
  a linear order (that is, none is NaN), the result is the sorted permutation in which equal
  bounds keep their order.\<close>

theorem bucket_sort_is_stable_sort:
  assumes "\<forall>a \<in> set bs. \<forall>b \<in> set bs. fo_less F (hb_UpperBound a) (hb_UpperBound b) \<longleftrightarrow>
      key (hb_UpperBound a) < (key (hb_UpperBound b) :: 'k::linorder)"
    and "hs_Buckets (sn_DurationHist snap) = bs"
  shows "hs_Buckets (sn_DurationHist (sort_buckets F snap)) = sort_key (key \<circ> hb_UpperBound) bs"
  using insertion_sort_eq [of bs "\<lambda>a b. fo_less F (hb_UpperBound a) (hb_UpperBound b)" "key \<circ> hb_UpperBound"] assms
  by (simp add: sort_buckets_def)

theorem bucket_sort_is_stable_sort_witness:
  "map hb_UpperBound (hs_Buckets (sn_DurationHist (sort_buckets int_fops ((empty_snapshot int_fops)
     \<lparr>sn_DurationHist := (empty_hist int_fops)\<lparr>hs_Buckets := [\<lparr>hb_UpperBound = 5, hb_Count = 9\<rparr>,
        \<lparr>hb_UpperBound = 1, hb_Count = 2\<rparr>]\<rparr>\<rparr>)))) = [1, 5]"
  by (subst bucket_sort_is_stable_sort [where key = id]) (auto simp: int_fops_def)

text \<open>The difference of two snapshots counts the queries between them: when no query counter went
  down and the total fits 64 bits, the reported total is the sum over the outcomes of the growth
  of each counter, an outcome missing before counting as zero.\<close>

theorem Diff_counts_growth:
  assumes "\<forall>(k, v) \<in> set (sn_QueriesByOutcome after).
      counts_get (sn_QueriesByOutcome before) k \<le> v \<and> 0 \<le> counts_get (sn_QueriesByOutcome before) k"
    and "(\<Sum>(k, v)\<leftarrow>sn_QueriesByOutcome after. v - counts_get (sn_QueriesByOutcome before) k) \<le> max_i64"
  shows "md_TotalQueries (Diff F before after)
    = (\<Sum>(k, v)\<leftarrow>sn_QueriesByOutcome after. v - counts_get (sn_QueriesByOutcome before) k)"
  using diff_counts_sum [of "sn_QueriesByOutcome after" "sn_QueriesByOutcome before" 0 "[]"] assms
  by (simp add: Diff_def case_prod_beta)

theorem Diff_counts_growth_witness:
  "md_TotalQueries (Diff int_fops ((empty_snapshot int_fops)\<lparr>sn_QueriesByOutcome := [(''blocked'', 3)]\<rparr>)
     ((empty_snapshot int_fops)\<lparr>sn_QueriesByOutcome := [(''blocked'', 5), (''error'', 1)]\<rparr>)) = 3"
  by (subst Diff_counts_growth) (simp_all add: counts_get_def max_i64_def)

text \<open>The duration histogram has one series per outcome, and each of them has a count. The snapshot
  keeps only the count read last, so it does not describe all queries.\<close>

lemma duration_count_is_last:
  assumes "fo_Parse F (sr_value s) = Inr v" and "readable F s" and "sr_name s = ''bns_query_duration_seconds_count''"
    and "\<forall>s \<in> set page. readable F s"
  shows "\<exists>snap. ParseSnapshot F (print_list (map print_series (page @ [s]))) = Ret (snap, None)
    \<and> hs_Count (sn_DurationHist snap) = fo_int64 F v"
proof -
  have ok: "series_ok s" using assms(2) by (simp add: readable_def)
  obtain b where b: "snap_loop F (map print_series page) (empty_snapshot F) = Ret (b, None)"
    using snap_loop_adds [OF assms(4)] by blast
  have app: "snap_loop F (xs @ ys) a = snap_loop F ys c" if "snap_loop F xs a = Ret (c, None)" for xs ys a c
    using that by (induction xs arbitrary: a) (auto simp: Let_def split: go.splits sum.splits prod.splits option.splits)
  have "snap_loop F [print_series s] b = Ret (fst (snap_add F (sr_name s) (labels_of s) v b), None)"
    using print_series_ends [OF ok] assms(3) by (simp add: parsePromLine_print [OF ok assms(1)] snap_add_def)
  with app [OF b, of "[print_series s]"] show ?thesis
    using page_lines [of "page @ [s]" F] assms(2,3,4)
    by (simp add: ParseSnapshot_def snap_add_def sort_buckets_def)
qed

end
