(* ===== verification/Stress_Run.thy ===== *)
theory Stress_Run
  imports Stress_Metrics "HOL-Library.Char_ord" "HOL-Library.List_Lexorder"
begin

text \<open>
  The orchestration of a stress run (\<open>internal/stress/config.go\<close>, \<open>scenario.go\<close> and
  \<open>orchestrator.go\<close>): the configuration and its check, the registry of scenarios, the
  environment of the child process, the expansion of query files, the two waiting loops and the
  verdict. Processes, HTTP and DNS calls and the benchmark library are parameters.
\<close>

section \<open>Configuration\<close>

record stress_Config =
  sg_Scenario :: string
  sg_Target :: string
  sg_Admin :: string
  sg_Spawn :: bool
  sg_Duration :: int
  sg_Concurrency :: u32
  sg_RateLimit :: int
  sg_BNSBin :: string
  sg_MockBin :: string
  sg_BlocklistPath :: string
  sg_OutDir :: string
  sg_PprofCPU :: int
  sg_PprofHeap :: bool
  sg_MaxIOErrors :: int

definition Defaults :: stress_Config where
  "Defaults =
     \<lparr>sg_Scenario = ''mixed'', sg_Target = ''127.0.0.1:5354'', sg_Admin = ''127.0.0.1:9090'', sg_Spawn = True,
      sg_Duration = 60 * time_Second, sg_Concurrency = 50, sg_RateLimit = 0, sg_BNSBin = ''./bin/bns'',
      sg_MockBin = ''./bin/mockupstream'', sg_BlocklistPath = [], sg_OutDir = [],
      sg_PprofCPU = 30 * time_Second, sg_PprofHeap = True, sg_MaxIOErrors = 0\<rparr>"

definition stress_Validate :: "stress_Config \<Rightarrow> goerror option" where
  "stress_Validate c =
     (let errs =
        (if sg_Scenario c = [] then [ErrNew ''scenario must be set''] else [])
        @ (if sg_Target c = [] then [ErrNew ''target must be set''] else [])
        @ (if sg_Admin c = [] then [ErrNew ''admin must be set''] else [])
        @ (if sg_Duration c \<le> 0 then [ErrNew ''duration must be > 0''] else [])
        @ (if sg_Concurrency c = 0 then [ErrNew ''concurrency must be > 0''] else [])
      in if errs \<noteq> [] then Some (ErrWrap ''invalid config'' (ErrJoin errs)) else None)"

section \<open>Scenarios\<close>

text \<open>\<open>'b\<close> is the benchmark a scenario builds from target, duration and concurrency.\<close>

record 'b Scenario =
  sc_Name :: string
  sc_BlocklistPath :: string
  sc_BNSEnv :: "(string \<times> string) list"
  sc_Build :: "string \<Rightarrow> int \<Rightarrow> u32 \<Rightarrow> 'b"

type_synonym 'b registry = "string \<rightharpoonup> 'b Scenario"

definition RegisterScenario :: "'b Scenario \<Rightarrow> 'b registry \<Rightarrow> 'b registry go" where
  "RegisterScenario s reg =
     (case reg (sc_Name s) of
        Some _ \<Rightarrow> Panic (''stress: scenario already registered: '' @ sc_Name s)
      | None \<Rightarrow> Ret (reg(sc_Name s \<mapsto> s)))"

definition LookupScenario :: "string \<Rightarrow> 'b registry \<Rightarrow> 'b Scenario option" where
  "LookupScenario name reg = reg name"

section \<open>The environment of the server\<close>

text \<open>A Go map from strings to strings as an association list.\<close>

type_synonym env_map = "(string \<times> string) list"

definition merge_env :: "env_map \<Rightarrow> env_map \<Rightarrow> env_map" where
  "merge_env scenario defaults =
     fold (\<lambda>(k, v) m. AList.update k v m) scenario (fold (\<lambda>(k, v) m. AList.update k v m) defaults [])"

definition BNSEnv :: "env_map \<Rightarrow> env_map \<Rightarrow> string list" where
  "BNSEnv scenario defaults = sort (map (\<lambda>(k, v). k @ ''='' @ v) (merge_env scenario defaults))"

definition AdminBaseURL :: "string \<Rightarrow> string" where
  "AdminBaseURL adminHostPort = ''http://'' @ adminHostPort"

section \<open>Query files\<close>

text \<open>\<open>disk\<close> opens a file: an error, or its content with the error that ends reading.\<close>

definition file_queries :: "string list \<Rightarrow> string list" where
  "file_queries ls = filter (\<lambda>l. l \<noteq> [] \<and> \<not> prefix ''#'' l) (map TrimSpace ls)"

fun expand_loop :: "(string \<Rightarrow> goerror + string \<times> goerror option) \<Rightarrow> string list \<Rightarrow> string list \<Rightarrow> goerror + string list" where
  "expand_loop disk [] out = Inr out"
| "expand_loop disk (q # qs) out =
     (if \<not> prefix ''@'' q then expand_loop disk qs (out @ [q])
      else
        let path = drop 1 q in
        case disk path of
          Inl e \<Rightarrow> Inl (ErrWrap (''open '' @ path) e)
        | Inr (content, rerr) \<Rightarrow>
            (case scan_lines scanner_max (raw_lines content) of
               ScanTooLong _ \<Rightarrow> Inl (ErrWrap (''read '' @ path) (ErrNew ''bufio.Scanner: token too long''))
             | ScanOK ls \<Rightarrow>
                 (case rerr of
                    Some e \<Rightarrow> Inl (ErrWrap (''read '' @ path) e)
                  | None \<Rightarrow> expand_loop disk qs (out @ file_queries ls))))"

text \<open>On an error the benchmark keeps its queries.\<close>

definition expandFileRefs :: "(string \<Rightarrow> goerror + string \<times> goerror option) \<Rightarrow> string list \<Rightarrow> goerror option \<times> string list" where
  "expandFileRefs disk queries =
     (case expand_loop disk queries [] of Inl e \<Rightarrow> (Some e, queries) | Inr out \<Rightarrow> (None, out))"

section \<open>Waiting\<close>

text \<open>
  The waiting loops. \<open>probe i\<close> is the result of the \<open>i\<close>-th request, \<open>sel i\<close> what the select after
  it takes: the error of the context, or the next tick (\<open>None\<close>). A loop that never ends has no
  value.
\<close>

partial_function (option) ready_loop :: "(nat \<Rightarrow> goerror + int) \<Rightarrow> (nat \<Rightarrow> goerror option) \<Rightarrow> nat \<Rightarrow> goerror option option" where
  "ready_loop probe sel i =
     (case probe i of
        Inr status \<Rightarrow>
          if status = 200 then Some None
          else (case sel i of
              Some e \<Rightarrow> Some (Some (ErrWrap ''readyz not OK before deadline'' e))
            | None \<Rightarrow> ready_loop probe sel (Suc i))
      | Inl _ \<Rightarrow>
          (case sel i of
             Some e \<Rightarrow> Some (Some (ErrWrap ''readyz not OK before deadline'' e))
           | None \<Rightarrow> ready_loop probe sel (Suc i)))"

definition WaitForReady :: "(string \<Rightarrow> goerror option) \<Rightarrow> (nat \<Rightarrow> goerror + int) \<Rightarrow> (nat \<Rightarrow> goerror option) \<Rightarrow> string
    \<Rightarrow> goerror option option" where
  "WaitForReady newRequest probe sel baseURL =
     (case newRequest (baseURL @ ''/readyz'') of
        Some e \<Rightarrow> Some (Some e)
      | None \<Rightarrow> ready_loop probe sel 0)"

partial_function (option) dns_loop :: "(nat \<Rightarrow> bool) \<Rightarrow> (nat \<Rightarrow> goerror option) \<Rightarrow> int \<Rightarrow> nat \<Rightarrow> int \<Rightarrow> goerror option option" where
  "dns_loop probe sel needed i ok =
     (let ok' = (if probe i then ok + 1 else 0) in
      if probe i \<and> needed \<le> ok' then Some None
      else case sel i of
          Some e \<Rightarrow> Some (Some (ErrWrap ''dns not ready before deadline'' e))
        | None \<Rightarrow> dns_loop probe sel needed (Suc i) ok')"

definition WaitForDNSReady :: "(nat \<Rightarrow> bool) \<Rightarrow> (nat \<Rightarrow> goerror option) \<Rightarrow> string \<Rightarrow> int \<Rightarrow> goerror option option" where
  "WaitForDNSReady probe sel target needed =
     (case SplitHostPort target of
        Inl e \<Rightarrow> Some (Some (ErrWrap ''parse target'' e))
      | Inr _ \<Rightarrow> dns_loop probe sel needed 0 0)"

section \<open>The verdict\<close>

definition run_verdict :: "stress_Config \<Rightarrow> int \<Rightarrow> int \<Rightarrow> goerror option" where
  "run_verdict cfg ioErrors idMismatches =
     (if sg_MaxIOErrors cfg < ioErrors \<or> 0 < idMismatches then
        Some (ErrNew (''correctness failure: io_errors='' @ Itoa ioErrors @ '' id_mismatches='' @ Itoa idMismatches))
      else None)"

section \<open>The loops return\<close>

text \<open>\<open>n\<close> is the round in which the context is done.\<close>

definition deadline :: "(nat \<Rightarrow> goerror option) \<Rightarrow> nat \<Rightarrow> goerror \<Rightarrow> bool" where
  "deadline sel n e \<longleftrightarrow> sel n = Some e \<and> (\<forall>j < n. sel j = None)"

lemma ready_loop_step:
  "ready_loop probe sel i =
     (if probe i = Inr 200 then Some None
      else case sel i of
          Some e \<Rightarrow> Some (Some (ErrWrap ''readyz not OK before deadline'' e))
        | None \<Rightarrow> ready_loop probe sel (Suc i))"
  by (subst ready_loop.simps) (simp split: sum.split)

lemma ex_between: "(\<exists>k. n \<le> k \<and> k \<le> n \<and> P k) \<longleftrightarrow> P (n :: nat)"
  by (metis le_antisym order_refl)

lemma ex_from:
  assumes "i < n"
  shows "(\<exists>k. i \<le> k \<and> k \<le> n \<and> P k) \<longleftrightarrow> P i \<or> (\<exists>k. Suc i \<le> k \<and> k \<le> n \<and> P k)"
proof -
  have "i \<le> k \<and> k \<le> n \<and> P k \<longleftrightarrow> k = i \<and> P k \<or> Suc i \<le> k \<and> k \<le> n \<and> P k" for k using assms by auto
  then show ?thesis by (simp add: ex_disj_distrib)
qed

lemma ready_loop_returns:
  assumes "deadline sel n e" "i \<le> n"
  shows "ready_loop probe sel i = Some (if \<exists>k. i \<le> k \<and> k \<le> n \<and> probe k = Inr 200 then None
      else Some (ErrWrap ''readyz not OK before deadline'' e))"
  using assms(2)
proof (induction i rule: inc_induct)
  case base
  have "sel n = Some e" using assms(1) by (simp add: deadline_def)
  then show ?case unfolding ex_between ready_loop_step [of probe sel n] by simp
next
  case (step i)
  have "sel i = None" using assms(1) step.hyps by (simp add: deadline_def)
  then have "ready_loop probe sel i = (if probe i = Inr 200 then Some None else ready_loop probe sel (Suc i))"
    unfolding ready_loop_step [of probe sel i] by simp
  moreover have "(\<exists>k. i \<le> k \<and> k \<le> n \<and> probe k = Inr 200)
      \<longleftrightarrow> probe i = Inr 200 \<or> (\<exists>k. Suc i \<le> k \<and> k \<le> n \<and> probe k = Inr 200)"
    by (rule ex_from [OF step.hyps(2)])
  ultimately show ?case using step.IH by auto
qed

text \<open>The number of successes in a row before round \<open>i\<close>.\<close>

fun streak :: "(nat \<Rightarrow> bool) \<Rightarrow> nat \<Rightarrow> int" where
  "streak probe 0 = 0"
| "streak probe (Suc i) = (if probe i then streak probe i + 1 else 0)"

lemma streak_nonneg: "0 \<le> streak probe i"
  by (induction i) auto

lemma streak_iff: "int m \<le> streak probe i \<longleftrightarrow> m \<le> i \<and> (\<forall>j < m. probe (i - Suc j))"
proof (induction i arbitrary: m)
  case (Suc i)
  show ?case
  proof (cases m)
    case (Suc m')
    have "(\<forall>j < Suc m'. probe (Suc i - Suc j)) \<longleftrightarrow> probe i \<and> (\<forall>j < m'. probe (i - Suc j))"
      by (auto simp: less_Suc_eq_0_disj)
    then show ?thesis using Suc.IH [of m'] Suc by auto
  qed (simp add: streak_nonneg)
qed auto

lemma dns_loop_returns:
  assumes "deadline sel n e" "i \<le> n"
  shows "dns_loop probe sel needed i (streak probe i) =
    Some (if \<exists>k. i \<le> k \<and> k \<le> n \<and> probe k \<and> needed \<le> streak probe (Suc k) then None
      else Some (ErrWrap ''dns not ready before deadline'' e))"
  using assms(2)
proof (induction i rule: inc_induct)
  case base
  have "sel n = Some e" using assms(1) by (simp add: deadline_def)
  then show ?case unfolding ex_between by (subst dns_loop.simps) (simp add: Let_def)
next
  case (step i)
  have "sel i = None" using assms(1) step.hyps by (simp add: deadline_def)
  then have "dns_loop probe sel needed i (streak probe i) =
      (if probe i \<and> needed \<le> streak probe (Suc i) then Some None
       else dns_loop probe sel needed (Suc i) (streak probe (Suc i)))"
    by (subst dns_loop.simps) (simp add: Let_def)
  moreover have "(\<exists>k. i \<le> k \<and> k \<le> n \<and> probe k \<and> needed \<le> streak probe (Suc k))
      \<longleftrightarrow> (probe i \<and> needed \<le> streak probe (Suc i))
        \<or> (\<exists>k. Suc i \<le> k \<and> k \<le> n \<and> probe k \<and> needed \<le> streak probe (Suc k))"
    by (rule ex_from [OF step.hyps(2)])
  ultimately show ?case using step.IH by auto
qed

section \<open>The environment\<close>

lemma map_of_updates: "map_of (fold (\<lambda>(k, v) m. AList.update k v m) xs m) = map_of m ++ map_of (rev xs)"
  by (induction xs arbitrary: m) (auto simp: update_conv' map_add_def fun_eq_iff split: option.splits)

lemma distinct_updates:
  "distinct (map fst m) \<Longrightarrow> distinct (map fst (fold (\<lambda>(k, v) m. AList.update k v m) xs m))"
  by (induction xs arbitrary: m) (auto simp: distinct_update)

lemma map_of_rev_distinct: "distinct (map fst xs) \<Longrightarrow> map_of (rev xs) = map_of xs"
  by (rule map_of_inject_set [THEN iffD2]) (simp_all add: rev_map [symmetric])

lemma map_of_merge:
  assumes "distinct (map fst scenario)" "distinct (map fst defaults)"
  shows "map_of (merge_env scenario defaults) = map_of defaults ++ map_of scenario"
  using assms by (simp add: merge_env_def map_of_updates map_of_rev_distinct)

section \<open>Query files\<close>

text \<open>What one entry stands for.\<close>

definition expand_entry :: "(string \<Rightarrow> goerror + string \<times> goerror option) \<Rightarrow> string \<Rightarrow> goerror + string list" where
  "expand_entry disk q =
     (if \<not> prefix ''@'' q then Inr [q]
      else case disk (drop 1 q) of
          Inl e \<Rightarrow> Inl (ErrWrap (''open '' @ drop 1 q) e)
        | Inr (content, rerr) \<Rightarrow>
            (case scan_lines scanner_max (raw_lines content) of
               ScanTooLong _ \<Rightarrow> Inl (ErrWrap (''read '' @ drop 1 q) (ErrNew ''bufio.Scanner: token too long''))
             | ScanOK ls \<Rightarrow>
                 (case rerr of Some e \<Rightarrow> Inl (ErrWrap (''read '' @ drop 1 q) e) | None \<Rightarrow> Inr (file_queries ls))))"

lemma expand_loop_Cons:
  "expand_loop disk (q # qs) out =
     (case expand_entry disk q of Inl e \<Rightarrow> Inl e | Inr xs \<Rightarrow> expand_loop disk qs (out @ xs))"
  by (simp add: expand_entry_def Let_def split: sum.split prod.split scan.split option.split)

lemma expand_loop_success:
  "expand_loop disk qs out = Inr r \<longleftrightarrow>
     (\<exists>xss. list_all2 (\<lambda>q xs. expand_entry disk q = Inr xs) qs xss \<and> r = out @ concat xss)"
proof (induction qs arbitrary: out)
  case (Cons q qs)
  then show ?case
    by (cases "expand_entry disk q") (auto simp: expand_loop_Cons list_all2_Cons1 simp del: expand_loop.simps)
qed auto

lemma expand_loop_error:
  "expand_loop disk qs out = Inl e \<longleftrightarrow>
     (\<exists>j < length qs. expand_entry disk (qs ! j) = Inl e \<and> (\<forall>i < j. \<exists>xs. expand_entry disk (qs ! i) = Inr xs))"
proof (induction qs arbitrary: out)
  case (Cons q qs)
  show ?case
  proof (cases "expand_entry disk q")
    case (Inl e')
    then show ?thesis
      by (auto simp: expand_loop_Cons Ex_less_Suc2 All_less_Suc2 simp del: expand_loop.simps)
  next
    case (Inr xs)
    then show ?thesis
      using Cons.IH by (auto simp: expand_loop_Cons Ex_less_Suc2 All_less_Suc2 simp del: expand_loop.simps)
  qed
qed simp

section \<open>Properties\<close>

lemma ready_loop_from_0:
  "deadline sel n e \<Longrightarrow> ready_loop probe sel 0 =
     Some (if \<exists>k \<le> n. probe k = Inr 200 then None else Some (ErrWrap ''readyz not OK before deadline'' e))"
  using ready_loop_returns [of sel n e 0 probe] by simp

lemma streak_Suc_iff:
  "probe k \<and> int (Suc m) \<le> streak probe (Suc k) \<longleftrightarrow> m \<le> k \<and> (\<forall>j \<le> m. probe (k - j))"
proof -
  have "int (Suc m) \<le> streak probe (Suc k) \<longleftrightarrow> m \<le> k \<and> (\<forall>j \<le> m. probe (k - j))"
    unfolding streak_iff by (simp add: less_Suc_eq_le)
  then show ?thesis by auto
qed

lemma dns_loop_from_0:
  assumes "deadline sel n e"
  shows "dns_loop probe sel (int (Suc m)) 0 0 =
    Some (if \<exists>k \<le> n. m \<le> k \<and> (\<forall>j \<le> m. probe (k - j)) then None
      else Some (ErrWrap ''dns not ready before deadline'' e))"
  using dns_loop_returns [OF assms, of 0 probe "int (Suc m)", unfolded streak_Suc_iff]
  by (auto simp del: of_nat_Suc cong: conj_cong)

text \<open>C37: The two waiting loops of a stress run return whenever their context ends, whatever the
  server does. \<open>WaitForReady\<close> reports success exactly when one of the probes up to the deadline got
  status 200; \<open>WaitForDNSReady\<close> exactly when \<open>needed\<close> probes in a row succeeded before it. Otherwise
  they return the error of the context.\<close>

theorem waiting_loops_return:
  assumes "deadline sel n e" "newRequest (baseURL @ ''/readyz'') = None" "SplitHostPort target = Inr hp"
  shows "WaitForReady newRequest probe sel baseURL =
      Some (if \<exists>k \<le> n. probe k = Inr 200 then None
        else Some (ErrWrap ''readyz not OK before deadline'' e))
    \<and> WaitForDNSReady answered sel target (int (Suc m)) =
      Some (if \<exists>k \<le> n. m \<le> k \<and> (\<forall>j \<le> m. answered (k - j)) then None
        else Some (ErrWrap ''dns not ready before deadline'' e))"
  using assms by (simp add: WaitForReady_def WaitForDNSReady_def ready_loop_from_0 dns_loop_from_0 del: of_nat_Suc)

theorem waiting_loops_return_witness:
  "WaitForReady (\<lambda>_. None) (\<lambda>i. if i = 2 then Inr 200 else Inr 503)
      (\<lambda>i. if i = 4 then Some (ErrNew ''context deadline exceeded'') else None) ''http://h'' = Some None
    \<and> WaitForDNSReady (\<lambda>i. i \<noteq> 2) (\<lambda>i. if i = 4 then Some (ErrNew ''context deadline exceeded'') else None)
      ''h:53'' (int (Suc 2)) = Some (Some (ErrWrap ''dns not ready before deadline'' (ErrNew ''context deadline exceeded'')))"
proof -
  let ?e = "ErrNew ''context deadline exceeded''"
  let ?sel = "\<lambda>i :: nat. if i = 4 then Some ?e else None"
  have d: "deadline ?sel 4 ?e" by (simp add: deadline_def)
  have s: "SplitHostPort ''h:53'' = Inr (''h'', ''53'')" by code_simp
  have 1: "\<exists>k \<le> (4 :: nat). (if k = 2 then Inr 200 else Inr 503) = (Inr 200 :: goerror + int)"
    by (rule exI [of _ 2]) simp
  have "2 \<le> k \<Longrightarrow> k \<le> 4 \<Longrightarrow> k - 2 \<le> 2 \<and> k - (k - 2) = 2" for k :: nat by arith
  then have 2: "\<not> (\<exists>k \<le> 4. 2 \<le> k \<and> (\<forall>j \<le> 2. k - j \<noteq> (2 :: nat)))" by blast
  show ?thesis
    using waiting_loops_return [of ?sel 4 ?e "\<lambda>_. None" "''http://h''" "''h:53''" "(''h'', ''53'')"
        "\<lambda>i. if i = 2 then Inr 200 else Inr 503" "\<lambda>i. i \<noteq> 2" 2, OF d refl s]
    unfolding if_P [OF 1] if_not_P [OF 2] .
qed

text \<open>The environment of the spawned server is sorted and has exactly one entry per variable:
  the value of the scenario where it sets the variable, the default otherwise.\<close>

theorem BNSEnv_overrides:
  assumes "distinct (map fst scenario)" "distinct (map fst defaults)"
  shows "sorted (BNSEnv scenario defaults)
    \<and> length (BNSEnv scenario defaults) = card (dom (map_of defaults ++ map_of scenario))
    \<and> set (BNSEnv scenario defaults)
      = {k @ ''='' @ v | k v. (map_of defaults ++ map_of scenario) k = Some v}"
proof -
  let ?m = "merge_env scenario defaults"
  have d: "distinct (map fst ?m)" by (simp add: merge_env_def distinct_updates)
  have m: "map_of ?m = map_of defaults ++ map_of scenario" using assms by (rule map_of_merge)
  have "length ?m = card (dom (map_of ?m))"
    using distinct_card [OF d] by (simp add: dom_map_of_conv_image_fst)
  moreover have "set (BNSEnv scenario defaults) = {k @ ''='' @ v | k v. map_of ?m k = Some v}"
    using d by (force simp: BNSEnv_def map_of_eq_Some_iff)
  ultimately show ?thesis by (simp add: m) (simp add: BNSEnv_def)
qed

theorem BNSEnv_overrides_witness:
  "set (BNSEnv [(''A'', ''1'')] [(''B'', ''2''), (''A'', ''0'')]) =
    {k @ ''='' @ v | k v. (map_of [(''B'', ''2''), (''A'', ''0'')] ++ map_of [(''A'', ''1'')]) k = Some v}
  \<and> BNSEnv [(''A'', ''1'')] [(''B'', ''2''), (''A'', ''0'')] = [''A=1'', ''B=2'']"
proof -
  have "BNSEnv [(''A'', ''1'')] [(''B'', ''2''), (''A'', ''0'')] = [''A=1'', ''B=2'']" by code_simp
  then show ?thesis
    using BNSEnv_overrides [of "[(''A'', ''1'')]" "[(''B'', ''2''), (''A'', ''0'')]"] by simp
qed

text \<open>Expanding query files replaces every \<open>@file\<close> entry, in place, by the trimmed lines of
  the file that are neither empty nor comments and keeps other entries. The first entry whose file
  cannot be opened or read ends the expansion, and the queries stay as they were.\<close>

theorem expandFileRefs_spec:
  "(\<forall>r. expandFileRefs disk qs = (None, r) \<longleftrightarrow>
      (\<exists>xss. list_all2 (\<lambda>q xs. expand_entry disk q = Inr xs) qs xss \<and> r = concat xss))
   \<and> (\<forall>e r. expandFileRefs disk qs = (Some e, r) \<longleftrightarrow> r = qs \<and>
      (\<exists>j < length qs. expand_entry disk (qs ! j) = Inl e \<and> (\<forall>i < j. \<exists>xs. expand_entry disk (qs ! i) = Inr xs)))"
proof (intro conjI allI)
  fix r
  show "expandFileRefs disk qs = (None, r) \<longleftrightarrow>
      (\<exists>xss. list_all2 (\<lambda>q xs. expand_entry disk q = Inr xs) qs xss \<and> r = concat xss)"
    using expand_loop_success [of disk qs "[]" r] by (auto simp: expandFileRefs_def split: sum.splits)
next
  fix e r
  show "expandFileRefs disk qs = (Some e, r) \<longleftrightarrow> r = qs \<and>
      (\<exists>j < length qs. expand_entry disk (qs ! j) = Inl e \<and> (\<forall>i < j. \<exists>xs. expand_entry disk (qs ! i) = Inr xs))"
    using expand_loop_error [of disk qs "[]" e] by (auto simp: expandFileRefs_def split: sum.splits)
qed

end
