(* ===== verification/Stress_Quantile.thy ===== *)
theory Stress_Quantile
  imports Stress_Metrics Complex_Main
begin

text \<open>
  The derived quantities of a metrics difference (\<open>internal/stress/metrics.go\<close>): the cache hit
  rate and the quantile interpolated from the cumulative histogram. The arithmetic of \<open>float64\<close> is
  a parameter. Proved are what becomes of a rank in a bucket without a finite bound, for any
  arithmetic in which infinities and NaN absorb as in IEEE 754, and, as an idealisation, that a
  quantile stays within its bucket in exact arithmetic with finite bounds.
\<close>

section \<open>Definitions\<close>

record 'f fmath =
  fm_of_int :: "int \<Rightarrow> 'f"
  fm_add :: "'f \<Rightarrow> 'f \<Rightarrow> 'f"
  fm_sub :: "'f \<Rightarrow> 'f \<Rightarrow> 'f"
  fm_mul :: "'f \<Rightarrow> 'f \<Rightarrow> 'f"
  fm_div :: "'f \<Rightarrow> 'f \<Rightarrow> 'f"
  fm_le :: "'f \<Rightarrow> 'f \<Rightarrow> bool"
  fm_int64 :: "'f \<Rightarrow> int"

definition CacheHitRate :: "'f fmath \<Rightarrow> 'f MetricsDiff \<Rightarrow> 'f" where
  "CacheHitRate A d =
     (if md_TotalQueries d = 0 then fm_of_int A 0
      else fm_sub A (fm_of_int A 1)
             (fm_div A (fm_of_int A (md_UpstreamQueries d)) (fm_of_int A (md_TotalQueries d))))"

definition to_Duration :: "'f fmath \<Rightarrow> 'f \<Rightarrow> int" where
  "to_Duration A seconds = fm_int64 A (fm_mul A seconds (fm_of_int A time_Second))"

text \<open>The loop over the buckets; \<open>None\<close> when it ends without returning.\<close>

fun quantile_loop :: "'f fmath \<Rightarrow> 'f \<Rightarrow> 'f \<Rightarrow> int \<Rightarrow> 'f HistogramBucket list \<Rightarrow> int option" where
  "quantile_loop A target prevBound prevCount [] = None"
| "quantile_loop A target prevBound prevCount (b # bs) =
     (if fm_le A target (fm_of_int A (hb_Count b)) then
        (let width = fm_sub A (hb_UpperBound b) prevBound;
             countIn = fm_of_int A (wrap64 (hb_Count b - prevCount)) in
         if fm_le A countIn (fm_of_int A 0) then Some (to_Duration A (hb_UpperBound b))
         else
           (let frac = fm_div A (fm_sub A target (fm_of_int A prevCount)) countIn;
                seconds = fm_add A prevBound (fm_mul A frac width) in
            Some (to_Duration A seconds)))
      else quantile_loop A target (hb_UpperBound b) (hb_Count b) bs)"

definition DurationQuantile :: "'f fmath \<Rightarrow> 'f MetricsDiff \<Rightarrow> 'f \<Rightarrow> int go" where
  "DurationQuantile A d q =
     (let h = md_DurationHist d in
      if hs_Count h = 0 then Ret 0
      else
        case quantile_loop A (fm_mul A (fm_of_int A (hs_Count h)) q) (fm_of_int A 0) 0 (hs_Buckets h) of
          Some r \<Rightarrow> Ret r
        | None \<Rightarrow>
            if hs_Buckets h = [] then Panic ''index out of range''
            else Ret (to_Duration A (hb_UpperBound (last (hs_Buckets h)))))"

section \<open>Exact arithmetic\<close>

text \<open>Truncation to \<open>int64\<close> of a number within its range.\<close>

definition trunc :: "real \<Rightarrow> int" where
  "trunc x = (if 0 \<le> x then \<lfloor>x\<rfloor> else \<lceil>x\<rceil>)"

definition real_math :: "real fmath" where
  "real_math = \<lparr>fm_of_int = real_of_int, fm_add = (+), fm_sub = (-), fm_mul = (*), fm_div = (/), fm_le = (\<le>),
     fm_int64 = trunc\<rparr>"

lemma real_math_simps [simp]:
  "fm_of_int real_math = real_of_int" "fm_add real_math = (+)" "fm_sub real_math = (-)"
  "fm_mul real_math = (*)" "fm_div real_math = (/)" "fm_le real_math = (\<le>)" "fm_int64 real_math = trunc"
  by (simp_all add: real_math_def)

lemma trunc_mono: "x \<le> y \<Longrightarrow> trunc x \<le> trunc y"
  by (auto simp: trunc_def floor_mono ceiling_mono intro: order_trans [of _ 0])

lemma to_Duration_mono: "x \<le> y \<Longrightarrow> to_Duration real_math x \<le> to_Duration real_math y"
  by (auto simp: to_Duration_def less_imp_le intro!: trunc_mono mult_right_mono)

text \<open>A cumulative histogram from a previous bound and count on: bounds and counts never fall.\<close>

fun cumulative :: "real \<Rightarrow> int \<Rightarrow> real HistogramBucket list \<Rightarrow> bool" where
  "cumulative pb pc [] \<longleftrightarrow> True"
| "cumulative pb pc (b # bs) \<longleftrightarrow>
     pb \<le> hb_UpperBound b \<and> pc \<le> hb_Count b \<and> hb_Count b \<le> max_i64 \<and> cumulative (hb_UpperBound b) (hb_Count b) bs"

text \<open>The limits of the bucket that holds the target.\<close>

fun bucket_of :: "real \<Rightarrow> real \<Rightarrow> real HistogramBucket list \<Rightarrow> (real \<times> real) option" where
  "bucket_of target pb [] = None"
| "bucket_of target pb (b # bs) =
     (if target \<le> hb_Count b then Some (pb, hb_UpperBound b) else bucket_of target (hb_UpperBound b) bs)"

lemma interpolation_between:
  fixes lo :: real
  assumes "lo \<le> hi" "pc < c" "pc \<le> t" "t \<le> c"
  shows "lo \<le> lo + (t - pc) / (c - pc) * (hi - lo)" "lo + (t - pc) / (c - pc) * (hi - lo) \<le> hi"
proof -
  let ?f = "(t - pc) / (c - pc)"
  have f: "0 \<le> ?f" "?f \<le> 1" using assms by (auto simp: divide_le_eq)
  show "lo \<le> lo + ?f * (hi - lo)" using mult_nonneg_nonneg [OF f(1), of "hi - lo"] assms(1) by simp
  have "?f * (hi - lo) \<le> 1 * (hi - lo)" using f(2) assms(1) by (intro mult_right_mono) auto
  then show "lo + ?f * (hi - lo) \<le> hi" by simp
qed

lemma quantile_loop_bucket:
  assumes "cumulative pb pc bs" "0 \<le> pc" "real_of_int pc \<le> target"
  shows "case bucket_of target pb bs of
      None \<Rightarrow> quantile_loop real_math target pb pc bs = None
    | Some (lo, hi) \<Rightarrow> (\<exists>r. quantile_loop real_math target pb pc bs = Some r
        \<and> to_Duration real_math lo \<le> r \<and> r \<le> to_Duration real_math hi)"
  using assms
proof (induction bs arbitrary: pb pc)
  case (Cons b bs)
  let ?hi = "hb_UpperBound b" and ?c = "hb_Count b"
  show ?case
  proof (cases "target \<le> ?c")
    case True
    have w: "wrap64 (?c - pc) = ?c - pc"
      using Cons.prems by (intro wrap64_id) (auto simp: min_i64_def max_i64_def)
    show ?thesis
    proof (cases "?c \<le> pc")
      case False
      have "pb \<le> ?hi" "real_of_int pc < ?c" using Cons.prems(1) False by auto
      note i = interpolation_between [OF this Cons.prems(3) True]
      show ?thesis
        using True False w to_Duration_mono [OF i(1)] to_Duration_mono [OF i(2)] by (simp add: Let_def)
    qed (use True w Cons.prems(1) to_Duration_mono in \<open>simp add: Let_def\<close>)
  next
    case False
    then show ?thesis using Cons.IH [of ?hi ?c] Cons.prems by (auto split: option.split)
  qed
qed simp

section \<open>Properties\<close>

text \<open>What is asked of the floating point arithmetic: a sum, a difference or a product with an operand
  that is infinite or NaN is infinite or NaN.\<close>

definition absorbing :: "'f fmath \<Rightarrow> ('f \<Rightarrow> bool) \<Rightarrow> bool" where
  "absorbing A nonfinite \<longleftrightarrow> (\<forall>x y. nonfinite x \<or> nonfinite y \<longrightarrow>
     nonfinite (fm_add A x y) \<and> nonfinite (fm_sub A x y) \<and> nonfinite (fm_mul A x y))"

lemma quantile_loop_last:
  assumes "\<forall>x \<in> set bs. \<not> fm_le A target (fm_of_int A (hb_Count x))"
  shows "\<exists>pb pc. quantile_loop A target pb0 pc0 (bs @ [b]) = quantile_loop A target pb pc [b]"
  using assms by (induction bs arbitrary: pb0 pc0) auto

lemma to_Duration_nonfinite:
  "absorbing A nonfinite \<Longrightarrow> nonfinite x \<Longrightarrow> \<exists>z. nonfinite z \<and> to_Duration A x = fm_int64 A z"
  by (auto simp: to_Duration_def absorbing_def)

lemma quantile_nonfinite:
  assumes a: "absorbing A nonfinite" and b: "nonfinite (hb_UpperBound b)"
    and l: "quantile_loop A target pb pc [b] = Some r"
  shows "\<exists>z. nonfinite z \<and> r = fm_int64 A z"
proof -
  let ?s = "fm_add A pb (fm_mul A (fm_div A (fm_sub A target (fm_of_int A pc)) (fm_of_int A (wrap64 (hb_Count b - pc))))
    (fm_sub A (hb_UpperBound b) pb))"
  have "nonfinite ?s" using a b by (simp add: absorbing_def)
  then show ?thesis
    using l to_Duration_nonfinite [OF a b] to_Duration_nonfinite [OF a, of ?s]
    by (auto simp: Let_def split: if_splits)
qed

text \<open>C36: A rank that is reached only by the last bucket, when that bucket has no finite upper bound
  (as the last bucket of every Prometheus histogram, \<open>+Inf\<close>), has no quantile: the call does
  not panic and gives no error, but what it returns is the conversion of an infinity or of NaN to a
  64-bit integer, which the language leaves to the implementation.\<close>

theorem quantile_of_unbounded_bucket:
  assumes "absorbing A nonfinite" and "hs_Buckets (md_DurationHist d) = bs @ [b]"
    and "nonfinite (hb_UpperBound b)" and "hs_Count (md_DurationHist d) \<noteq> 0"
    and "\<forall>x \<in> set bs. \<not> fm_le A (fm_mul A (fm_of_int A (hs_Count (md_DurationHist d))) q) (fm_of_int A (hb_Count x))"
  shows "\<exists>z. nonfinite z \<and> DurationQuantile A d q = Ret (fm_int64 A z)"
proof -
  let ?h = "md_DurationHist d"
  let ?t = "fm_mul A (fm_of_int A (hs_Count ?h)) q"
  obtain pb pc where l: "quantile_loop A ?t (fm_of_int A 0) 0 (bs @ [b]) = quantile_loop A ?t pb pc [b]"
    using quantile_loop_last [OF assms(5)] by blast
  show ?thesis
  proof (cases "quantile_loop A ?t pb pc [b]")
    case None
    then have "DurationQuantile A d q = Ret (to_Duration A (hb_UpperBound b))"
      using l assms(2,4) by (simp add: DurationQuantile_def Let_def del: quantile_loop.simps)
    then show ?thesis using to_Duration_nonfinite [OF assms(1,3)] by auto
  next
    case (Some r)
    then have "DurationQuantile A d q = Ret r"
      using l assms(2,4) by (simp add: DurationQuantile_def Let_def del: quantile_loop.simps)
    then show ?thesis using quantile_nonfinite [OF assms(1,3) Some] by auto
  qed
qed

text \<open>Whole numbers with one value that stands for the infinities and NaN, converted the way the
  amd64 instruction does. A histogram with four observations, two of them beyond the last finite
  bound: the quantile that reaches them is a negative duration.\<close>

definition lift_op :: "(int \<Rightarrow> int \<Rightarrow> int) \<Rightarrow> int option \<Rightarrow> int option \<Rightarrow> int option" where
  "lift_op f x y = (case (x, y) of (Some a, Some b) \<Rightarrow> Some (f a b) | _ \<Rightarrow> None)"

definition inf_math :: "int option fmath" where
  "inf_math = \<lparr>fm_of_int = Some, fm_add = lift_op (+), fm_sub = lift_op (-), fm_mul = lift_op (*), fm_div = lift_op (div),
     fm_le = (\<lambda>x y. case (x, y) of (Some a, Some b) \<Rightarrow> a \<le> b | _ \<Rightarrow> False),
     fm_int64 = (\<lambda>x. case x of Some a \<Rightarrow> wrap64 a | None \<Rightarrow> min_i64)\<rparr>"

definition inf_diff :: "int option MetricsDiff" where
  "inf_diff = \<lparr>md_QueriesByOutcome = [], md_TotalQueries = 4, md_UpstreamQueries = 1, md_CoalescedQueries = 0,
     md_CacheEvictions = 0, md_Panics = 0, md_DurationHist = \<lparr>hs_Buckets =
       [\<lparr>hb_UpperBound = Some 1, hb_Count = 2\<rparr>, \<lparr>hb_UpperBound = None, hb_Count = 4\<rparr>], hs_Sum = Some 5, hs_Count = 4\<rparr>\<rparr>"

theorem quantile_of_unbounded_bucket_witness:
  "\<exists>r. DurationQuantile inf_math inf_diff (Some 1) = Ret r \<and> r < 0"
proof -
  have "absorbing inf_math (\<lambda>x. x = None)"
    by (auto simp: absorbing_def inf_math_def lift_op_def split: option.split)
  from quantile_of_unbounded_bucket [OF this, of inf_diff "[\<lparr>hb_UpperBound = Some 1, hb_Count = 2\<rparr>]"
      "\<lparr>hb_UpperBound = None, hb_Count = 4\<rparr>" "Some 1"]
  have "DurationQuantile inf_math inf_diff (Some 1) = Ret (fm_int64 inf_math None)"
    by (simp add: inf_diff_def inf_math_def lift_op_def)
  then show ?thesis by (simp add: inf_math_def min_i64_def)
qed

text \<open>With exact arithmetic, a quantile of a non-empty cumulative histogram lies within the bucket
  that holds the asked rank, its bounds being finite: between the bound of the bucket before it and its own. A rank beyond
  the last bucket gives the last bound. The call panics exactly when the histogram counts
  observations but has no bucket.\<close>

theorem quantile_within_bucket:
  fixes q :: real
  assumes "cumulative 0 0 (hs_Buckets (md_DurationHist d))" "0 < hs_Count (md_DurationHist d)" "0 \<le> q"
  shows "case bucket_of (hs_Count (md_DurationHist d) * q) 0 (hs_Buckets (md_DurationHist d)) of
      Some (lo, hi) \<Rightarrow> (\<exists>r. DurationQuantile real_math d q = Ret r
        \<and> to_Duration real_math lo \<le> r \<and> r \<le> to_Duration real_math hi)
    | None \<Rightarrow> DurationQuantile real_math d q =
        (if hs_Buckets (md_DurationHist d) = [] then Panic ''index out of range''
         else Ret (to_Duration real_math (hb_UpperBound (last (hs_Buckets (md_DurationHist d))))))"
proof -
  let ?h = "md_DurationHist d"
  have "real_of_int 0 \<le> hs_Count ?h * q" using assms by simp
  from quantile_loop_bucket [OF assms(1) order_refl this] show ?thesis
    using assms(2) by (auto simp: DurationQuantile_def Let_def split: option.splits)
qed

definition sample_diff :: "real MetricsDiff" where
  "sample_diff = \<lparr>md_QueriesByOutcome = [], md_TotalQueries = 4, md_UpstreamQueries = 1, md_CoalescedQueries = 0,
     md_CacheEvictions = 0, md_Panics = 0, md_DurationHist = \<lparr>hs_Buckets =
       [\<lparr>hb_UpperBound = 1, hb_Count = 2\<rparr>, \<lparr>hb_UpperBound = 3, hb_Count = 4\<rparr>], hs_Sum = 5, hs_Count = 4\<rparr>\<rparr>"

theorem quantile_within_bucket_witness:
  "\<exists>r. DurationQuantile real_math sample_diff (3 / 4) = Ret r
     \<and> to_Duration real_math 1 \<le> r \<and> r \<le> to_Duration real_math 3"
  using quantile_within_bucket [of sample_diff "3 / 4"] by (simp add: sample_diff_def max_i64_def)

end
