(* ===== verification/Stress_Report.thy ===== *)
theory Stress_Report
  imports Stress_Quantile "HOL-Library.Multiset"
begin

text \<open>
  The report of the stress harness (\<open>internal/stress/report.go\<close>): the text, digit grouping and
  the order of the outcome rows. Formatting of floats, durations and times and the library's
  (unstable) sort are parameters.
\<close>

section \<open>Grouping digits\<close>

text \<open>The loop of \<open>formatInt\<close> at index \<open>i\<close>, with the bytes from there on; \<open>len(s)-i\<close> is the
  number of bytes left.\<close>

fun group_digits :: "nat \<Rightarrow> string \<Rightarrow> string" where
  "group_digits i [] = []"
| "group_digits i (c # cs) =
     (if 0 < i \<and> length (c # cs) mod 3 = 0 then CHR '','' # c # group_digits (Suc i) cs
      else c # group_digits (Suc i) cs)"

definition formatInt :: "int \<Rightarrow> string" where
  "formatInt n =
     (let s = Itoa n in
      if n < 1000 \<and> -1000 < n then s
      else
        let neg = (hd s = CHR ''-'');
            s = (if neg then tl s else s);
            out = group_digits 0 s
        in if neg then CHR ''-'' # out else out)"

definition outcomeOrder :: "string \<Rightarrow> int" where
  "outcomeOrder name =
     (if name = ''forwarded'' then 0
      else if name = ''blocked'' then 1
      else if name = ''nxdomain'' then 2
      else if name = ''error'' then 3
      else 99)"

section \<open>The report\<close>

record 'f ReportInput =
  ri_Scenario :: string
  ri_StartedAt :: int
  ri_Target :: string
  ri_Admin :: string
  ri_BNSGitSha :: string
  ri_GoVersion :: string
  ri_Host :: string
  ri_Duration :: int
  ri_Concurrency :: u32
  ri_TotalQueries :: int
  ri_QPS :: 'f
  ri_P50 :: int
  ri_P95 :: int
  ri_P99 :: int
  ri_IOErrors :: int
  ri_IDMismatches :: int
  ri_Counters :: counts
  ri_UpstreamQueries :: int
  ri_CoalescedQueries :: int
  ri_CacheEvictions :: int
  ri_Panics :: int
  ri_OutDir :: string
  ri_PprofCPU :: string
  ri_PprofHeap :: string

text \<open>
  \<open>rf_1\<close> is the verb \<open>%.1f\<close>, \<open>rf_Duration\<close> and \<open>rf_Time\<close> print durations and the time of the start,
  and \<open>rf_sort\<close> is \<open>sort.Slice\<close>.
\<close>

record 'f rfmt =
  rf_math :: "'f fmath"
  rf_1 :: "'f \<Rightarrow> string"
  rf_Duration :: "int \<Rightarrow> string"
  rf_Time :: "int \<Rightarrow> string"
  rf_sort :: "(string \<Rightarrow> string \<Rightarrow> bool) \<Rightarrow> string list \<Rightarrow> string list"

definition formatPct :: "'f rfmt \<Rightarrow> 'f \<Rightarrow> string" where
  "formatPct R p = rf_1 R p"

definition formatMillis :: "'f rfmt \<Rightarrow> int \<Rightarrow> string" where
  "formatMillis R d = rf_1 R (fm_div (rf_math R) (fm_of_int (rf_math R) d) (fm_of_int (rf_math R) (10 ^ 6)))"

text \<open>\<open>%-ns\<close> pads on the right to a width in runes.\<close>

definition pad :: "nat \<Rightarrow> string \<Rightarrow> string" where
  "pad n s = s @ replicate (n - length (runes s)) (CHR '' '')"

definition nl :: string where "nl = [CHR 10]"
definition em_dash :: string where "em_dash = [CHR 0xE2, CHR 0x80, CHR 0x94]"
definition minus_sign :: string where "minus_sign = [CHR 0xE2, CHR 0x88, CHR 0x92]"
definition backquote :: string where "backquote = [CHR 0x60]"

definition counters_total :: "counts \<Rightarrow> int" where
  "counters_total m = fold (\<lambda>(k, v) t. wrap64 (t + v)) m 0"

definition outcome_row :: "'f rfmt \<Rightarrow> counts \<Rightarrow> int \<Rightarrow> string \<Rightarrow> string" where
  "outcome_row R m t k =
     (let v = counts_get m k;
          A = rf_math R;
          pct = (if 0 < t then fm_div A (fm_mul A (fm_of_int A 100) (fm_of_int A v)) (fm_of_int A t)
                 else fm_of_int A 0)
      in ''| '' @ pad 10 k @ '' | '' @ pad 8 (formatInt v) @ '' | '' @ pad 6 (formatPct R pct) @ '' |'' @ nl)"

definition render_setup :: "'f rfmt \<Rightarrow> 'f ReportInput \<Rightarrow> string" where
  "render_setup R i =
     ''# bns stress report '' @ em_dash @ '' '' @ ri_Scenario i @ '' '' @ em_dash @ '' '' @ rf_Time R (ri_StartedAt i) @ nl
     @ nl @ ''## Setup'' @ nl
     @ ''- target: '' @ ri_Target i @ nl
     @ ''- admin: '' @ ri_Admin i @ nl
     @ ''- bns: '' @ ri_BNSGitSha i @ nl
     @ ''- go: '' @ ri_GoVersion i @ nl
     @ ''- host: '' @ ri_Host i @ nl
     @ ''- scenario: '' @ ri_Scenario i @ '' | duration: '' @ rf_Duration R (ri_Duration i)
       @ '' | concurrency: '' @ Itoa (uint (ri_Concurrency i)) @ nl"

definition render_headline :: "'f rfmt \<Rightarrow> 'f ReportInput \<Rightarrow> string" where
  "render_headline R i =
     nl @ ''## Headline'' @ nl
     @ ''| metric        | value      |'' @ nl
     @ ''|---------------|------------|'' @ nl
     @ ''| sustained QPS | '' @ pad 10 (formatInt (fm_int64 (rf_math R) (ri_QPS i))) @ '' |'' @ nl
     @ ''| p50 / p95 / p99 (client-side) | '' @ formatMillis R (ri_P50 i) @ '' / '' @ formatMillis R (ri_P95 i)
       @ '' / '' @ formatMillis R (ri_P99 i) @ '' ms |'' @ nl
     @ ''| total queries | '' @ pad 10 (formatInt (ri_TotalQueries i)) @ '' |'' @ nl
     @ ''| io errors     | '' @ pad 10 (Itoa (ri_IOErrors i)) @ '' |'' @ nl
     @ ''| id mismatches | '' @ pad 10 (Itoa (ri_IDMismatches i)) @ '' |'' @ nl"

definition render_outcomes :: "'f rfmt \<Rightarrow> 'f ReportInput \<Rightarrow> string" where
  "render_outcomes R i =
     (let m = ri_Counters i;
          keys = rf_sort R (\<lambda>a b. outcomeOrder a < outcomeOrder b) (map fst m)
      in nl @ ''## Outcome breakdown (bns perspective, after '' @ minus_sign @ '' before)'' @ nl
         @ ''| outcome    | count    | %      |'' @ nl
         @ ''|------------|----------|--------|'' @ nl
         @ concat (map (outcome_row R m (counters_total m)) keys))"

definition render_internals :: "'f rfmt \<Rightarrow> 'f ReportInput \<Rightarrow> string" where
  "render_internals R i =
     (let A = rf_math R;
          hitRate = (if 0 < ri_TotalQueries i then
              fm_mul A (fm_of_int A 100) (fm_sub A (fm_of_int A 1)
                (fm_div A (fm_of_int A (ri_UpstreamQueries i)) (fm_of_int A (ri_TotalQueries i))))
            else fm_of_int A 0)
      in nl @ ''## Internals'' @ nl
         @ ''- upstream queries: '' @ formatInt (ri_UpstreamQueries i)
           @ ''   (cache hit rate = '' @ formatPct R hitRate @ ''%)'' @ nl
         @ ''- coalesced queries: '' @ formatInt (ri_CoalescedQueries i) @ nl
         @ ''- cache evictions: '' @ formatInt (ri_CacheEvictions i) @ nl
         @ ''- panics: '' @ formatInt (ri_Panics i) @ nl)"

definition render_profiles :: "'f ReportInput \<Rightarrow> string" where
  "render_profiles i =
     (if ri_PprofCPU i \<noteq> [] \<or> ri_PprofHeap i \<noteq> [] then
        (let dir = (if ri_OutDir i = [] then ''dist/stress/<this-dir>'' else ri_OutDir i)
         in nl @ ''## Profiles'' @ nl
            @ (if ri_PprofCPU i \<noteq> [] then
                 ''- CPU: '' @ ri_PprofCPU i @ ''   '' @ em_dash @ '' '' @ backquote @ ''go tool pprof -top '' @ dir @ ''/''
                 @ ri_PprofCPU i @ backquote @ nl
               else [])
            @ (if ri_PprofHeap i \<noteq> [] then
                 ''- Heap: '' @ ri_PprofHeap i @ '' '' @ em_dash @ '' '' @ backquote @ ''go tool pprof -top '' @ dir @ ''/''
                 @ ri_PprofHeap i @ backquote @ nl
               else []))
      else [])"

definition Render :: "'f rfmt \<Rightarrow> 'f ReportInput \<Rightarrow> string" where
  "Render R i = render_setup R i @ render_headline R i @ render_outcomes R i @ render_internals R i @ render_profiles i"

section \<open>Lemmas\<close>

lemma group_digits_filter: "CHR '','' \<notin> set ds \<Longrightarrow> filter (\<lambda>c. c \<noteq> CHR '','') (group_digits i ds) = ds"
  by (induction i ds rule: group_digits.induct) auto

lemma split_group:
  assumes "0 < i" "CHR '','' \<notin> set ds"
  shows "hd (split_from (CHR '','') cur (group_digits i ds)) = cur @ take (length ds mod 3) ds
    \<and> (\<forall>p \<in> set (tl (split_from (CHR '','') cur (group_digits i ds))). length p = 3)"
  using assms
proof (induction ds arbitrary: i cur)
  case (Cons c cs)
  have c: "c \<noteq> CHR '',''" using Cons.prems by auto
  show ?case
  proof (cases "length (c # cs) mod 3 = 0")
    case True
    then have m: "length cs mod 3 = 2" by (simp add: mod_Suc split: if_splits)
    let ?p = "split_from (CHR '','') [c] (group_digits (Suc i) cs)"
    have "split_from (CHR '','') cur (group_digits i (c # cs)) = cur # ?p"
      using True c Cons.prems(1) by simp
    moreover have "hd ?p = [c] @ take 2 cs" "\<forall>p \<in> set (tl ?p). length p = 3"
      using Cons.IH [of "Suc i" "[c]"] Cons.prems m by auto
    moreover have "length ([c] @ take 2 cs) = 3" using m by (cases cs; cases "tl cs") auto
    moreover have "?p \<noteq> []" by simp
    ultimately show ?thesis using True by (cases ?p) auto
  next
    case False
    then have "length (c # cs) mod 3 = Suc (length cs mod 3)" by (simp add: mod_Suc split: if_splits)
    moreover have "split_from (CHR '','') cur (group_digits i (c # cs))
        = split_from (CHR '','') (cur @ [c]) (group_digits (Suc i) cs)"
      using False c by simp
    ultimately show ?thesis using Cons.IH [of "Suc i" "cur @ [c]"] Cons.prems by auto
  qed
qed simp

lemma Split_group_digits:
  assumes "ds \<noteq> []" "CHR '','' \<notin> set ds"
  shows "length (hd (Split (group_digits 0 ds) (CHR '',''))) \<in> {1..3}
    \<and> (\<forall>p \<in> set (tl (Split (group_digits 0 ds) (CHR '',''))). length p = 3)"
proof -
  obtain c cs where ds: "ds = c # cs" using assms(1) by (cases ds) auto
  have "Split (group_digits 0 ds) (CHR '','') = split_from (CHR '','') [c] (group_digits 1 cs)"
    using assms(2) ds by (auto simp: Split_def)
  moreover have "length cs mod 3 < 3" by simp
  ultimately show ?thesis using split_group [of 1 cs "[c]"] assms(2) ds by auto
qed

lemma FormatUint_no_char: "\<not> is_digit c \<Longrightarrow> c \<notin> set (FormatUint n)"
  using FormatUint_digits [of n] by (auto simp: list_all_iff)

lemma comma_not_digit: "\<not> is_digit (CHR '','')" and minus_not_digit: "\<not> is_digit (CHR ''-'')"
  by (simp_all add: is_digit_def)

lemma formatInt_parts:
  "\<exists>sg ds. Itoa n = sg @ ds \<and> sg \<in> {[], ''-''} \<and> ds = FormatUint (nat \<bar>n\<bar>)
     \<and> formatInt n = sg @ (if \<bar>n\<bar> < 1000 then ds else group_digits 0 ds)"
proof (cases "n < 0")
  case True
  then show ?thesis by (auto simp: formatInt_def Itoa_def Let_def)
next
  case False
  have "FormatUint (nat n) \<noteq> []" by simp
  then have "hd (FormatUint (nat n)) \<noteq> CHR ''-''"
    using FormatUint_no_char [OF minus_not_digit, of "nat n"] by (metis hd_in_set)
  then show ?thesis using False by (auto simp: formatInt_def Itoa_def Let_def)
qed

section \<open>Properties\<close>

text \<open>Printing a number with thousands separators loses nothing and groups correctly: without
  its commas the result is the plain decimal, numbers of at least four digits are cut into groups of
  exactly three digits after a first group of one to three, and different numbers print
  differently.\<close>

theorem formatInt_groups:
  "filter (\<lambda>c. c \<noteq> CHR '','') (formatInt n) = Itoa n
   \<and> (1000 \<le> \<bar>n\<bar> \<longrightarrow>
        (let gs = Split (TrimPrefix (formatInt n) ''-'') (CHR '','') in
         length (hd gs) \<in> {1..3} \<and> (\<forall>g \<in> set (tl gs). length g = 3)))
   \<and> (formatInt n = formatInt m \<longrightarrow> n = m)"
proof -
  have parts: "filter (\<lambda>c. c \<noteq> CHR '','') (formatInt n) = Itoa n" for n
  proof -
    obtain sg ds where p: "Itoa n = sg @ ds" "sg \<in> {[], ''-''}" "ds = FormatUint (nat \<bar>n\<bar>)"
      "formatInt n = sg @ (if \<bar>n\<bar> < 1000 then ds else group_digits 0 ds)" using formatInt_parts by blast
    have c: "CHR '','' \<notin> set ds" using p(3) FormatUint_no_char [OF comma_not_digit] by simp
    then have "filter (\<lambda>c. c \<noteq> CHR '','') ds = ds" by (auto intro: filter_True)
    then show ?thesis using p c by (auto simp: group_digits_filter)
  qed
  have inj: "Itoa n = Itoa m \<Longrightarrow> n = m" for n m
    using FormatUint_no_char [OF minus_not_digit] list.set_intros(1)
    by (auto simp: Itoa_def FormatUint_inj split: if_splits) (metis list.set_intros(1))+
  have grp: "length (hd gs) \<in> {1..3} \<and> (\<forall>g \<in> set (tl gs). length g = 3)"
    if big: "1000 \<le> \<bar>n\<bar>" and gs: "gs = Split (TrimPrefix (formatInt n) ''-'') (CHR '','')" for gs
  proof -
    obtain sg ds where p: "sg \<in> {[], ''-''}" "ds = FormatUint (nat \<bar>n\<bar>)" "formatInt n = sg @ group_digits 0 ds"
    proof -
      from formatInt_parts [of n] obtain sg ds where "sg \<in> {[], ''-''}" "ds = FormatUint (nat \<bar>n\<bar>)"
        "formatInt n = sg @ (if \<bar>n\<bar> < 1000 then ds else group_digits 0 ds)" by blast
      with big show thesis by (intro that [of sg ds]) simp_all
    qed
    have d: "ds \<noteq> []" "CHR '','' \<notin> set ds" "CHR ''-'' \<notin> set ds"
      using p(2) FormatUint_no_char [OF comma_not_digit] FormatUint_no_char [OF minus_not_digit] by simp_all
    obtain c cs where "ds = c # cs" using d(1) by (cases ds) auto
    then obtain g where "group_digits 0 ds = c # g" "c \<noteq> CHR ''-''" using d(3) by auto
    then have "TrimPrefix (formatInt n) ''-'' = group_digits 0 ds"
      using p(1,3) by (auto simp: TrimPrefix_def)
    then show ?thesis using Split_group_digits [OF d(1,2)] gs by simp
  qed
  show ?thesis using parts inj grp unfolding Let_def by (metis (no_types, lifting))
qed

theorem formatInt_groups_witness: "filter (\<lambda>c. c \<noteq> CHR '','') (formatInt (-1234567)) = Itoa (-1234567)"
  using formatInt_groups [of "-1234567" 0] by simp

text \<open>The rows of the report have a fixed order as long as all outcomes are known; two unknown ones
  tie and keep whatever order the map iteration and the unstable sort gave them.\<close>

lemma report_rows_determined:
  assumes "mset xs = mset ys" "sorted (map outcomeOrder xs)" "sorted (map outcomeOrder ys)"
    and "set xs \<subseteq> {''forwarded'', ''blocked'', ''nxdomain'', ''error''}" "distinct xs"
  shows "xs = ys"
proof -
  have "inj_on outcomeOrder {''forwarded'', ''blocked'', ''nxdomain'', ''error''}"
    by (auto simp: inj_on_def outcomeOrder_def)
  then have i: "inj_on outcomeOrder (set xs)" using assms(4) by (rule inj_on_subset)
  have "set ys = set xs" using assms(1) by (metis set_mset_mset)
  moreover have "map outcomeOrder xs = map outcomeOrder ys"
    using properties_for_sort [of "map outcomeOrder xs" "map outcomeOrder ys"]
      properties_for_sort [of "map outcomeOrder ys" "map outcomeOrder ys"] assms(1,2,3) by simp
  ultimately show ?thesis using i map_inj_on [of outcomeOrder xs ys] by simp
qed

section \<open>The report does not depend on the order of the map\<close>

text \<open>What \<open>sort.Slice\<close> promises for an order given by a key.\<close>

definition sorts_by_key :: "((string \<Rightarrow> string \<Rightarrow> bool) \<Rightarrow> string list \<Rightarrow> string list) \<Rightarrow> bool" where
  "sorts_by_key srt \<longleftrightarrow> (\<forall>(f :: string \<Rightarrow> int) xs.
     mset (srt (\<lambda>a b. f a < f b) xs) = mset xs \<and> sorted (map f (srt (\<lambda>a b. f a < f b) xs)))"

lemma counters_total_sum: "counters_total m = wrap64 (sum_list (map snd m))"
proof -
  have "fold (\<lambda>(k, v) t. wrap64 (t + v)) m (wrap64 t) = wrap64 (t + sum_list (map snd m))" for t
    by (induction m arbitrary: t) (auto simp: wrap64_add add.assoc)
  from this [of 0] show ?thesis by (simp add: counters_total_def wrap64_def)
qed

lemma counters_perm:
  assumes "map_of c1 = map_of c2" "distinct (map fst c1)" "distinct (map fst c2)"
  shows "mset c1 = mset c2"
proof -
  have "distinct c1" "distinct c2" using assms(2,3) by (simp_all add: distinct_map)
  moreover have "set c1 = set c2" using assms by (simp add: map_of_inject_set)
  ultimately show ?thesis by (simp add: set_eq_iff_mset_eq_distinct)
qed

lemma counters_total_perm: "mset c1 = mset c2 \<Longrightarrow> counters_total c1 = counters_total c2"
  unfolding counters_total_sum by (metis mset_map sum_mset_sum_list)

lemma sorted_keys_determined:
  assumes "sorts_by_key s1" "sorts_by_key s2" "mset xs = mset ys" "distinct xs"
    and "set xs \<subseteq> {''forwarded'', ''blocked'', ''nxdomain'', ''error''}"
  shows "s1 (\<lambda>a b. outcomeOrder a < outcomeOrder b) xs = s2 (\<lambda>a b. outcomeOrder a < outcomeOrder b) ys"
    (is "?x = ?y")
proof -
  have x: "mset ?x = mset xs" "sorted (map outcomeOrder ?x)" using assms(1) unfolding sorts_by_key_def by blast+
  have y: "mset ?y = mset ys" "sorted (map outcomeOrder ?y)" using assms(2) unfolding sorts_by_key_def by blast+
  have "set ?x = set xs" "distinct ?x" using x(1) assms(4) by (metis set_mset_mset, metis mset_eq_imp_distinct_iff)
  then show ?thesis using x y assms(3,5) by (intro report_rows_determined) simp_all
qed

text \<open>The report is stable: it does not depend on the order in which Go iterates over the
  counters nor on how the library sorts equal elements, as long as every outcome is one of the four
  that bns exports.\<close>

theorem Render_stable:
  assumes "map_of (ri_Counters i) = map_of c" "distinct (map fst (ri_Counters i))" "distinct (map fst c)"
    and "fst ` set c \<subseteq> {''forwarded'', ''blocked'', ''nxdomain'', ''error''}"
    and "sorts_by_key (rf_sort R)" "sorts_by_key srt"
  shows "Render (R\<lparr>rf_sort := srt\<rparr>) (i\<lparr>ri_Counters := c\<rparr>) = Render R i"
proof -
  have p: "mset (ri_Counters i) = mset c" using assms(1-3) by (rule counters_perm)
  have "mset (map fst (ri_Counters i)) = mset (map fst c)" "set (map fst (ri_Counters i)) = fst ` set c"
    using p mset_eq_setD [OF p] by (simp_all only: mset_map set_map)
  with assms(2,4) have "rf_sort R (\<lambda>a b. outcomeOrder a < outcomeOrder b) (map fst (ri_Counters i))
      = srt (\<lambda>a b. outcomeOrder a < outcomeOrder b) (map fst c)"
    by (intro sorted_keys_determined assms(5,6)) (simp_all only:)
  moreover have "outcome_row (R\<lparr>rf_sort := srt\<rparr>) c (counters_total c) = outcome_row R (ri_Counters i) (counters_total (ri_Counters i))"
    using assms(1) counters_total_perm [OF p]
    by (intro ext) (simp add: outcome_row_def counts_get_def formatPct_def)
  ultimately have "render_outcomes (R\<lparr>rf_sort := srt\<rparr>) (i\<lparr>ri_Counters := c\<rparr>) = render_outcomes R i"
    by (simp add: render_outcomes_def Let_def)
  then show ?thesis
    by (simp add: Render_def render_setup_def render_headline_def render_internals_def render_profiles_def
        formatMillis_def formatPct_def Let_def)
qed

end
