(* ===== verification/Stress_Orchestrate.thy ===== *)
theory Stress_Orchestrate
  imports Stress_Run Stress_Report
begin

text \<open>
  A whole stress run (\<open>Run\<close> of \<open>internal/stress/orchestrator.go\<close>) with its early returns and
  deferred calls, the child processes and the files it writes, and the one registered scenario
  (\<open>internal/stress/scenarios/mixed.go\<close>). The effects of a run are the list of its events; the
  operating system, the server under test and the benchmark library are parameters.
\<close>

section \<open>Benchmarks and scenarios\<close>

text \<open>The fields of the library's benchmark that the harness sets.\<close>

datatype writer = NoWriter | Discard | ToFile string

record 'f Benchmark =
  bm_Server :: string
  bm_Types :: "string list"
  bm_Concurrency :: u32
  bm_Duration :: int
  bm_Probability :: 'f
  bm_Queries :: "string list"
  bm_Recurse :: bool
  bm_Rcodes :: bool
  bm_HistPre :: int
  bm_HistMin :: int
  bm_HistMax :: int
  bm_Rate :: int
  bm_Writer :: writer
  bm_Silent :: bool
  bm_ProgressBar :: bool
  bm_JSON :: bool

text \<open>\<open>p\<close> is the float 0.7, \<open>pre\<close> and \<open>timeout\<close> are the library's default precision and timeout.\<close>

definition NewMixed :: "'f \<Rightarrow> int \<Rightarrow> int \<Rightarrow> 'f Benchmark Scenario" where
  "NewMixed p pre timeout =
     \<lparr>sc_Name = ''mixed'', sc_BlocklistPath = [], sc_BNSEnv = [],
      sc_Build = (\<lambda>target dur c.
        \<lparr>bm_Server = target, bm_Types = [''A'', ''AAAA''], bm_Concurrency = c, bm_Duration = dur,
         bm_Probability = p, bm_Queries = [''@scripts/stress/queries/mixed.txt''], bm_Recurse = True,
         bm_Rcodes = True, bm_HistPre = pre, bm_HistMin = 0, bm_HistMax = timeout, bm_Rate = 0,
         bm_Writer = NoWriter, bm_Silent = False, bm_ProgressBar = False, bm_JSON = False\<rparr>)\<rparr>"

definition stdSilent :: "'f Benchmark \<Rightarrow> 'f Benchmark" where
  "stdSilent b = b\<lparr>bm_Writer := Discard, bm_Silent := True, bm_ProgressBar := False, bm_JSON := False\<rparr>"

section \<open>The outside\<close>

datatype child = MockChild | BnsChild

datatype event =
    EvStart child string "string list" "string list option"
  | EvInterrupt child
  | EvKill child
  | EvWait child
  | EvCreate string
  | EvClose string
  | EvFile string string
  | EvBench "string list"

record merged =
  mg_Total :: int
  mg_IOError :: int
  mg_IDmismatch :: int
  mg_ValueAtQuantile :: "int \<Rightarrow> int"

text \<open>
  \<open>wd_exits\<close> says whether a child exits within ten seconds of the interrupt, \<open>wd_scrape\<close> answers the
  metrics request before (\<open>False\<close>) and after (\<open>True\<close>) the load, \<open>wd_pprof\<close> a profile request with
  status, body and the error that ends copying it. The CPU profile is taken by a goroutine while the
  load runs: \<open>wd_cpu_early\<close> of its actions on files happen before the benchmark starts, and
  \<open>wd_cpu_late\<close> more before it ends.
\<close>

record 'f world =
  wd_fops :: "'f fops"
  wd_fmt :: "'f rfmt"
  wd_Seconds :: "int \<Rightarrow> 'f"
  wd_ErrorText :: "goerror \<Rightarrow> string"
  wd_Join :: "string list \<Rightarrow> string"
  wd_timestamp :: string
  wd_MkdirAll :: "string \<Rightarrow> goerror option"
  wd_Create :: "string \<Rightarrow> goerror option"
  wd_WriteFile :: "string \<Rightarrow> goerror option"
  wd_Start :: "child \<Rightarrow> goerror option"
  wd_exits :: "child \<Rightarrow> bool"
  wd_Environ :: "string list"
  wd_newRequest :: "string \<Rightarrow> goerror option"
  wd_ready :: "nat \<Rightarrow> goerror + int"
  wd_ready_sel :: "nat \<Rightarrow> goerror option"
  wd_dns :: "nat \<Rightarrow> bool"
  wd_dns_sel :: "nat \<Rightarrow> goerror option"
  wd_scrape :: "bool \<Rightarrow> string \<Rightarrow> goerror + int \<times> (goerror + string)"
  wd_pprof :: "string \<Rightarrow> goerror + int \<times> string \<times> goerror option"
  wd_cpu_early :: nat
  wd_cpu_late :: nat
  wd_disk :: "string \<Rightarrow> goerror + string \<times> goerror option"
  wd_bench :: "'f Benchmark \<Rightarrow> goerror + merged"
  wd_start :: int
  wd_elapsed :: int
  wd_git :: "goerror + string"
  wd_uname :: "goerror + string"
  wd_platform :: string
  wd_goversion :: string
  wd_config_json :: "stress_Config \<Rightarrow> string \<Rightarrow> string \<Rightarrow> goerror + string"

record 'f Result =
  rs_OutDir :: string
  rs_TotalQueries :: int
  rs_QPS :: 'f
  rs_P50 :: int
  rs_P95 :: int
  rs_P99 :: int
  rs_IOErrors :: int
  rs_IDMismatches :: int
  rs_Counters :: counts
  rs_UpstreamQueries :: int
  rs_CoalescedQueries :: int
  rs_CacheEvictions :: int
  rs_Panics :: int

section \<open>Returning and deferring\<close>

text \<open>A run: what it returns (\<open>None\<close> when it never does) and the events on the way.\<close>

type_synonym 'f run_out = "('f Result \<times> goerror option) go option \<times> event list"

definition zero_Result :: "'f world \<Rightarrow> 'f Result" where
  "zero_Result W =
     \<lparr>rs_OutDir = [], rs_TotalQueries = 0, rs_QPS = fm_of_int (rf_math (wd_fmt W)) 0, rs_P50 = 0, rs_P95 = 0,
      rs_P99 = 0, rs_IOErrors = 0, rs_IDMismatches = 0, rs_Counters = [], rs_UpstreamQueries = 0,
      rs_CoalescedQueries = 0, rs_CacheEvictions = 0, rs_Panics = 0\<rparr>"

definition run_fail :: "'f world \<Rightarrow> goerror \<Rightarrow> 'f run_out" where
  "run_fail W e = (Some (Ret (zero_Result W, Some e)), [])"

definition after :: "event list \<Rightarrow> 'f run_out \<Rightarrow> 'f run_out" where
  "after evs x = (fst x, evs @ snd x)"

text \<open>A deferred call runs when the function returns or panics.\<close>

definition deferring :: "event list \<Rightarrow> 'f run_out \<Rightarrow> 'f run_out" where
  "deferring d x = (fst x, snd x @ (if fst x = None then [] else d))"

section \<open>Helpers of a run\<close>

definition terminate :: "'f world \<Rightarrow> child \<Rightarrow> event list" where
  "terminate W c = (if wd_exits W c then [EvInterrupt c, EvWait c] else [EvInterrupt c, EvKill c, EvWait c])"

definition capturePprof :: "'f world \<Rightarrow> string \<Rightarrow> string \<Rightarrow> goerror option \<times> event list" where
  "capturePprof W url outPath =
     (case wd_newRequest W url of
        Some e \<Rightarrow> (Some e, [])
      | None \<Rightarrow>
          (case wd_pprof W url of
             Inl e \<Rightarrow> (Some e, [])
           | Inr (status, body, cerr) \<Rightarrow>
               if status \<noteq> 200 then (Some (ErrNew (''pprof '' @ url @ '' status '' @ Itoa status)), [])
               else
                 (case wd_Create W outPath of
                    Some e \<Rightarrow> (Some e, [])
                  | None \<Rightarrow> (cerr, [EvCreate outPath, EvFile outPath body, EvClose outPath]))))"

definition gitSha :: "'f world \<Rightarrow> string" where
  "gitSha W = (case wd_git W of Inl _ \<Rightarrow> ''unknown'' | Inr out \<Rightarrow> TrimSpace out)"

definition hostString :: "'f world \<Rightarrow> string" where
  "hostString W = (case wd_uname W of Inl _ \<Rightarrow> wd_platform W | Inr out \<Rightarrow> TrimSpace out)"

text \<open>A write whose error is dropped.\<close>

definition try_write :: "'f world \<Rightarrow> string \<Rightarrow> string \<Rightarrow> event list" where
  "try_write W path content = (case wd_WriteFile W path of Some _ \<Rightarrow> [] | None \<Rightarrow> [EvFile path content])"

definition in_dir :: "'f world \<Rightarrow> stress_Config \<Rightarrow> string \<Rightarrow> string" where
  "in_dir W cfg name = wd_Join W [sg_OutDir cfg, name]"

section \<open>The end of a run\<close>

definition run_result :: "'f world \<Rightarrow> stress_Config \<Rightarrow> merged \<Rightarrow> 'f MetricsDiff \<Rightarrow> 'f Result" where
  "run_result W cfg mg d =
     (let A = rf_math (wd_fmt W) in
      \<lparr>rs_OutDir = sg_OutDir cfg, rs_TotalQueries = mg_Total mg,
       rs_QPS = fm_div A (fm_of_int A (mg_Total mg)) (wd_Seconds W (wd_elapsed W)),
       rs_P50 = mg_ValueAtQuantile mg 50, rs_P95 = mg_ValueAtQuantile mg 95, rs_P99 = mg_ValueAtQuantile mg 99,
       rs_IOErrors = mg_IOError mg, rs_IDMismatches = mg_IDmismatch mg,
       rs_Counters = md_QueriesByOutcome d, rs_UpstreamQueries = md_UpstreamQueries d,
       rs_CoalescedQueries = md_CoalescedQueries d, rs_CacheEvictions = md_CacheEvictions d,
       rs_Panics = md_Panics d\<rparr>)"

definition report_input :: "'f world \<Rightarrow> stress_Config \<Rightarrow> 'f Result \<Rightarrow> 'f ReportInput" where
  "report_input W cfg res =
     \<lparr>ri_Scenario = sg_Scenario cfg, ri_StartedAt = wd_start W, ri_Target = sg_Target cfg, ri_Admin = sg_Admin cfg,
      ri_BNSGitSha = gitSha W, ri_GoVersion = wd_goversion W, ri_Host = hostString W,
      ri_Duration = sg_Duration cfg, ri_Concurrency = sg_Concurrency cfg,
      ri_TotalQueries = rs_TotalQueries res, ri_QPS = rs_QPS res, ri_P50 = rs_P50 res, ri_P95 = rs_P95 res,
      ri_P99 = rs_P99 res, ri_IOErrors = rs_IOErrors res, ri_IDMismatches = rs_IDMismatches res,
      ri_Counters = rs_Counters res, ri_UpstreamQueries = rs_UpstreamQueries res,
      ri_CoalescedQueries = rs_CoalescedQueries res, ri_CacheEvictions = rs_CacheEvictions res,
      ri_Panics = rs_Panics res, ri_OutDir = sg_OutDir cfg, ri_PprofCPU = ''cpu.pprof'',
      ri_PprofHeap = ''heap.pprof''\<rparr>"

definition run_report :: "'f world \<Rightarrow> stress_Config \<Rightarrow> merged \<Rightarrow> 'f Snapshot \<Rightarrow> 'f Snapshot \<Rightarrow> 'f run_out" where
  "run_report W cfg mg before after_snap =
     (let res = run_result W cfg mg (Diff (wd_fops W) before after_snap);
          jsonPath = in_dir W cfg ''dnspyre-results.json'';
          json_evs = (case wd_Create W jsonPath of Some _ \<Rightarrow> [] | None \<Rightarrow> [EvCreate jsonPath, EvClose jsonPath]);
          report = Render (wd_fmt W) (report_input W cfg res)
      in after json_evs
        (case wd_WriteFile W (in_dir W cfg ''report.md'') of
           Some e \<Rightarrow> (Some (Ret (res, Some e)), [])
         | None \<Rightarrow>
             after ([EvFile (in_dir W cfg ''report.md'') report]
                 @ (case wd_config_json W cfg (gitSha W) (wd_goversion W) of
                      Inl _ \<Rightarrow> []
                    | Inr js \<Rightarrow> try_write W (in_dir W cfg ''config.json'') js))
               (case run_verdict cfg (rs_IOErrors res) (rs_IDMismatches res) of
                  Some e \<Rightarrow>
                    after (try_write W (in_dir W cfg ''FAILED'')
                        (''io_errors='' @ Itoa (rs_IOErrors res) @ '' id_mismatches='' @ Itoa (rs_IDMismatches res)))
                      (Some (Ret (res, Some e)), [])
                | None \<Rightarrow> (Some (Ret (res, None)), []))))"

text \<open>The two profiles. The first is the goroutine of the CPU profile: what it sends on the channel
  and the actions it takes.\<close>

definition cpu_profile :: "'f world \<Rightarrow> stress_Config \<Rightarrow> goerror option \<times> event list" where
  "cpu_profile W cfg =
     (if 0 < sg_PprofCPU cfg then
        capturePprof W (AdminBaseURL (sg_Admin cfg) @ ''/debug/pprof/profile?seconds=''
            @ Itoa (fm_int64 (rf_math (wd_fmt W)) (wd_Seconds W (sg_PprofCPU cfg))))
          (in_dir W cfg ''cpu.pprof'')
      else (None, []))"

definition cpu_received :: "'f world \<Rightarrow> stress_Config \<Rightarrow> goerror option \<Rightarrow> event list" where
  "cpu_received W cfg err =
     (case err of None \<Rightarrow> [] | Some e \<Rightarrow> try_write W (in_dir W cfg ''cpu.pprof.err'') (wd_ErrorText W e))"

definition heap_profile :: "'f world \<Rightarrow> stress_Config \<Rightarrow> event list" where
  "heap_profile W cfg =
     (if sg_PprofHeap cfg then
        (let (err, evs) = capturePprof W (AdminBaseURL (sg_Admin cfg) @ ''/debug/pprof/heap'') (in_dir W cfg ''heap.pprof'')
         in evs @ (case err of None \<Rightarrow> [] | Some e \<Rightarrow> try_write W (in_dir W cfg ''heap.pprof.err'') (wd_ErrorText W e)))
      else [])"

section \<open>The load\<close>

text \<open>A scrape that must succeed and be saved before the run goes on.\<close>

definition scrape_then :: "'f world \<Rightarrow> stress_Config \<Rightarrow> bool \<Rightarrow> string \<Rightarrow> string \<Rightarrow> ('f Snapshot \<Rightarrow> 'f run_out) \<Rightarrow> 'f run_out" where
  "scrape_then W cfg late what file k =
     (case FetchSnapshot (wd_fops W) (wd_scrape W late) (AdminBaseURL (sg_Admin cfg)) of
        Panic p \<Rightarrow> (Some (Panic p), [])
      | Ret (snap, raw, Some e) \<Rightarrow> run_fail W (ErrWrap what e)
      | Ret (snap, raw, None) \<Rightarrow>
          (case wd_WriteFile W (in_dir W cfg file) of
             Some e \<Rightarrow> run_fail W e
           | None \<Rightarrow> after [EvFile (in_dir W cfg file) (case raw of None \<Rightarrow> [] | Some b \<Rightarrow> b)] (k snap)))"

definition run_benchmark :: "stress_Config \<Rightarrow> 'f Benchmark Scenario \<Rightarrow> 'f Benchmark" where
  "run_benchmark cfg sc =
     (let b = stdSilent (sc_Build sc (sg_Target cfg) (sg_Duration cfg) (sg_Concurrency cfg)) in
      if 0 < sg_RateLimit cfg then b\<lparr>bm_Rate := sg_RateLimit cfg\<rparr> else b)"

text \<open>The goroutine's actions come where it has got to; the run waits for it only after a benchmark
  that succeeded, and what it does after an earlier return is not part of the run.\<close>

definition run_load :: "'f world \<Rightarrow> stress_Config \<Rightarrow> 'f Benchmark Scenario \<Rightarrow> 'f Snapshot \<Rightarrow> 'f run_out" where
  "run_load W cfg sc before =
     (let (perr, pevs) = cpu_profile W cfg;
          early = take (wd_cpu_early W) pevs;
          late = take (wd_cpu_late W) (drop (wd_cpu_early W) pevs);
          rest = drop (wd_cpu_late W) (drop (wd_cpu_early W) pevs);
          b = run_benchmark cfg sc in
      after early
        (case expandFileRefs (wd_disk W) (bm_Queries b) of
           (Some e, _) \<Rightarrow> run_fail W (ErrWrap ''expand queries'' e)
         | (None, qs) \<Rightarrow>
             after (EvBench qs # late)
               (case wd_bench W (b\<lparr>bm_Queries := qs\<rparr>) of
                  Inl e \<Rightarrow> run_fail W (ErrWrap ''dnspyre run'' e)
                | Inr mg \<Rightarrow>
                    after (rest @ cpu_received W cfg perr @ heap_profile W cfg)
                      (scrape_then W cfg True ''scrape after'' ''after.prom'' (run_report W cfg mg before)))))"

definition run_ready :: "'f world \<Rightarrow> stress_Config \<Rightarrow> 'f Benchmark Scenario \<Rightarrow> 'f run_out" where
  "run_ready W cfg sc =
     (case WaitForReady (wd_newRequest W) (wd_ready W) (wd_ready_sel W) (AdminBaseURL (sg_Admin cfg)) of
        None \<Rightarrow> (None, [])
      | Some (Some e) \<Rightarrow> run_fail W (ErrWrap ''bns not ready'' e)
      | Some None \<Rightarrow>
          (case WaitForDNSReady (wd_dns W) (wd_dns_sel W) (sg_Target cfg) 3 of
             None \<Rightarrow> (None, [])
           | Some (Some e) \<Rightarrow> run_fail W (ErrWrap ''dns not ready'' e)
           | Some None \<Rightarrow> scrape_then W cfg False ''scrape before'' ''before.prom'' (run_load W cfg sc)))"

section \<open>The run\<close>

definition defaultMockAddr :: string where
  "defaultMockAddr = ''127.0.0.1:5355''"

definition mock_args :: "string list" where
  "mock_args = [''--listen.udp'', defaultMockAddr, ''--listen.tcp'', defaultMockAddr]"

definition bns_args :: "stress_Config \<Rightarrow> string list" where
  "bns_args cfg =
     [''serve'', ''--listen.udp'', sg_Target cfg, ''--listen.tcp'', sg_Target cfg, ''--upstream'', defaultMockAddr,
      ''--pprof''] @ (if sg_BlocklistPath cfg \<noteq> [] then [''--blocklist'', sg_BlocklistPath cfg] else [])"

definition default_env :: "stress_Config \<Rightarrow> env_map" where
  "default_env cfg =
     [(''BNS_LOGGING__LEVEL'', ''info''), (''BNS_LOGGING__FORMAT'', ''json''),
      (''BNS_LOGGING__QUERY_LOG__ENABLED'', ''false''), (''BNS_CACHE__CAPACITY'', ''10000''),
      (''BNS_ADMIN__LISTEN'', sg_Admin cfg)]"

definition start_mock :: "stress_Config \<Rightarrow> event" where
  "start_mock cfg = EvStart MockChild (sg_MockBin cfg) mock_args None"

definition start_bns :: "'f world \<Rightarrow> stress_Config \<Rightarrow> 'f Benchmark Scenario \<Rightarrow> event" where
  "start_bns W cfg sc =
     EvStart BnsChild (sg_BNSBin cfg) (bns_args cfg) (Some (wd_Environ W @ BNSEnv (sc_BNSEnv sc) (default_env cfg)))"

definition run_spawn :: "'f world \<Rightarrow> stress_Config \<Rightarrow> 'f Benchmark Scenario \<Rightarrow> 'f run_out" where
  "run_spawn W cfg sc =
     (if sg_Spawn cfg then
        (case wd_Start W MockChild of
           Some e \<Rightarrow> run_fail W (ErrWrap ''start mockupstream'' e)
         | None \<Rightarrow>
             after [start_mock cfg] (deferring (terminate W MockChild)
               (case wd_Start W BnsChild of
                  Some e \<Rightarrow> run_fail W (ErrWrap ''start bns'' e)
                | None \<Rightarrow>
                    after [start_bns W cfg sc] (deferring (terminate W BnsChild) (run_ready W cfg sc)))))
      else run_ready W cfg sc)"

definition with_log :: "'f world \<Rightarrow> string \<Rightarrow> 'f run_out \<Rightarrow> 'f run_out" where
  "with_log W path x =
     (case wd_Create W path of
        Some e \<Rightarrow> run_fail W e
      | None \<Rightarrow> after [EvCreate path] (deferring [EvClose path] x))"

definition resolve_OutDir :: "'f world \<Rightarrow> stress_Config \<Rightarrow> stress_Config" where
  "resolve_OutDir W cfg =
     (if sg_OutDir cfg = [] then cfg\<lparr>sg_OutDir := wd_Join W [''dist'', ''stress'', wd_timestamp W]\<rparr> else cfg)"

definition Run :: "'f world \<Rightarrow> 'f Benchmark registry \<Rightarrow> stress_Config \<Rightarrow> 'f run_out" where
  "Run W reg cfg =
     (case stress_Validate cfg of
        Some e \<Rightarrow> run_fail W e
      | None \<Rightarrow>
          (case LookupScenario (sg_Scenario cfg) reg of
             None \<Rightarrow> run_fail W (ErrNew ''unknown scenario'')
           | Some sc \<Rightarrow>
               (let cfg = resolve_OutDir W cfg in
                case wd_MkdirAll W (sg_OutDir cfg) of
                  Some e \<Rightarrow> run_fail W (ErrWrap ''create out dir'' e)
                | None \<Rightarrow>
                    with_log W (in_dir W cfg ''bns.log'')
                      (with_log W (in_dir W cfg ''mockupstream.log'') (run_spawn W cfg sc)))))"

section \<open>Cleaning up\<close>

fun is_child :: "event \<Rightarrow> bool" where
  "is_child (EvStart c p as env) = True"
| "is_child (EvInterrupt c) = True"
| "is_child (EvKill c) = True"
| "is_child (EvWait c) = True"
| "is_child _ = False"

text \<open>A list of events that starts and stops no child and closes every file it creates.\<close>

definition tidy :: "event list \<Rightarrow> bool" where
  "tidy evs \<longleftrightarrow> filter is_child evs = [] \<and> (\<forall>p. count_list evs (EvCreate p) = count_list evs (EvClose p))"

lemma tidy_Nil [simp]: "tidy []" and tidy_File [simp]: "tidy (EvFile p s # evs) \<longleftrightarrow> tidy evs"
  and tidy_Bench [simp]: "tidy (EvBench qs # evs) \<longleftrightarrow> tidy evs"
  and tidy_append: "tidy xs \<Longrightarrow> tidy ys \<Longrightarrow> tidy (xs @ ys)"
  and tidy_open: "tidy [EvCreate p, EvClose p]" and tidy_written: "tidy [EvCreate p, EvFile p s, EvClose p]"
  by (auto simp: tidy_def)

lemma tidy_insert: "tidy (xs @ ys) \<Longrightarrow> tidy (xs @ EvBench qs # ys)"
  by (auto simp: tidy_def)

lemma tidy_after: "tidy evs \<Longrightarrow> tidy (snd x) \<Longrightarrow> tidy (snd (after evs x))"
  by (simp add: after_def tidy_append)

lemma tidy_run_fail [simp]: "tidy (snd (run_fail W e))"
  by (simp add: run_fail_def)

lemma tidy_try_write [simp]: "tidy (try_write W p s)"
  by (simp add: try_write_def split: option.split)

lemma tidy_capture: "tidy (snd (capturePprof W url p))"
  by (auto simp: capturePprof_def tidy_written split: option.split sum.split)

lemma tidy_cpu: "tidy (snd (cpu_profile W cfg))"
  using tidy_capture by (auto simp: cpu_profile_def)

lemma tidy_received [simp]: "tidy (cpu_received W cfg err)"
  by (simp add: cpu_received_def split: option.split)

lemma tidy_heap [simp]: "tidy (heap_profile W cfg)"
  using tidy_capture by (auto simp: heap_profile_def split_def Let_def intro!: tidy_append split: option.split)

lemma tidy_report: "tidy (snd (run_report W cfg mg b a))"
  by (auto simp: run_report_def Let_def tidy_open split: option.split sum.split intro!: tidy_after tidy_append)

lemma tidy_scrape:
  assumes "\<And>s. tidy (snd (k s))"
  shows "tidy (snd (scrape_then W cfg late what file k))"
  using assms by (auto simp: scrape_then_def split: go.split option.split intro!: tidy_after)

text \<open>The two returns that do not wait for the goroutine of the CPU profile, and runs that tidy up
  but may leave that profile open on them.\<close>

definition load_cut :: "'f world \<Rightarrow> ('f Result \<times> goerror option) go option \<Rightarrow> bool" where
  "load_cut W r \<longleftrightarrow> (\<exists>e. r = Some (Ret (zero_Result W, Some (ErrWrap ''expand queries'' e)))
     \<or> r = Some (Ret (zero_Result W, Some (ErrWrap ''dnspyre run'' e))))"

definition files_closed :: "'f world \<Rightarrow> string \<Rightarrow> 'f run_out \<Rightarrow> bool" where
  "files_closed W cpu x \<longleftrightarrow> (\<forall>p. count_list (snd x) (EvCreate p) = count_list (snd x) (EvClose p)
     \<or> p = cpu \<and> load_cut W (fst x))"

abbreviation tidy_run :: "'f world \<Rightarrow> string \<Rightarrow> 'f run_out \<Rightarrow> bool" where
  "tidy_run W cpu x \<equiv> filter is_child (snd x) = [] \<and> files_closed W cpu x"

lemma tidy_is_run: "tidy (snd x) \<Longrightarrow> tidy_run W cpu x"
  by (auto simp: tidy_def files_closed_def)

lemma tidy_run_after: "tidy evs \<Longrightarrow> tidy_run W cpu x \<Longrightarrow> tidy_run W cpu (after evs x)"
  by (auto simp: tidy_def after_def files_closed_def)

text \<open>Any number of actions of the goroutine.\<close>

lemma cpu_prefix:
  assumes "snd (cpu_profile W cfg) = evs"
  shows "filter is_child (take n evs) = []"
    and "q \<noteq> in_dir W cfg ''cpu.pprof'' \<Longrightarrow> count_list (take n evs) (EvCreate q) = count_list (take n evs) (EvClose q)"
proof -
  have "evs = [] \<or> (\<exists>b. evs = [EvCreate (in_dir W cfg ''cpu.pprof''), EvFile (in_dir W cfg ''cpu.pprof'') b,
      EvClose (in_dir W cfg ''cpu.pprof'')])"
    using assms by (auto simp: cpu_profile_def capturePprof_def split: if_splits option.splits sum.splits)
  then show "filter is_child (take n evs) = []"
    "q \<noteq> in_dir W cfg ''cpu.pprof'' \<Longrightarrow> count_list (take n evs) (EvCreate q) = count_list (take n evs) (EvClose q)"
    by (auto simp: take_Cons split: nat.splits)
qed

lemma take_more: "take n xs @ take m (drop n xs) = take (n + m) xs"
  by (simp add: take_add)

lemma tidy_load: "tidy_run W (in_dir W cfg ''cpu.pprof'') (run_load W cfg sc b)"
proof -
  let ?cpu = "in_dir W cfg ''cpu.pprof''" and ?b = "run_benchmark cfg sc"
  let ?n = "wd_cpu_early W" and ?m = "wd_cpu_late W"
  obtain perr pevs where c: "cpu_profile W cfg = (perr, pevs)" by fastforce
  note pre = cpu_prefix [of W cfg pevs, unfolded c, OF snd_conv]
  have all: "tidy pevs" using tidy_cpu [of W cfg] c by simp
  obtain err qs where x: "expandFileRefs (wd_disk W) (bm_Queries ?b) = (err, qs)" by fastforce
  have bench: "filter is_child (take ?n pevs @ EvBench qs # take ?m (drop ?n pevs)) = []"
    "count_list (take ?n pevs @ EvBench qs # take ?m (drop ?n pevs)) (EvCreate p) = count_list (take (?n + ?m) pevs) (EvCreate p)"
    "count_list (take ?n pevs @ EvBench qs # take ?m (drop ?n pevs)) (EvClose p) = count_list (take (?n + ?m) pevs) (EvClose p)" for p
    using pre(1) [of "?n + ?m"] by (simp_all add: take_more [symmetric])
  show ?thesis
  proof (cases err)
    case (Some e)
    then have "run_load W cfg sc b = after (take ?n pevs) (run_fail W (ErrWrap ''expand queries'' e))"
      using x by (simp add: run_load_def c Let_def)
    then show ?thesis using pre(1) [of ?n] pre(2) [of _ ?n] by (auto simp: files_closed_def load_cut_def after_def run_fail_def)
  next
    case None
    show ?thesis
    proof (cases "wd_bench W (?b\<lparr>bm_Queries := qs\<rparr>)")
      case (Inl e)
      then have "run_load W cfg sc b = after (take ?n pevs @ EvBench qs # take ?m (drop ?n pevs))
          (run_fail W (ErrWrap ''dnspyre run'' e))"
        using x None by (simp add: run_load_def c Let_def after_def)
      then show ?thesis using bench(1) pre(2) [of _ "?n + ?m"]
        by (auto simp: files_closed_def load_cut_def after_def run_fail_def bench(2,3) simp del: count_list_append count_list.simps)
    next
      case (Inr mg)
      let ?r = "drop ?m (drop ?n pevs)"
      let ?last = "after (cpu_received W cfg perr @ heap_profile W cfg)
        (scrape_then W cfg True ''scrape after'' ''after.prom'' (run_report W cfg mg b))"
      have "tidy (take ?n pevs @ EvBench qs # take ?m (drop ?n pevs) @ ?r)"
        using tidy_insert [of "take ?n pevs" "drop ?n pevs" qs] all by (simp del: drop_drop)
      moreover have "tidy (snd ?last)"
        by (intro tidy_after tidy_append tidy_scrape) (simp_all add: tidy_report)
      moreover have "run_load W cfg sc b = after (take ?n pevs @ EvBench qs # take ?m (drop ?n pevs) @ ?r) ?last"
        using x None Inr by (simp add: run_load_def c Let_def after_def)
      ultimately show ?thesis by (metis tidy_is_run tidy_run_after)
    qed
  qed
qed

lemma tidy_ready: "tidy_run W (in_dir W cfg ''cpu.pprof'') (run_ready W cfg sc)"
proof -
  let ?cpu = "in_dir W cfg ''cpu.pprof''"
  have f: "tidy_run W ?cpu (run_fail W e)" "tidy_run W ?cpu (None, [])" "tidy_run W ?cpu (Some (Panic p), [])" for e p
    by (rule tidy_is_run; simp)+
  have l: "tidy_run W ?cpu (after [EvFile q r] (run_load W cfg sc b))" for q r b
    by (rule tidy_run_after [OF _ tidy_load]) simp
  have "tidy_run W ?cpu (scrape_then W cfg False ''scrape before'' ''before.prom'' (run_load W cfg sc))"
    using f l by (auto simp: scrape_then_def split: go.split option.split)
  then show ?thesis using f by (auto simp: run_ready_def split: option.split)
qed

text \<open>What a process goes through at the end: the interrupt, the kill if it does not exit, and only
  then the wait that reaps it.\<close>

definition stopped :: "'f world \<Rightarrow> child \<Rightarrow> event list" where
  "stopped W c = EvInterrupt c # (if wd_exits W c then [] else [EvKill c]) @ [EvWait c]"

definition children_ended :: "'f world \<Rightarrow> stress_Config \<Rightarrow> 'f Benchmark registry \<Rightarrow> event list \<Rightarrow> bool" where
  "children_ended W cfg reg evs \<longleftrightarrow>
     filter is_child evs = []
     \<or> filter is_child evs = start_mock cfg # stopped W MockChild
     \<or> (\<exists>sc. LookupScenario (sg_Scenario cfg) reg = Some sc \<and>
          filter is_child evs = [start_mock cfg, start_bns W cfg sc] @ stopped W BnsChild @ stopped W MockChild)"

lemma terminate_stops: "terminate W c = stopped W c"
  by (simp add: terminate_def stopped_def)

lemma stopped_children [simp]: "filter is_child (stopped W c) = stopped W c"
  by (simp add: stopped_def)

lemma stopped_files [simp]: "count_list (stopped W c) (EvCreate p) = 0" "count_list (stopped W c) (EvClose p) = 0"
  by (simp_all add: stopped_def)

lemma start_events [simp]: "is_child (start_mock cfg)" "is_child (start_bns W cfg sc)"
  "start_mock cfg \<noteq> EvCreate p" "start_mock cfg \<noteq> EvClose p"
  "start_bns W cfg sc \<noteq> EvCreate p" "start_bns W cfg sc \<noteq> EvClose p"
  by (simp_all add: start_mock_def start_bns_def)

lemma start_OutDir [simp]:
  "start_mock (resolve_OutDir W cfg) = start_mock cfg" "start_bns W (resolve_OutDir W cfg) sc = start_bns W cfg sc"
  by (simp_all add: start_mock_def start_bns_def bns_args_def default_env_def resolve_OutDir_def)

lemma spawn_children:
  assumes "fst (run_spawn W cfg sc) = Some r"
  shows "filter is_child (snd (run_spawn W cfg sc)) \<in>
      {[], start_mock cfg # stopped W MockChild,
       [start_mock cfg, start_bns W cfg sc] @ stopped W BnsChild @ stopped W MockChild}
    \<and> files_closed W (in_dir W cfg ''cpu.pprof'') (run_spawn W cfg sc)"
  using assms tidy_ready [of W cfg sc]
  by (auto simp: run_spawn_def run_fail_def after_def deferring_def files_closed_def terminate_stops
      split: if_splits option.splits)

lemma with_log_fst: "fst (with_log W p x) = (case wd_Create W p of Some e \<Rightarrow> fst (run_fail W e) | None \<Rightarrow> fst x)"
  by (simp add: with_log_def after_def deferring_def split: option.split)

lemma with_log_children:
  "filter is_child (snd (with_log W p x)) = (case wd_Create W p of Some e \<Rightarrow> [] | None \<Rightarrow> filter is_child (snd x))"
  by (simp add: with_log_def after_def deferring_def run_fail_def split: option.split)

lemma with_log_files: "fst x \<noteq> None \<Longrightarrow> files_closed W cpu x \<Longrightarrow> files_closed W cpu (with_log W p x)"
  by (auto simp: files_closed_def with_log_def after_def deferring_def run_fail_def split: option.split)

section \<open>Returning\<close>

lemma after_fst [simp]: "fst (after evs x) = fst x" and deferring_fst [simp]: "fst (deferring d x) = fst x"
  by (simp_all add: after_def deferring_def)

lemma run_fail_fst [simp]: "fst (run_fail W e) = Some (Ret (zero_Result W, Some e))"
  by (simp add: run_fail_def)

lemma report_returns: "fst (run_report W cfg mg b a) \<noteq> None"
  by (auto simp: run_report_def Let_def split: option.split)

lemma scrape_returns: "(\<And>s. fst (k s) \<noteq> None) \<Longrightarrow> fst (scrape_then W cfg late what file k) \<noteq> None"
  by (auto simp: scrape_then_def split: go.split option.split)

lemma load_returns: "fst (run_load W cfg sc b) \<noteq> None"
  using scrape_returns [of "run_report W cfg mg b" W cfg True "''scrape after''" "''after.prom''" for mg, OF report_returns]
  by (auto simp: run_load_def Let_def split: option.split sum.split prod.split)

lemma waits_return:
  assumes "deadline (wd_ready_sel W) n e" "deadline (wd_dns_sel W) n' e'"
  shows "WaitForReady (wd_newRequest W) (wd_ready W) (wd_ready_sel W) url \<noteq> None"
    "WaitForDNSReady (wd_dns W) (wd_dns_sel W) target 3 \<noteq> None"
  using ready_loop_from_0 [OF assms(1), of "wd_ready W"] dns_loop_from_0 [OF assms(2), of "wd_dns W" 2]
  by (auto simp: WaitForReady_def WaitForDNSReady_def split: option.split sum.split)

lemma spawn_returns:
  assumes "deadline (wd_ready_sel W) n e" "deadline (wd_dns_sel W) n' e'"
  shows "fst (run_spawn W cfg sc) \<noteq> None"
proof -
  have "fst (run_ready W cfg sc) \<noteq> None"
    using waits_return(1) [OF assms, of "AdminBaseURL (sg_Admin cfg)"] waits_return(2) [OF assms, of "sg_Target cfg"]
      scrape_returns [of "run_load W cfg sc" W cfg False "''scrape before''" "''before.prom''", OF load_returns]
    by (auto simp: run_ready_def split: option.split)
  then show ?thesis by (auto simp: run_spawn_def split: option.split)
qed

section \<open>Properties\<close>

text \<open>C30: A stress run whose two waits have deadlines returns, and on every way out (failed checks,
  failed starts, errors of the scrapes, the benchmark or the report, and panics) it ends what it
  began: each child it started has been interrupted, killed if it did not exit, and reaped, the
  server before the mock it talks to, and every file it created has been closed, with one exception:
  when the queries cannot be read or the benchmark fails, the run returns without waiting for the
  goroutine that takes the CPU profile, which may then have the profile still open.\<close>

theorem Run_cleans_up:
  assumes "deadline (wd_ready_sel W) n e" "deadline (wd_dns_sel W) n' e'"
  shows "\<exists>r evs. Run W reg cfg = (Some r, evs) \<and> children_ended W cfg reg evs
    \<and> (\<forall>p. count_list evs (EvCreate p) = count_list evs (EvClose p)
       \<or> p = in_dir W (resolve_OutDir W cfg) ''cpu.pprof''
         \<and> (\<exists>e. r = Ret (zero_Result W, Some (ErrWrap ''expand queries'' e))
              \<or> r = Ret (zero_Result W, Some (ErrWrap ''dnspyre run'' e))))"
proof -
  let ?cpu = "in_dir W (resolve_OutDir W cfg) ''cpu.pprof''"
  have "\<exists>r evs. Run W reg cfg = (Some r, evs) \<and> children_ended W cfg reg evs \<and> files_closed W ?cpu (Run W reg cfg)"
  proof (cases "\<exists>r. Run W reg cfg = (Some r, [])")
    case True
    then show ?thesis by (auto simp: children_ended_def files_closed_def)
  next
    case False
    then obtain sc p1 p2 where sc: "LookupScenario (sg_Scenario cfg) reg = Some sc"
      and run: "Run W reg cfg = with_log W p1 (with_log W p2 (run_spawn W (resolve_OutDir W cfg) sc))"
      by (auto simp: Run_def run_fail_def Let_def split: option.splits)
    let ?s = "run_spawn W (resolve_OutDir W cfg) sc"
    obtain r where r: "fst ?s = Some r" using spawn_returns [OF assms, of "resolve_OutDir W cfg" sc] by auto
    note s = spawn_children [OF r]
    have x: "fst (with_log W p2 ?s) \<noteq> None" "fst (Run W reg cfg) \<noteq> None"
      by (auto simp: run with_log_fst r split: option.split)
    have "files_closed W ?cpu (Run W reg cfg)"
      unfolding run using s r x by (intro with_log_files) auto
    moreover have "children_ended W cfg reg (snd (Run W reg cfg))"
      using s sc by (auto simp: run children_ended_def with_log_children split: option.split)
    ultimately show ?thesis using x(2) by (cases "Run W reg cfg") auto
  qed
  then show ?thesis by (auto simp: files_closed_def load_cut_def)
qed

section \<open>What a success means\<close>

lemma after_eq: "after evs x = (r, evs') \<longleftrightarrow> (\<exists>e. x = (r, e) \<and> evs' = evs @ e)"
  by (cases x) (auto simp: after_def)

lemma deferring_eq: "deferring d x = (Some r, evs') \<longleftrightarrow> (\<exists>e. x = (Some r, e) \<and> evs' = e @ d)"
  by (cases x) (auto simp: deferring_def)

lemmas run_eqs = after_eq deferring_eq run_fail_def

lemma FetchSnapshot_raw: "FetchSnapshot F get url = Ret (s, raw, None) \<Longrightarrow> \<exists>b. raw = Some b"
  by (auto simp: FetchSnapshot_def split: sum.splits if_splits go.splits)

lemma report_ok:
  assumes "run_report W cfg mg b a = (Some (Ret (res, None)), evs)"
  shows "res = run_result W cfg mg (Diff (wd_fops W) b a)" "run_verdict cfg (rs_IOErrors res) (rs_IDMismatches res) = None"
    "EvFile (in_dir W cfg ''report.md'') (Render (wd_fmt W) (report_input W cfg res)) \<in> set evs"
  using assms by (auto simp: run_report_def Let_def run_eqs split: option.splits)

lemma scrape_ok:
  assumes "scrape_then W cfg late what file k = (Some (Ret (res, None)), evs)"
  obtains snap raw evs' where
    "FetchSnapshot (wd_fops W) (wd_scrape W late) (AdminBaseURL (sg_Admin cfg)) = Ret (snap, Some raw, None)"
    "k snap = (Some (Ret (res, None)), evs')" "evs = EvFile (in_dir W cfg file) raw # evs'"
  using assms FetchSnapshot_raw by (fastforce simp: scrape_then_def run_eqs split: go.splits option.splits prod.splits)

lemma load_ok:
  assumes "run_load W cfg sc b = (Some (Ret (res, None)), evs)"
  obtains qs mg evs' where "expandFileRefs (wd_disk W) (bm_Queries (run_benchmark cfg sc)) = (None, qs)"
    "wd_bench W ((run_benchmark cfg sc)\<lparr>bm_Queries := qs\<rparr>) = Inr mg" "EvBench qs \<in> set evs" "set evs' \<subseteq> set evs"
    "scrape_then W cfg True ''scrape after'' ''after.prom'' (run_report W cfg mg b) = (Some (Ret (res, None)), evs')"
proof -
  obtain perr pevs where c: "cpu_profile W cfg = (perr, pevs)" by fastforce
  show thesis
    using assms that by (auto simp: run_load_def c Let_def run_eqs split: option.splits sum.splits prod.splits) blast+
qed

lemma run_benchmark_Queries [simp]:
  "bm_Queries (run_benchmark cfg sc) = bm_Queries (sc_Build sc (sg_Target cfg) (sg_Duration cfg) (sg_Concurrency cfg))"
  by (simp add: run_benchmark_def stdSilent_def Let_def)

text \<open>The numbers of a result.\<close>

lemma run_result_counters:
  assumes "distinct (map fst (sn_QueriesByOutcome a))"
  shows "map_of (rs_Counters (run_result W cfg mg (Diff F b a))) k
      = map_option (\<lambda>v. wrap64 (v - counts_get (sn_QueriesByOutcome b) k)) (map_of (sn_QueriesByOutcome a) k)"
  using diff_counts_map [OF assms, of "sn_QueriesByOutcome b" "[]" 0 k]
  by (auto simp: run_result_def Let_def Diff_def split: prod.splits option.splits)

lemma ready_ok:
  assumes "run_ready W cfg sc = (Some (Ret (res, None)), evs)"
  shows "scrape_then W cfg False ''scrape before'' ''before.prom'' (run_load W cfg sc) = (Some (Ret (res, None)), evs)"
  using assms by (auto simp: run_ready_def run_eqs split: option.splits)

lemma spawn_ok:
  assumes "run_spawn W cfg sc = (Some (Ret (res, None)), evs)"
  obtains evs' where "run_ready W cfg sc = (Some (Ret (res, None)), evs')" "set evs' \<subseteq> set evs"
  using assms by (auto simp: run_spawn_def run_eqs split: option.splits if_splits) blast+

lemma with_log_ok:
  assumes "with_log W p x = (Some (Ret (res, None)), evs)"
  obtains evs' where "x = (Some (Ret (res, None)), evs')" "set evs' \<subseteq> set evs"
  using assms by (auto simp: with_log_def run_eqs split: option.splits) blast+

lemma Run_ok:
  assumes "Run W reg cfg = (Some (Ret (res, None)), evs)"
  obtains sc evs' where "LookupScenario (sg_Scenario cfg) reg = Some sc" "set evs' \<subseteq> set evs"
    "run_ready W (resolve_OutDir W cfg) sc = (Some (Ret (res, None)), evs')"
proof -
  obtain sc where sc: "LookupScenario (sg_Scenario cfg) reg = Some sc" and
    "with_log W (in_dir W (resolve_OutDir W cfg) ''bns.log'')
       (with_log W (in_dir W (resolve_OutDir W cfg) ''mockupstream.log'') (run_spawn W (resolve_OutDir W cfg) sc))
     = (Some (Ret (res, None)), evs)"
    using assms by (auto simp: Run_def Let_def run_fail_def split: option.splits)
  then show ?thesis using that by (elim with_log_ok spawn_ok) blast
qed

text \<open>C31: A stress run reports success only when it was one: every entry of the scenario's queries was
  loaded, none left out, and put to the server; the benchmark's errors are within the configured limit
  and no answer had a foreign ID; the numbers of the result are those of the benchmark and, for each
  outcome and each of the other counters, the 64-bit growth between the two metric pages that were
  scraped and saved; and the report of exactly this result has been written.\<close>

theorem Run_success_is_earned:
  assumes "Run W reg cfg = (Some (Ret (res, None)), evs)"
  shows "\<exists>sc xss mg b raw a raw'. reg (sg_Scenario cfg) = Some sc
    \<and> list_all2 (\<lambda>q xs. expand_entry (wd_disk W) q = Inr xs)
        (bm_Queries (sc_Build sc (sg_Target cfg) (sg_Duration cfg) (sg_Concurrency cfg))) xss
    \<and> EvBench (concat xss) \<in> set evs
    \<and> wd_bench W ((run_benchmark cfg sc)\<lparr>bm_Queries := concat xss\<rparr>) = Inr mg
    \<and> mg_IOError mg \<le> sg_MaxIOErrors cfg \<and> mg_IDmismatch mg \<le> 0
    \<and> FetchSnapshot (wd_fops W) (wd_scrape W False) (AdminBaseURL (sg_Admin cfg)) = Ret (b, Some raw, None)
    \<and> FetchSnapshot (wd_fops W) (wd_scrape W True) (AdminBaseURL (sg_Admin cfg)) = Ret (a, Some raw', None)
    \<and> rs_TotalQueries res = mg_Total mg \<and> rs_IOErrors res = mg_IOError mg \<and> rs_IDMismatches res = mg_IDmismatch mg
    \<and> rs_P50 res = mg_ValueAtQuantile mg 50 \<and> rs_P95 res = mg_ValueAtQuantile mg 95 \<and> rs_P99 res = mg_ValueAtQuantile mg 99
    \<and> (\<forall>k. map_of (rs_Counters res) k =
         map_option (\<lambda>v. wrap64 (v - counts_get (sn_QueriesByOutcome b) k)) (map_of (sn_QueriesByOutcome a) k))
    \<and> rs_UpstreamQueries res = wrap64 (sn_UpstreamQueries a - sn_UpstreamQueries b)
    \<and> rs_CoalescedQueries res = wrap64 (sn_CoalescedQueries a - sn_CoalescedQueries b)
    \<and> rs_CacheEvictions res = wrap64 (sn_CacheEvictions a - sn_CacheEvictions b)
    \<and> rs_Panics res = wrap64 (sn_Panics a - sn_Panics b)
    \<and> {EvFile (wd_Join W [rs_OutDir res, ''before.prom'']) raw, EvFile (wd_Join W [rs_OutDir res, ''after.prom'']) raw',
        EvFile (wd_Join W [rs_OutDir res, ''report.md'']) (Render (wd_fmt W) (report_input W (resolve_OutDir W cfg) res))}
       \<subseteq> set evs"
proof -
  let ?c = "resolve_OutDir W cfg"
  have c: "sg_Admin ?c = sg_Admin cfg" "run_benchmark ?c = run_benchmark cfg" "sg_MaxIOErrors ?c = sg_MaxIOErrors cfg"
    by (auto simp: resolve_OutDir_def run_benchmark_def Let_def fun_eq_iff)
  obtain sc evs1 where 1: "LookupScenario (sg_Scenario cfg) reg = Some sc" "set evs1 \<subseteq> set evs"
    "run_ready W ?c sc = (Some (Ret (res, None)), evs1)" using assms by (rule Run_ok)
  obtain b raw evs2 where 2: "FetchSnapshot (wd_fops W) (wd_scrape W False) (AdminBaseURL (sg_Admin ?c)) = Ret (b, Some raw, None)"
    "run_load W ?c sc b = (Some (Ret (res, None)), evs2)" "evs1 = EvFile (in_dir W ?c ''before.prom'') raw # evs2"
    using ready_ok [OF 1(3)] by (rule scrape_ok)
  obtain qs mg evs3 where 3: "expandFileRefs (wd_disk W) (bm_Queries (run_benchmark ?c sc)) = (None, qs)"
    "wd_bench W ((run_benchmark ?c sc)\<lparr>bm_Queries := qs\<rparr>) = Inr mg" "EvBench qs \<in> set evs2" "set evs3 \<subseteq> set evs2"
    "scrape_then W ?c True ''scrape after'' ''after.prom'' (run_report W ?c mg b) = (Some (Ret (res, None)), evs3)"
    using 2(2) by (rule load_ok)
  obtain a raw' evs4 where 4: "FetchSnapshot (wd_fops W) (wd_scrape W True) (AdminBaseURL (sg_Admin ?c)) = Ret (a, Some raw', None)"
    "run_report W ?c mg b a = (Some (Ret (res, None)), evs4)" "evs3 = EvFile (in_dir W ?c ''after.prom'') raw' # evs4"
    using 3(5) by (rule scrape_ok)
  note 5 = report_ok [OF 4(2)]
  obtain xss where x: "list_all2 (\<lambda>q xs. expand_entry (wd_disk W) q = Inr xs) (bm_Queries (run_benchmark cfg sc)) xss"
    "qs = concat xss"
    using 3(1) expand_loop_success [of "wd_disk W" "bm_Queries (run_benchmark ?c sc)" "[]" qs]
    by (auto simp: c expandFileRefs_def simp del: run_benchmark_Queries split: sum.splits)
  have res: "rs_OutDir res = sg_OutDir ?c" "rs_IOErrors res = mg_IOError mg" "rs_IDMismatches res = mg_IDmismatch mg"
    "rs_TotalQueries res = mg_Total mg" "rs_P50 res = mg_ValueAtQuantile mg 50" "rs_P95 res = mg_ValueAtQuantile mg 95"
    "rs_P99 res = mg_ValueAtQuantile mg 99"
    by (simp_all add: 5(1) run_result_def Let_def)
  have grown: "rs_UpstreamQueries res = wrap64 (sn_UpstreamQueries a - sn_UpstreamQueries b)"
    "rs_CoalescedQueries res = wrap64 (sn_CoalescedQueries a - sn_CoalescedQueries b)"
    "rs_CacheEvictions res = wrap64 (sn_CacheEvictions a - sn_CacheEvictions b)"
    "rs_Panics res = wrap64 (sn_Panics a - sn_Panics b)"
    by (simp_all add: 5(1) run_result_def Let_def Diff_def split: prod.splits)
  have "\<forall>k. map_of (rs_Counters res) k =
      map_option (\<lambda>v. wrap64 (v - counts_get (sn_QueriesByOutcome b) k)) (map_of (sn_QueriesByOutcome a) k)"
    using run_result_counters [OF FetchSnapshot_distinct [OF 4(1)]] by (simp add: 5(1))
  then show ?thesis
    using 1(1,2) 2(1,3) 3(2-4) 4(1,3) 5(2,3) x res grown unfolding c LookupScenario_def
    by (intro exI [of _ sc] exI [of _ xss] exI [of _ mg] exI [of _ b] exI [of _ raw] exI [of _ a] exI [of _ raw'])
      (auto simp: in_dir_def run_verdict_def c split: if_splits)
qed

section \<open>A concrete run\<close>

definition sample_math :: "int fmath" where
  "sample_math = \<lparr>fm_of_int = id, fm_add = (+), fm_sub = (-), fm_mul = (*), fm_div = (div), fm_le = (\<le>), fm_int64 = id\<rparr>"

definition sample_fmt :: "int rfmt" where
  "sample_fmt = \<lparr>rf_math = sample_math, rf_1 = Itoa, rf_Duration = Itoa, rf_Time = Itoa, rf_sort = (\<lambda>lt xs. xs)\<rparr>"

definition sample_deadline :: "nat \<Rightarrow> goerror option" where
  "sample_deadline i = (if i = 5 then Some (ErrNew ''context deadline exceeded'') else None)"

text \<open>Everything works, except that \<open>bns_err\<close> is what starting the server returns. The server has
  blocked seven queries before the load and five more after it.\<close>

definition sample_page :: "bool \<Rightarrow> string" where
  "sample_page late = print_list (map print_series
     (sample_series ''blocked'' ''A'' ''7'' # (if late then [sample_series ''blocked'' ''MX'' ''5''] else [])))"

definition sample_world :: "goerror option \<Rightarrow> int world" where
  "sample_world bns_err =
     \<lparr>wd_fops = int_fops, wd_fmt = sample_fmt, wd_Seconds = id, wd_ErrorText = (\<lambda>_. []), wd_Join = concat,
      wd_timestamp = ''ts'', wd_MkdirAll = (\<lambda>_. None), wd_Create = (\<lambda>_. None), wd_WriteFile = (\<lambda>_. None),
      wd_Start = (\<lambda>c. if c = BnsChild then bns_err else None), wd_exits = (\<lambda>c. c = BnsChild), wd_Environ = [],
      wd_newRequest = (\<lambda>_. None), wd_ready = (\<lambda>_. Inr 200), wd_ready_sel = sample_deadline,
      wd_dns = (\<lambda>_. True), wd_dns_sel = sample_deadline, wd_scrape = (\<lambda>late _. Inr (200, Inr (sample_page late))),
      wd_pprof = (\<lambda>_. Inr (200, [], None)), wd_cpu_early = 1, wd_cpu_late = 1,
      wd_disk = (\<lambda>_. Inr (print_list [''example.com''], None)),
      wd_bench = (\<lambda>_. Inr \<lparr>mg_Total = 9, mg_IOError = 0, mg_IDmismatch = 0, mg_ValueAtQuantile = id\<rparr>),
      wd_start = 0, wd_elapsed = 3, wd_git = Inr ''abc'', wd_uname = Inr ''Linux'', wd_platform = [],
      wd_goversion = ''go'', wd_config_json = (\<lambda>_ _ _. Inr ''{}'')\<rparr>"

definition sample_registry :: "int Benchmark registry" where
  "sample_registry = [''mixed'' \<mapsto> NewMixed 7 1 1]"

lemma sample_deadlines: "deadline sample_deadline 5 (ErrNew ''context deadline exceeded'')"
  by (simp add: deadline_def sample_deadline_def)

lemma sample_waits:
  "WaitForReady (\<lambda>_. None) (\<lambda>_. Inr 200) sample_deadline url = Some None"
  "WaitForDNSReady (\<lambda>_. True) sample_deadline ''127.0.0.1:5354'' 3 = Some None"
proof -
  show "WaitForReady (\<lambda>_. None) (\<lambda>_. Inr 200) sample_deadline url = Some None"
    using ready_loop_from_0 [OF sample_deadlines, of "\<lambda>_. Inr 200"] by (auto simp: WaitForReady_def)
  have "SplitHostPort ''127.0.0.1:5354'' = Inr (''127.0.0.1'', ''5354'')" by code_simp
  moreover have "\<exists>k \<le> (5 :: nat). 2 \<le> k \<and> (\<forall>j \<le> (2 :: nat). True)" by (intro exI [of _ 2]) simp
  ultimately show "WaitForDNSReady (\<lambda>_. True) sample_deadline ''127.0.0.1:5354'' 3 = Some None"
    using dns_loop_from_0 [OF sample_deadlines, of "\<lambda>_. True" 2] by (auto simp: WaitForDNSReady_def)
qed

lemma sample_scrape:
  "\<exists>snap. (\<forall>url. FetchSnapshot int_fops (\<lambda>_. Inr (200, Inr (sample_page late))) url = Ret (snap, Some (sample_page late), None))
     \<and> counts_get (sn_QueriesByOutcome snap) ''blocked'' = (if late then 12 else 7)"
proof -
  let ?p = "sample_series ''blocked'' ''A'' ''7'' # (if late then [sample_series ''blocked'' ''MX'' ''5''] else [])"
  have "total int_fops (of_outcome ''blocked'') ?p = (if late then 12 else 7)"
    by (simp add: total_def of_outcome_def sample_series_def labels_of_def put_label_def label_get_def series_value_def
        int_fops_def Atoi_def is_digits_def is_digit_def Let_def digits_value_def char_eval min_i64_def max_i64_def wrap64_def)
  moreover have "\<forall>s \<in> set ?p. readable int_fops s" using sample_readable by auto
  ultimately obtain snap where "ParseSnapshot int_fops (sample_page late) = Ret (snap, None)"
    "counts_get (sn_QueriesByOutcome snap) ''blocked'' = (if late then 12 else 7)"
    using scrape_reads_counters [of ?p int_fops] unfolding sample_page_def by fastforce
  then show ?thesis by (simp add: FetchSnapshot_def)
qed

lemma sample_entry: "expand_entry (\<lambda>_. Inr (print_list [''example.com''], None)) ''@scripts/stress/queries/mixed.txt'' = Inr [''example.com'']"
proof -
  have "raw_lines (print_list [''example.com'']) = [''example.com'']"
    by (rule raw_lines_print) (simp add: newline_def char_eval)
  moreover have "TrimSpace ''example.com'' = ''example.com''"
    by (rule TrimSpace_graphic) (simp add: graphic_def char_eval)
  moreover have "drop_cr ''example.com'' = ''example.com''"
    by (rule drop_cr_graphic) (simp add: graphic_def char_eval)
  ultimately show ?thesis
    by (simp add: expand_entry_def file_queries_def scanner_max_def)
qed

lemma sample_expand: "expandFileRefs (\<lambda>_. Inr (print_list [''example.com''], None)) [''@scripts/stress/queries/mixed.txt'']
    = (None, [''example.com''])"
  by (simp add: expandFileRefs_def expand_loop_Cons sample_entry del: expand_loop.simps(2))

lemma sample_outdir:
  "sg_Target (resolve_OutDir W Defaults) = ''127.0.0.1:5354''" "sg_Spawn (resolve_OutDir W Defaults)"
  "sg_MaxIOErrors (resolve_OutDir W Defaults) = 0" "sg_Scenario Defaults = ''mixed''"
  "stress_Validate Defaults = None"
  by (simp_all add: resolve_OutDir_def Defaults_def stress_Validate_def not_le)

lemma sample_queries [simp]: "bm_Queries (sc_Build (NewMixed 7 1 1) t d c) = [''@scripts/stress/queries/mixed.txt'']"
  by (simp add: NewMixed_def)

lemma sample_run: "\<exists>res. fst (Run (sample_world None) sample_registry Defaults) = Some (Ret (res, None))"
proof -
  obtain b a where
    "\<forall>url. FetchSnapshot int_fops (\<lambda>_. Inr (200, Inr (sample_page False))) url = Ret (b, Some (sample_page False), None)"
    "\<forall>url. FetchSnapshot int_fops (\<lambda>_. Inr (200, Inr (sample_page True))) url = Ret (a, Some (sample_page True), None)"
    using sample_scrape [of False] sample_scrape [of True] by blast
  then show ?thesis
    by (simp add: Run_def LookupScenario_def sample_registry_def Let_def with_log_fst run_spawn_def run_ready_def
        sample_world_def sample_waits sample_outdir scrape_then_def run_load_def sample_expand run_report_def
        run_verdict_def run_result_def split_def)
qed

theorem Run_cleans_up_witness:
  "\<exists>r evs. Run (sample_world (Some (ErrNew ''no such file''))) sample_registry Defaults = (Some r, evs)
     \<and> children_ended (sample_world (Some (ErrNew ''no such file''))) Defaults sample_registry evs
     \<and> stopped (sample_world (Some (ErrNew ''no such file''))) MockChild
        = [EvInterrupt MockChild, EvKill MockChild, EvWait MockChild]"
proof -
  let ?W = "sample_world (Some (ErrNew ''no such file''))"
  have "deadline (wd_ready_sel ?W) 5 (ErrNew ''context deadline exceeded'')"
    "deadline (wd_dns_sel ?W) 5 (ErrNew ''context deadline exceeded'')"
    by (simp_all add: sample_world_def sample_deadlines)
  from Run_cleans_up [OF this, of sample_registry Defaults]
  show ?thesis by (auto simp: stopped_def sample_world_def)
qed

theorem Run_success_is_earned_witness:
  "\<exists>res evs. Run (sample_world None) sample_registry Defaults = (Some (Ret (res, None)), evs)
     \<and> EvBench [''example.com''] \<in> set evs \<and> rs_TotalQueries res = 9
     \<and> map_of (rs_Counters res) ''blocked'' = Some 5"
proof -
  obtain b a where
    b: "\<forall>url. FetchSnapshot int_fops (\<lambda>_. Inr (200, Inr (sample_page False))) url = Ret (b, Some (sample_page False), None)"
      "counts_get (sn_QueriesByOutcome b) ''blocked'' = 7"
    and a: "\<forall>url. FetchSnapshot int_fops (\<lambda>_. Inr (200, Inr (sample_page True))) url = Ret (a, Some (sample_page True), None)"
      "counts_get (sn_QueriesByOutcome a) ''blocked'' = 12"
    using sample_scrape [of False] sample_scrape [of True] by auto
  then have ab: "map_of (sn_QueriesByOutcome a) ''blocked'' = Some 12" by (auto simp: counts_get_def split: option.splits)
  obtain res evs where r: "Run (sample_world None) sample_registry Defaults = (Some (Ret (res, None)), evs)"
    using sample_run by (metis prod.collapse)
  have w: "wd_fops (sample_world None) = int_fops" "wd_scrape (sample_world None) = (\<lambda>late _. Inr (200, Inr (sample_page late)))"
    "wd_disk (sample_world None) = (\<lambda>_. Inr (print_list [''example.com''], None))" "sample_registry (sg_Scenario Defaults) = Some (NewMixed 7 1 1)"
    "wd_bench (sample_world None) B = Inr \<lparr>mg_Total = 9, mg_IOError = 0, mg_IDmismatch = 0, mg_ValueAtQuantile = id\<rparr>" for B
    by (simp_all add: sample_world_def sample_registry_def sample_outdir)
  have "EvBench [''example.com''] \<in> set evs" "rs_TotalQueries res = 9"
    using Run_success_is_earned [OF r] unfolding w by (auto simp: list_all2_Cons1 sample_entry)
  moreover have "map_of (rs_Counters res) ''blocked'' = Some 5"
    using Run_success_is_earned [OF r] a b unfolding w by (auto simp: ab wrap64_def)
  ultimately show ?thesis using r by blast
qed

text \<open>The exception does occur: a benchmark that fails while the goroutine is between creating and
  closing the profile leaves it open.\<close>

theorem failed_load_leaves_profile_open:
  assumes "cpu_profile W cfg = (perr, [EvCreate p, EvFile p body, EvClose p])"
    and "0 < wd_cpu_early W + wd_cpu_late W" and "wd_cpu_early W + wd_cpu_late W < 3"
    and "expandFileRefs (wd_disk W) (bm_Queries (run_benchmark cfg sc)) = (None, qs)"
    and "wd_bench W ((run_benchmark cfg sc)\<lparr>bm_Queries := qs\<rparr>) = Inl e"
  shows "\<exists>r evs. run_load W cfg sc before = (Some r, evs) \<and> EvCreate p \<in> set evs \<and> EvClose p \<notin> set evs"
proof -
  have "wd_cpu_early W = 0 \<or> wd_cpu_early W = 1 \<or> wd_cpu_early W = 2"
    "wd_cpu_late W = 0 \<or> wd_cpu_late W = 1 \<or> wd_cpu_late W = 2" using assms(3) by auto
  then show ?thesis
    using assms by (auto simp: run_load_def Let_def after_def run_fail_def take_Cons' simp del: run_benchmark_Queries)
qed

end
