(* ===== verification/Mock_Upstream.thy ===== *)
theory Mock_Upstream
  imports Cache_Stage
begin

text \<open>
  The mock upstream of the stress harness (\<open>cmd/mockupstream\<close>): the canned answers and the
  handler around them. The drop rate is a float of an abstract type \<open>'f\<close>, whose zero and comparison
  are parameters, as are the draw of the random generator, the conversion of a duration to 32-bit
  seconds and the result of packing.
\<close>

section \<open>The handler\<close>

record 'f HandlerConfig =
  hg_TTL :: int
  hg_NegTTL :: int
  hg_Latency :: int
  hg_DropRate :: 'f

record 'f mock_handler =
  mk_cfg :: "'f HandlerConfig"
  mk_ttl :: u32
  mk_negTTL :: u32

text \<open>\<open>NewHandler\<close>; \<open>secs\<close> is the conversion \<open>uint32(d.Seconds())\<close> through a float.\<close>

definition NewMockHandler :: "(int \<Rightarrow> u32) \<Rightarrow> 'f HandlerConfig \<Rightarrow> 'f mock_handler" where
  "NewMockHandler secs cfg = \<lparr>mk_cfg = cfg, mk_ttl = secs (hg_TTL cfg), mk_negTTL = secs (hg_NegTTL cfg)\<rparr>"

definition addrA :: string where "addrA = ''192.0.2.1''"
definition addrAAAA :: string where "addrAAAA = ''2001:db8::1''"

definition mock_SOA :: "u32 \<Rightarrow> soa" where
  "mock_SOA negTTL =
     \<lparr>soa_Ns = ''ns.mock.invalid.'', soa_Mbox = ''hostmaster.mock.invalid.'', soa_Serial = 1,
      soa_Refresh = 3600, soa_Retry = 600, soa_Expire = 86400, soa_Minttl = negTTL\<rparr>"

text \<open>The switch on the type of the question: the data of the one answer record, if any.\<close>

definition mock_rdata :: "'f mock_handler \<Rightarrow> u16 \<Rightarrow> rdata option" where
  "mock_rdata h t =
     (if t = TypeA then Some (RD_A addrA)
      else if t = TypeAAAA then Some (RD_AAAA addrAAAA)
      else if t = TypeNS then Some (RD_NS ''ns.mock.invalid.'')
      else if t = TypeSOA then Some (RD_SOA (mock_SOA (mk_negTTL h)))
      else None)"

text \<open>\<open>Answer\<close>: how long it sleeps and what it returns. The generator is asked only when the rate is
  positive; \<open>draw\<close> is the number it gives then.\<close>

definition mock_dropped :: "('f \<Rightarrow> 'f \<Rightarrow> bool) \<Rightarrow> 'f \<Rightarrow> 'f mock_handler \<Rightarrow> 'f \<Rightarrow> bool" where
  "mock_dropped lt zero h draw \<longleftrightarrow> lt zero (hg_DropRate (mk_cfg h)) \<and> lt draw (hg_DropRate (mk_cfg h))"

definition mock_Answer :: "('f \<Rightarrow> 'f \<Rightarrow> bool) \<Rightarrow> 'f \<Rightarrow> 'f mock_handler \<Rightarrow> 'f \<Rightarrow> msg \<Rightarrow> int \<times> msg option" where
  "mock_Answer lt zero h draw req =
     (if mock_dropped lt zero h draw then (0, None)
      else
        let slept = (if 0 < hg_Latency (mk_cfg h) then hg_Latency (mk_cfg h) else 0);
            resp = new_Msg\<lparr>msg_Response := True, msg_ID := msg_ID req, msg_Question := msg_Question req\<rparr> in
        case msg_Question req of
          [] \<Rightarrow> (slept, Some (resp\<lparr>msg_Rcode := RcodeRefused\<rparr>))
        | q # _ \<Rightarrow>
            (case mock_rdata h (RRToType q) of
               None \<Rightarrow> (slept, Some (resp\<lparr>msg_Rcode := RcodeRefused\<rparr>))
             | Some d \<Rightarrow>
                 (slept, Some (resp\<lparr>msg_Answer :=
                   [\<lparr>rr_Name = rr_Name q, rr_Class = ClassINET, rr_TTL = mk_ttl h, rr_Data = d\<rparr>]\<rparr>))))"

text \<open>The DNS handler of \<open>main\<close>: nothing is written for a dropped query or a message that does
  not pack; the 64-bit counter counts what was written.\<close>

definition mock_serve :: "('f \<Rightarrow> 'f \<Rightarrow> bool) \<Rightarrow> 'f \<Rightarrow> 'f mock_handler \<Rightarrow> (msg \<Rightarrow> bool) \<Rightarrow> 'f \<Rightarrow> msg \<Rightarrow> 64 word
    \<Rightarrow> msg option \<times> 64 word" where
  "mock_serve lt zero h packs draw req count =
     (case mock_Answer lt zero h draw req of
        (_, None) \<Rightarrow> (None, count)
      | (_, Some resp) \<Rightarrow> if packs resp then (Some resp, count + 1) else (None, count))"

section \<open>How the cache treats the answers\<close>

lemma mock_rdata_type: "mock_rdata h t = Some d \<Longrightarrow> rdata_type d = t"
  by (auto simp: mock_rdata_def split: if_splits)

lemma mock_Answer_single:
  "msg_Question req = q # qs \<Longrightarrow> mock_Answer lt zero h draw req = (slept, Some resp) \<Longrightarrow>
     msg_ID resp = msg_ID req \<and> msg_Question resp = msg_Question req \<and> msg_Ns resp = [] \<and> msg_Extra resp = []
     \<and> (case mock_rdata h (RRToType q) of
          None \<Rightarrow> msg_Rcode resp = RcodeRefused \<and> msg_Answer resp = []
        | Some d \<Rightarrow> msg_Rcode resp = RcodeSuccess
            \<and> msg_Answer resp = [\<lparr>rr_Name = rr_Name q, rr_Class = ClassINET, rr_TTL = mk_ttl h, rr_Data = d\<rparr>])"
  by (auto simp: mock_Answer_def Let_def new_Msg_def RcodeSuccess_def split: option.splits if_splits)

section \<open>Properties\<close>

text \<open>The mock answers every query it does not drop with the caller's ID and question. A query of
  a supported type (A, AAAA, NS, SOA) gets exactly one record of that type and name, and the
  forwarder caches it for the mock's lifetime clamped to the configured bounds; every other type
  is refused, which the forwarder never caches.\<close>

theorem mock_answers_cached:
  assumes "msg_Question req = q # qs" and "mock_Answer lt zero h draw req = (slept, Some resp)"
  shows "msg_ID resp = msg_ID req \<and> msg_Question resp = msg_Question req
    \<and> (if RRToType q \<in> {TypeA, TypeAAAA, TypeNS, TypeSOA} then
         (\<exists>r. msg_Answer resp = [r] \<and> RRToType r = RRToType q \<and> rr_Name r = rr_Name q)
         \<and> fst (computeTTL resp cfg) = (if mk_ttl h = 0 then 0
              else max (cc_MinTTL cfg) (min (cc_MaxTTL cfg) (uint (mk_ttl h) * time_Second)))
       else msg_Rcode resp = RcodeRefused \<and> fst (computeTTL resp cfg) = 0)"
proof -
  note r = mock_Answer_single [OF assms]
  show ?thesis
  proof (cases "mock_rdata h (RRToType q)")
    case None
    then have "\<not> isNegative resp" "ttl_records resp = []"
      using r by (simp_all add: isNegative_def ttl_records_def RcodeRefused_def RcodeNameError_def RcodeSuccess_def)
    then have "fst (computeTTL resp cfg) = 0" by (simp add: computeTTL_positive minTTL_eq)
    moreover have "RRToType q \<notin> {TypeA, TypeAAAA, TypeNS, TypeSOA}"
      using None by (auto simp: mock_rdata_def split: if_splits)
    ultimately show ?thesis using r None by simp
  next
    case (Some d)
    then have a: "msg_Answer resp = [\<lparr>rr_Name = rr_Name q, rr_Class = ClassINET, rr_TTL = mk_ttl h, rr_Data = d\<rparr>]"
      and "\<not> isNegative resp" and "minTTL resp = mk_ttl h"
      using r by (simp_all add: isNegative_def minTTL_eq ttl_records_def RcodeNameError_def RcodeSuccess_def)
    then have "fst (computeTTL resp cfg) = (if mk_ttl h = 0 then 0
        else max (cc_MinTTL cfg) (min (cc_MaxTTL cfg) (uint (mk_ttl h) * time_Second)))"
      by (simp add: computeTTL_positive)
    moreover have "RRToType q \<in> {TypeA, TypeAAAA, TypeNS, TypeSOA}"
      using Some by (auto simp: mock_rdata_def split: if_splits)
    ultimately show ?thesis using r a mock_rdata_type [OF Some] by (simp add: RRToType_def)
  qed
qed

theorem mock_answers_cached_witness:
  "\<exists>resp. mock_Answer (<) (0 :: int) (NewMockHandler (\<lambda>d. word_of_int (d div time_Second)) \<lparr>hg_TTL = 300 * time_Second,
       hg_NegTTL = 60 * time_Second, hg_Latency = 0, hg_DropRate = 0\<rparr>) 0 sample_req = (0, Some resp)
     \<and> fst (computeTTL resp sample_cfg) = 300 * time_Second"
proof -
  let ?h = "NewMockHandler (\<lambda>d. word_of_int (d div time_Second)) \<lparr>hg_TTL = 300 * time_Second,
       hg_NegTTL = 60 * time_Second, hg_Latency = 0, hg_DropRate = 0 :: int\<rparr>"
  have h: "mk_ttl ?h = 300" by (simp add: NewMockHandler_def time_Second_def)
  have q: "msg_Question sample_req = [sample_rr]" by (simp add: sample_req_def)
  have t: "RRToType sample_rr = TypeA" by (simp add: sample_rr_def RRToType_def)
  obtain resp where r: "mock_Answer (<) 0 ?h 0 sample_req = (0, Some resp)"
    by (simp add: mock_Answer_def mock_dropped_def NewMockHandler_def Let_def q mock_rdata_def t)
  have "fst (computeTTL resp sample_cfg) = 300 * time_Second"
    using mock_answers_cached [OF q r, of sample_cfg, unfolded h]
    by (simp add: t sample_cfg_def Default_def time_Hour_def time_Minute_def time_Second_def)
  with r show ?thesis by blast
qed

end
