(* ===== verification/Cli_Flags.thy ===== *)
theory Cli_Flags
  imports Stress_Orchestrate Mock_Upstream
begin

text \<open>
  The commands of the stress harness: the command line of \<open>bns-stress\<close>
  (\<open>cmd/bns-stress/main.go\<close>) and of \<open>mockupstream\<close> (\<open>cmd/mockupstream/main.go\<close>), with
  the loop of Go's \<open>flag\<close> package that parses both. The conversions of flag values are
  parameters.
\<close>

section \<open>The flag package\<close>

text \<open>A flag sets a variable of the program (type \<open>'c\<close>) from its text; a boolean flag takes no
  argument of its own.\<close>

record 'c flag =
  fl_name :: string
  fl_bool :: bool
  fl_Set :: "string \<Rightarrow> 'c \<Rightarrow> 'c option"

datatype flag_error = BadSyntax | NotDefined string | BadValue string | NeedsArgument string | Help

definition find_flag :: "'c flag list \<Rightarrow> string \<Rightarrow> 'c flag option" where
  "find_flag fs name = find (\<lambda>f. fl_name f = name) fs"

text \<open>The name and the value of an argument: the first \<open>=\<close> after the first byte splits them.\<close>

definition split_value :: "string \<Rightarrow> string \<times> string option" where
  "split_value s =
     (case s of
        [] \<Rightarrow> ([], None)
      | c # cs \<Rightarrow>
          (case dropWhile (\<lambda>x. x \<noteq> CHR ''='') cs of
             [] \<Rightarrow> (s, None)
           | _ # v \<Rightarrow> (c # takeWhile (\<lambda>x. x \<noteq> CHR ''='') cs, Some v)))"

text \<open>The argument without its minus signs; \<open>None\<close> ends the flags, and the second component tells
  whether the argument itself is consumed then.\<close>

definition strip_minus :: "string \<Rightarrow> string option \<times> bool" where
  "strip_minus s =
     (case s of
        CHR ''-'' # CHR ''-'' # [] \<Rightarrow> (None, True)
      | CHR ''-'' # CHR ''-'' # name \<Rightarrow> (Some name, True)
      | CHR ''-'' # c # name \<Rightarrow> (Some (c # name), True)
      | _ \<Rightarrow> (None, False))"

fun flag_Parse :: "'c flag list \<Rightarrow> string list \<Rightarrow> 'c \<Rightarrow> flag_error + 'c \<times> string list" where
  "flag_Parse fs [] c = Inr (c, [])"
| "flag_Parse fs (s # args) c =
     (case strip_minus s of
        (None, consumed) \<Rightarrow> Inr (c, if consumed then args else s # args)
      | (Some arg, _) \<Rightarrow>
          if arg = [] \<or> hd arg = CHR ''-'' \<or> hd arg = CHR ''='' then Inl BadSyntax
          else
            (case split_value arg of
               (name, value) \<Rightarrow>
                 (case find_flag fs name of
                    None \<Rightarrow> if name = ''help'' \<or> name = ''h'' then Inl Help else Inl (NotDefined name)
                  | Some f \<Rightarrow>
                      if fl_bool f then
                        (case fl_Set f (case value of None \<Rightarrow> ''true'' | Some v \<Rightarrow> v) c of
                           None \<Rightarrow> Inl (BadValue name)
                         | Some c' \<Rightarrow> flag_Parse fs args c')
                      else
                        (case value of
                           Some v \<Rightarrow>
                             (case fl_Set f v c of None \<Rightarrow> Inl (BadValue name) | Some c' \<Rightarrow> flag_Parse fs args c')
                         | None \<Rightarrow>
                             (case args of
                                [] \<Rightarrow> Inl (NeedsArgument name)
                              | v # args' \<Rightarrow>
                                  (case fl_Set f v c of
                                     None \<Rightarrow> Inl (BadValue name)
                                   | Some c' \<Rightarrow> flag_Parse fs args' c'))))))"

text \<open>\<open>flag.Parse\<close> exits on an error.\<close>

definition parse_exit :: "flag_error \<Rightarrow> int" where
  "parse_exit e = (if e = Help then 0 else 2)"

section \<open>Values\<close>

record 'f parsers =
  ps_Bool :: "string \<Rightarrow> bool option"
  ps_Int :: "string \<Rightarrow> int option"
  ps_Uint :: "string \<Rightarrow> 64 word option"
  ps_Duration :: "string \<Rightarrow> int option"
  ps_Float :: "string \<Rightarrow> 'f option"

definition string_flag :: "string \<Rightarrow> (string \<Rightarrow> 'c \<Rightarrow> 'c) \<Rightarrow> 'c flag" where
  "string_flag name upd = \<lparr>fl_name = name, fl_bool = False, fl_Set = (\<lambda>v c. Some (upd v c))\<rparr>"

definition value_flag :: "(string \<Rightarrow> 'v option) \<Rightarrow> string \<Rightarrow> ('v \<Rightarrow> 'c \<Rightarrow> 'c) \<Rightarrow> 'c flag" where
  "value_flag parse name upd =
     \<lparr>fl_name = name, fl_bool = False, fl_Set = (\<lambda>v c. map_option (\<lambda>x. upd x c) (parse v))\<rparr>"

definition bool_flag :: "(string \<Rightarrow> bool option) \<Rightarrow> string \<Rightarrow> (bool \<Rightarrow> 'c \<Rightarrow> 'c) \<Rightarrow> 'c flag" where
  "bool_flag parse name upd =
     \<lparr>fl_name = name, fl_bool = True, fl_Set = (\<lambda>v c. map_option (\<lambda>x. upd x c) (parse v))\<rparr>"

section \<open>The command line of bns-stress\<close>

text \<open>The variables of \<open>main\<close>: the configuration and \<open>concurrency\<close>, which is a \<open>uint\<close>.\<close>

record stress_vars =
  sv_cfg :: stress_Config
  sv_concurrency :: "64 word"

definition on_cfg :: "(stress_Config \<Rightarrow> stress_Config) \<Rightarrow> stress_vars \<Rightarrow> stress_vars" where
  "on_cfg f v = v\<lparr>sv_cfg := f (sv_cfg v)\<rparr>"

definition stress_flags :: "'f parsers \<Rightarrow> stress_vars flag list" where
  "stress_flags P =
     [string_flag ''scenario'' (\<lambda>x. on_cfg (\<lambda>c. c\<lparr>sg_Scenario := x\<rparr>)),
      string_flag ''target'' (\<lambda>x. on_cfg (\<lambda>c. c\<lparr>sg_Target := x\<rparr>)),
      string_flag ''admin'' (\<lambda>x. on_cfg (\<lambda>c. c\<lparr>sg_Admin := x\<rparr>)),
      bool_flag (ps_Bool P) ''spawn'' (\<lambda>x. on_cfg (\<lambda>c. c\<lparr>sg_Spawn := x\<rparr>)),
      value_flag (ps_Duration P) ''duration'' (\<lambda>x. on_cfg (\<lambda>c. c\<lparr>sg_Duration := x\<rparr>)),
      value_flag (ps_Uint P) ''concurrency'' (\<lambda>x v. v\<lparr>sv_concurrency := x\<rparr>),
      value_flag (ps_Int P) ''rate-limit'' (\<lambda>x. on_cfg (\<lambda>c. c\<lparr>sg_RateLimit := x\<rparr>)),
      string_flag ''bns-bin'' (\<lambda>x. on_cfg (\<lambda>c. c\<lparr>sg_BNSBin := x\<rparr>)),
      string_flag ''mock-bin'' (\<lambda>x. on_cfg (\<lambda>c. c\<lparr>sg_MockBin := x\<rparr>)),
      string_flag ''blocklist'' (\<lambda>x. on_cfg (\<lambda>c. c\<lparr>sg_BlocklistPath := x\<rparr>)),
      string_flag ''out'' (\<lambda>x. on_cfg (\<lambda>c. c\<lparr>sg_OutDir := x\<rparr>)),
      value_flag (ps_Duration P) ''pprof-cpu'' (\<lambda>x. on_cfg (\<lambda>c. c\<lparr>sg_PprofCPU := x\<rparr>)),
      bool_flag (ps_Bool P) ''pprof-heap'' (\<lambda>x. on_cfg (\<lambda>c. c\<lparr>sg_PprofHeap := x\<rparr>)),
      value_flag (ps_Int P) ''max-io-errors'' (\<lambda>x. on_cfg (\<lambda>c. c\<lparr>sg_MaxIOErrors := x\<rparr>))]"

definition stress_vars0 :: stress_vars where
  "stress_vars0 = \<lparr>sv_cfg = Defaults, sv_concurrency = ucast (sg_Concurrency Defaults)\<rparr>"

text \<open>\<open>cfg.Concurrency = uint32(*concurrency)\<close>.\<close>

definition stress_cfg :: "stress_vars \<Rightarrow> stress_Config" where
  "stress_cfg v = (sv_cfg v)\<lparr>sg_Concurrency := ucast (sv_concurrency v)\<rparr>"

definition blockedPct :: "'f fmath \<Rightarrow> 'f Result \<Rightarrow> 'f" where
  "blockedPct M r =
     (if rs_TotalQueries r = 0 then fm_of_int M 0
      else fm_div M (fm_mul M (fm_of_int M 100) (fm_of_int M (counts_get (rs_Counters r) ''blocked'')))
        (fm_of_int M (rs_TotalQueries r)))"

text \<open>The line printed after a run; \<open>f0\<close> is the verb \<open>%.0f\<close>.\<close>

definition stress_summary :: "'f rfmt \<Rightarrow> ('f \<Rightarrow> string) \<Rightarrow> stress_Config \<Rightarrow> 'f Result \<Rightarrow> string" where
  "stress_summary R f0 cfg res =
     sg_Scenario cfg @ '' '' @ rf_Duration R (sg_Duration cfg) @ '' c='' @ Itoa (uint (sg_Concurrency cfg))
     @ '' QPS='' @ f0 (rs_QPS res)
     @ '' p99='' @ rf_1 R (fm_div (rf_math R) (fm_of_int (rf_math R) (rs_P99 res)) (fm_of_int (rf_math R) (10 ^ 6)))
     @ ''ms errors='' @ Itoa (rs_IOErrors res) @ '' blocked='' @ rf_1 R (blockedPct (rf_math R) res)
     @ ''% report='' @ rs_OutDir res @ nl"

text \<open>What is printed besides: the error of a failed run with its directory.\<close>

datatype printed = Stdout string | Stderr goerror string

text \<open>\<open>main\<close>: the exit status, \<open>None\<close> when the run never returns, the events of the run and what is
  printed. A panic ends the process with status 2; the messages of the \<open>flag\<close> package and of a
  panic are left out.\<close>

definition stress_main :: "'f parsers \<Rightarrow> 'f world \<Rightarrow> ('f \<Rightarrow> string) \<Rightarrow> 'f Benchmark registry \<Rightarrow> string list
    \<Rightarrow> int option \<times> event list \<times> printed list" where
  "stress_main P W f0 reg args =
     (case flag_Parse (stress_flags P) args stress_vars0 of
        Inl e \<Rightarrow> (Some (parse_exit e), [], [])
      | Inr (v, _) \<Rightarrow>
          (case Run W reg (stress_cfg v) of
             (None, evs) \<Rightarrow> (None, evs, [])
           | (Some (Panic p), evs) \<Rightarrow> (Some 2, evs, [])
           | (Some (Ret (res, Some e)), evs) \<Rightarrow> (Some 1, evs, [Stderr e (rs_OutDir res)])
           | (Some (Ret (res, None)), evs) \<Rightarrow> (Some 0, evs, [Stdout (stress_summary (wd_fmt W) f0 (stress_cfg v) res)])))"

section \<open>The command line of mockupstream\<close>

record 'f mock_vars =
  mv_udpAddr :: string
  mv_tcpAddr :: string
  mv_ttl :: int
  mv_negTTL :: int
  mv_latency :: int
  mv_dropRate :: 'f

definition mock_flags :: "'f parsers \<Rightarrow> 'f mock_vars flag list" where
  "mock_flags P =
     [string_flag ''listen.udp'' (\<lambda>x v. v\<lparr>mv_udpAddr := x\<rparr>),
      string_flag ''listen.tcp'' (\<lambda>x v. v\<lparr>mv_tcpAddr := x\<rparr>),
      value_flag (ps_Duration P) ''ttl'' (\<lambda>x v. v\<lparr>mv_ttl := x\<rparr>),
      value_flag (ps_Duration P) ''neg-ttl'' (\<lambda>x v. v\<lparr>mv_negTTL := x\<rparr>),
      value_flag (ps_Duration P) ''latency'' (\<lambda>x v. v\<lparr>mv_latency := x\<rparr>),
      value_flag (ps_Float P) ''drop-rate'' (\<lambda>x v. v\<lparr>mv_dropRate := x\<rparr>)]"

definition mock_vars0 :: "'f \<Rightarrow> 'f mock_vars" where
  "mock_vars0 zero =
     \<lparr>mv_udpAddr = ''127.0.0.1:5355'', mv_tcpAddr = ''127.0.0.1:5355'', mv_ttl = 300 * time_Second,
      mv_negTTL = 60 * time_Second, mv_latency = 0, mv_dropRate = zero\<rparr>"

definition handler_config :: "'f mock_vars \<Rightarrow> 'f HandlerConfig" where
  "handler_config v = \<lparr>hg_TTL = mv_ttl v, hg_NegTTL = mv_negTTL v, hg_Latency = mv_latency v, hg_DropRate = mv_dropRate v\<rparr>"

text \<open>\<open>main\<close> up to the start of the listeners: an exit status, or the handler with the addresses.\<close>

definition mock_setup :: "'f parsers \<Rightarrow> 'f \<Rightarrow> (int \<Rightarrow> u32) \<Rightarrow> (string \<Rightarrow> string \<Rightarrow> goerror option) \<Rightarrow> string list
    \<Rightarrow> int + 'f mock_handler \<times> string \<times> string" where
  "mock_setup P zero secs listen args =
     (case flag_Parse (mock_flags P) args (mock_vars0 zero) of
        Inl e \<Rightarrow> Inl (parse_exit e)
      | Inr (v, _) \<Rightarrow>
          if listen ''udp'' (mv_udpAddr v) \<noteq> None then Inl 1
          else if listen ''tcp'' (mv_tcpAddr v) \<noteq> None then Inl 1
          else Inr (NewMockHandler secs (handler_config v), mv_udpAddr v, mv_tcpAddr v))"

section \<open>Parsing what is printed\<close>

definition print_flag :: "string \<times> string \<Rightarrow> string" where
  "print_flag x = ''--'' @ fst x @ ''='' @ snd x"

definition name_ok :: "string \<Rightarrow> bool" where
  "name_ok n \<longleftrightarrow> n \<noteq> [] \<and> CHR ''='' \<notin> set n \<and> hd n \<noteq> CHR ''-''"

text \<open>Setting flags one after the other.\<close>

fun set_flags :: "'c flag list \<Rightarrow> (string \<times> string) list \<Rightarrow> 'c \<Rightarrow> 'c option" where
  "set_flags fs [] c = Some c"
| "set_flags fs ((n, v) # xs) c =
     (case find_flag fs n of
        None \<Rightarrow> None
      | Some f \<Rightarrow> (case fl_Set f v c of None \<Rightarrow> None | Some c' \<Rightarrow> set_flags fs xs c'))"

lemma split_at_first:
  "c \<notin> set cs \<Longrightarrow> dropWhile (\<lambda>x. x \<noteq> c) (cs @ c # v) = c # v \<and> takeWhile (\<lambda>x. x \<noteq> c) (cs @ c # v) = cs"
  by (induction cs) auto

lemma split_printed:
  assumes "name_ok n"
  shows "split_value (n @ ''='' @ v) = (n, Some v)"
proof -
  obtain c cs where n: "n = c # cs" "CHR ''='' \<notin> set cs"
    using assms by (cases n) (auto simp: name_ok_def)
  show ?thesis using split_at_first [OF n(2), of v] by (simp add: split_value_def n(1))
qed

lemma strip_printed: "name_ok n \<Longrightarrow> strip_minus (print_flag (n, v)) = (Some (n @ ''='' @ v), True)"
  by (cases n) (auto simp: strip_minus_def print_flag_def name_ok_def)

lemma flag_Parse_printed:
  assumes "name_ok n" and "find_flag fs n = Some f" and "fl_Set f v c = Some c'"
  shows "flag_Parse fs (print_flag (n, v) # args) c = flag_Parse fs args c'"
proof -
  have "n @ ''='' @ v \<noteq> []" "hd (n @ ''='' @ v) \<noteq> CHR ''-''" "hd (n @ ''='' @ v) \<noteq> CHR ''=''"
    using assms(1) by (cases n; auto simp: name_ok_def)+
  then show ?thesis
    using assms split_printed [OF assms(1), of v] strip_printed [OF assms(1), of v] by simp
qed

lemma flag_Parse_prints:
  assumes "list_all (\<lambda>x. name_ok (fst x)) xs" and "set_flags fs xs c = Some c'"
  shows "flag_Parse fs (map print_flag xs) c = Inr (c', [])"
  using assms
proof (induction xs arbitrary: c)
  case (Cons x xs)
  obtain n v where x: "x = (n, v)" by fastforce
  with Cons.prems(2) obtain f c1 where f: "find_flag fs n = Some f" "fl_Set f v c = Some c1"
    "set_flags fs xs c1 = Some c'" by (auto split: option.splits)
  have "name_ok n" using Cons.prems(1) x by simp
  then show ?case using flag_Parse_printed [OF _ f(1,2)] Cons f(3) x by simp
qed simp

text \<open>A configuration as the settings of the flags of \<open>bns-stress\<close>.\<close>

record printers =
  pr_Bool :: "bool \<Rightarrow> string"
  pr_Int :: "int \<Rightarrow> string"
  pr_Uint :: "64 word \<Rightarrow> string"
  pr_Duration :: "int \<Rightarrow> string"

definition stress_settings :: "printers \<Rightarrow> stress_Config \<Rightarrow> (string \<times> string) list" where
  "stress_settings R c =
     [(''scenario'', sg_Scenario c), (''target'', sg_Target c), (''admin'', sg_Admin c),
      (''spawn'', pr_Bool R (sg_Spawn c)), (''duration'', pr_Duration R (sg_Duration c)),
      (''concurrency'', pr_Uint R (ucast (sg_Concurrency c))), (''rate-limit'', pr_Int R (sg_RateLimit c)),
      (''bns-bin'', sg_BNSBin c), (''mock-bin'', sg_MockBin c), (''blocklist'', sg_BlocklistPath c),
      (''out'', sg_OutDir c), (''pprof-cpu'', pr_Duration R (sg_PprofCPU c)),
      (''pprof-heap'', pr_Bool R (sg_PprofHeap c)), (''max-io-errors'', pr_Int R (sg_MaxIOErrors c))]"

text \<open>The values of the types \<open>int\<close>, \<open>int64\<close> and \<open>time.Duration\<close>.\<close>

definition i64 :: "int \<Rightarrow> bool" where
  "i64 n \<longleftrightarrow> min_i64 \<le> n \<and> n \<le> max_i64"

definition cfg_i64 :: "stress_Config \<Rightarrow> bool" where
  "cfg_i64 c \<longleftrightarrow> i64 (sg_Duration c) \<and> i64 (sg_RateLimit c) \<and> i64 (sg_PprofCPU c) \<and> i64 (sg_MaxIOErrors c)"

definition reads_back :: "'f parsers \<Rightarrow> printers \<Rightarrow> bool" where
  "reads_back P R \<longleftrightarrow> (\<forall>b. ps_Bool P (pr_Bool R b) = Some b) \<and> (\<forall>n. i64 n \<longrightarrow> ps_Int P (pr_Int R n) = Some n)
     \<and> (\<forall>u. ps_Uint P (pr_Uint R u) = Some u) \<and> (\<forall>n. i64 n \<longrightarrow> ps_Duration P (pr_Duration R n) = Some n)"

lemmas flag_kinds = string_flag_def value_flag_def bool_flag_def on_cfg_def

lemma stress_names_ok: "list_all (\<lambda>x. name_ok (fst x)) (stress_settings R c)"
  by (simp add: stress_settings_def name_ok_def)

text \<open>The settings of the flags of \<open>mockupstream\<close>; \<open>pf\<close> prints a drop rate.\<close>

definition mock_settings :: "printers \<Rightarrow> ('f \<Rightarrow> string) \<Rightarrow> 'f mock_vars \<Rightarrow> (string \<times> string) list" where
  "mock_settings R pf v =
     [(''listen.udp'', mv_udpAddr v), (''listen.tcp'', mv_tcpAddr v), (''ttl'', pr_Duration R (mv_ttl v)),
      (''neg-ttl'', pr_Duration R (mv_negTTL v)), (''latency'', pr_Duration R (mv_latency v)),
      (''drop-rate'', pf (mv_dropRate v))]"

lemma mock_names_ok: "list_all (\<lambda>x. name_ok (fst x)) (mock_settings R pf v)"
  by (simp add: mock_settings_def name_ok_def)

lemma find_flag_simps [simp]:
  "find_flag [] n = None"
  "find_flag (f # fs) n = (if fl_name f = n then Some f else find_flag fs n)"
  by (simp_all add: find_flag_def)

lemma ucast_u32_back: "(ucast (ucast x :: 64 word) :: u32) = x" for x :: u32
  by transfer simp

section \<open>Properties\<close>

text \<open>C33: Every configuration of a stress run can be given on the command line: printing all fourteen
  flags and parsing them gives the configuration back, whatever the texts in it contain (an equals
  sign, a leading minus, nothing at all).\<close>

theorem stress_flags_roundtrip:
  assumes "reads_back P R" and "cfg_i64 cfg"
  shows "\<exists>v. flag_Parse (stress_flags P) (map print_flag (stress_settings R cfg)) stress_vars0 = Inr (v, [])
    \<and> stress_cfg v = cfg"
proof -
  let ?v = "\<lparr>sv_cfg = cfg\<lparr>sg_Concurrency := sg_Concurrency Defaults\<rparr>, sv_concurrency = ucast (sg_Concurrency cfg)\<rparr>"
  have "set_flags (stress_flags P) (stress_settings R cfg) stress_vars0 = Some ?v"
    using assms
    by (simp add: stress_settings_def stress_flags_def flag_kinds reads_back_def cfg_i64_def stress_vars0_def Defaults_def)
  from flag_Parse_prints [OF stress_names_ok this] show ?thesis
    by (simp add: stress_cfg_def ucast_u32_back)
qed

definition sample_parsers :: "int parsers" where
  "sample_parsers = \<lparr>ps_Bool = (\<lambda>s. if s = ''true'' then Some True else if s = ''false'' then Some False else None),
     ps_Int = Atoi, ps_Uint = (\<lambda>s. map_option of_nat (ParseUint s 64)), ps_Duration = Atoi, ps_Float = Atoi\<rparr>"

definition sample_printers :: printers where
  "sample_printers = \<lparr>pr_Bool = (\<lambda>b. if b then ''true'' else ''false''), pr_Int = Itoa,
     pr_Uint = (\<lambda>u. FormatUint (unat u)), pr_Duration = Itoa\<rparr>"

lemma not_digit: "\<not> is_digit CHR ''-''" "\<not> is_digit CHR ''+''"
  by (simp_all add: is_digit_def char_eval)

lemma Atoi_Itoa: "i64 n \<Longrightarrow> Atoi (Itoa n) = Some n"
proof -
  assume r: "i64 n"
  have d: "is_digits (FormatUint k)" for k by (simp add: is_digits_def FormatUint_digits)
  have "is_digit (hd (FormatUint k))" for k
    using FormatUint_digits [of k] FormatUint_not_Nil [of k] by (simp add: list_all_iff)
  then have h: "hd (FormatUint k) \<noteq> CHR ''-''" "hd (FormatUint k) \<noteq> CHR ''+''" for k
    by (metis not_digit)+
  show ?thesis
    using r d h by (simp add: Atoi_def Itoa_def Let_def digits_value_FormatUint i64_def)
qed

lemma sample_reads_back: "reads_back sample_parsers sample_printers"
proof -
  have "is_digits (FormatUint k)" for k by (simp add: is_digits_def FormatUint_digits)
  moreover have "unat u < 2 ^ 64" for u :: "64 word" using unsigned_less [of u] by simp
  ultimately show ?thesis
    by (simp add: reads_back_def sample_parsers_def sample_printers_def Atoi_Itoa ParseUint_def
        digits_value_FormatUint)
qed

theorem stress_flags_roundtrip_witness:
  "\<exists>v. flag_Parse (stress_flags sample_parsers) (map print_flag (stress_settings sample_printers Defaults))
       stress_vars0 = Inr (v, []) \<and> stress_cfg v = Defaults"
  by (rule stress_flags_roundtrip [OF sample_reads_back])
    (simp add: cfg_i64_def Defaults_def i64_def min_i64_def max_i64_def time_Second_def)

text \<open>C34: The mock upstream does what its command line says: whatever addresses, lifetimes, latency and
  drop rate are printed as its six flags, it binds exactly these addresses (UDP first) and answers
  with a handler of exactly these settings, and it exits with status 1 when one of the addresses
  cannot be bound. Given only the two addresses, each as an argument of its own (the way a stress run
  spawns it), it binds these and keeps the default settings.\<close>

theorem mock_command_line:
  assumes "reads_back P R" and "i64 (mv_ttl v)" and "i64 (mv_negTTL v)" and "i64 (mv_latency v)"
    and "ps_Float P (pf (mv_dropRate v)) = Some (mv_dropRate v)"
  shows "mock_setup P zero secs listen (map print_flag (mock_settings R pf v)) =
      (if listen ''udp'' (mv_udpAddr v) = None \<and> listen ''tcp'' (mv_tcpAddr v) = None
       then Inr (NewMockHandler secs \<lparr>hg_TTL = mv_ttl v, hg_NegTTL = mv_negTTL v, hg_Latency = mv_latency v,
           hg_DropRate = mv_dropRate v\<rparr>, mv_udpAddr v, mv_tcpAddr v)
       else Inl 1)
    \<and> mock_setup P zero secs listen [''--listen.udp'', a, ''--listen.tcp'', b] =
      (if listen ''udp'' a = None \<and> listen ''tcp'' b = None
       then Inr (NewMockHandler secs \<lparr>hg_TTL = 300 * time_Second, hg_NegTTL = 60 * time_Second, hg_Latency = 0,
           hg_DropRate = zero\<rparr>, a, b)
       else Inl 1)"
proof
  have "set_flags (mock_flags P) (mock_settings R pf v) (mock_vars0 zero) = Some v"
    using assms by (simp add: mock_settings_def mock_flags_def flag_kinds reads_back_def mock_vars0_def)
  from flag_Parse_prints [OF mock_names_ok this]
  show "mock_setup P zero secs listen (map print_flag (mock_settings R pf v)) =
      (if listen ''udp'' (mv_udpAddr v) = None \<and> listen ''tcp'' (mv_tcpAddr v) = None
       then Inr (NewMockHandler secs \<lparr>hg_TTL = mv_ttl v, hg_NegTTL = mv_negTTL v, hg_Latency = mv_latency v,
           hg_DropRate = mv_dropRate v\<rparr>, mv_udpAddr v, mv_tcpAddr v)
       else Inl 1)" by (simp add: mock_setup_def handler_config_def)
  have "flag_Parse (mock_flags P) [''--listen.udp'', a, ''--listen.tcp'', b] (mock_vars0 zero)
      = Inr ((mock_vars0 zero)\<lparr>mv_udpAddr := a, mv_tcpAddr := b\<rparr>, [])"
    by (simp add: strip_minus_def split_value_def mock_flags_def flag_kinds mock_vars0_def)
  then show "mock_setup P zero secs listen [''--listen.udp'', a, ''--listen.tcp'', b] =
      (if listen ''udp'' a = None \<and> listen ''tcp'' b = None
       then Inr (NewMockHandler secs \<lparr>hg_TTL = 300 * time_Second, hg_NegTTL = 60 * time_Second, hg_Latency = 0,
           hg_DropRate = zero\<rparr>, a, b)
       else Inl 1)" by (simp add: mock_setup_def mock_vars0_def handler_config_def)
qed

theorem mock_command_line_witness:
  "mock_setup sample_parsers 0 (\<lambda>_. 0) (\<lambda>_ _. None) (map print_flag (mock_settings sample_printers Itoa
       \<lparr>mv_udpAddr = ''[::1]:9'', mv_tcpAddr = ''='', mv_ttl = 5, mv_negTTL = - 1, mv_latency = 7, mv_dropRate = 2\<rparr>)) =
     Inr (NewMockHandler (\<lambda>_. 0) \<lparr>hg_TTL = 5, hg_NegTTL = - 1, hg_Latency = 7, hg_DropRate = 2\<rparr>, ''[::1]:9'', ''='')"
  using mock_command_line [OF sample_reads_back, of "\<lparr>mv_udpAddr = ''[::1]:9'', mv_tcpAddr = ''='', mv_ttl = 5,
      mv_negTTL = - 1, mv_latency = 7, mv_dropRate = 2\<rparr>" Itoa 0 "\<lambda>_. 0" "\<lambda>_ _. None"]
  by (simp add: i64_def min_i64_def max_i64_def sample_parsers_def Atoi_Itoa)

text \<open>The exit status of \<open>bns-stress\<close>: a command line that does not parse ends it with
  status 2 before anything is started; otherwise the status is 0 exactly when the run returned
  without an error, and then the summary is printed, and the worker count of the run is the flag's value modulo $2^{32}$.\<close>

theorem stress_main_status:
  assumes "stress_main P W f0 reg args = (st, evs, out)"
  shows "(\<forall>e. flag_Parse (stress_flags P) args stress_vars0 = Inl e \<longrightarrow>
      evs = [] \<and> out = [] \<and> st = Some (if e = Help then 0 else 2))
    \<and> (\<forall>v rest. flag_Parse (stress_flags P) args stress_vars0 = Inr (v, rest) \<longrightarrow>
      (st = Some 0 \<longleftrightarrow> (\<exists>res. fst (Run W reg (stress_cfg v)) = Some (Ret (res, None))))
      \<and> (st = Some 0 \<longleftrightarrow> (\<exists>line. out = [Stdout line])) \<and> evs = snd (Run W reg (stress_cfg v))
      \<and> unat (sg_Concurrency (stress_cfg v)) = unat (sv_concurrency v) mod 2 ^ 32)"
proof -
  have "unat (ucast x :: u32) = unat x mod 2 ^ 32" for x :: "64 word"
    by (simp add: unsigned_ucast_eq take_bit_eq_mod unat_mod_distrib)
  then show ?thesis
    using assms
    by (auto simp: stress_main_def parse_exit_def stress_cfg_def split: sum.splits prod.splits option.splits go.splits if_splits)
qed

theorem stress_main_status_witness:
  "stress_main sample_parsers (sample_world None) Itoa sample_registry [''--upstream'', ''x''] = (Some 2, [], [])"
proof -
  obtain st evs out where m: "stress_main sample_parsers (sample_world None) Itoa sample_registry [''--upstream'', ''x'']
      = (st, evs, out)" by (metis prod_cases3)
  have "flag_Parse (stress_flags sample_parsers) [''--upstream'', ''x''] stress_vars0 = Inl (NotDefined ''upstream'')"
    by (simp add: strip_minus_def split_value_def stress_flags_def flag_kinds)
  with stress_main_status [OF m] m show ?thesis by simp
qed

end
