(* ===== verification/Mock_Main.thy ===== *)
theory Mock_Main
  imports Serve_Lifecycle Cli_Flags
begin

text \<open>
  The life of the mock upstream after its sockets are bound (\<open>cmd/mockupstream/main.go\<close>): the
  goroutines of the two listeners, each of which sends its result to a channel with room for both,
  and \<open>main\<close>, which waits for both to have started, then for a signal or the first result, and
  shuts both down. A signal before the handler is registered ends the process at once and is not
  part of the model.
\<close>

section \<open>State and steps\<close>

datatype mock_pc = MockWaitUDP | MockWaitTCP | MockSelect | MockShutUDP | MockShutTCP | MockExit

record mock_life =
  ml_udp :: listener
  ml_tcp :: listener
  ml_udpReady :: bool
  ml_tcpReady :: bool
  ml_errCh :: "goerror option list"
  ml_sig :: bool
  ml_pc :: mock_pc

definition mock_init :: mock_life where
  "mock_init = \<lparr>ml_udp = LsInit, ml_tcp = LsInit, ml_udpReady = False, ml_tcpReady = False,
     ml_errCh = [], ml_sig = False, ml_pc = MockWaitUDP\<rparr>"

text \<open>The listeners and the world outside.\<close>

inductive mock_env :: "mock_life \<Rightarrow> mock_life \<Rightarrow> bool" where
  mock_udp_up: "ml_udp y = LsInit \<Longrightarrow> mock_env y (y\<lparr>ml_udp := LsUp, ml_udpReady := True\<rparr>)"
| mock_tcp_up: "ml_tcp y = LsInit \<Longrightarrow> mock_env y (y\<lparr>ml_tcp := LsUp, ml_tcpReady := True\<rparr>)"
| mock_udp_end: "ml_udp y \<noteq> LsDown \<Longrightarrow> mock_env y (y\<lparr>ml_udp := LsDown, ml_errCh := ml_errCh y @ [r]\<rparr>)"
| mock_tcp_end: "ml_tcp y \<noteq> LsDown \<Longrightarrow> mock_env y (y\<lparr>ml_tcp := LsDown, ml_errCh := ml_errCh y @ [r]\<rparr>)"
| mock_signal: "ml_pc y \<notin> {MockWaitUDP, MockWaitTCP} \<Longrightarrow> mock_env y (y\<lparr>ml_sig := True\<rparr>)"

text \<open>The steps of \<open>main\<close>.\<close>

inductive mock_step :: "mock_life \<Rightarrow> mock_life \<Rightarrow> bool" where
  mock_wait_udp: "ml_pc y = MockWaitUDP \<Longrightarrow> ml_udpReady y \<Longrightarrow> mock_step y (y\<lparr>ml_pc := MockWaitTCP\<rparr>)"
| mock_wait_tcp: "ml_pc y = MockWaitTCP \<Longrightarrow> ml_tcpReady y \<Longrightarrow> mock_step y (y\<lparr>ml_pc := MockSelect\<rparr>)"
| mock_on_signal: "ml_pc y = MockSelect \<Longrightarrow> ml_sig y \<Longrightarrow> mock_step y (y\<lparr>ml_sig := False, ml_pc := MockShutUDP\<rparr>)"
| mock_on_result: "ml_pc y = MockSelect \<Longrightarrow> ml_errCh y = r # rs \<Longrightarrow>
    mock_step y (y\<lparr>ml_errCh := rs, ml_pc := MockShutUDP\<rparr>)"
| mock_shut_udp: "ml_pc y = MockShutUDP \<Longrightarrow> mock_step y (y\<lparr>ml_pc := MockShutTCP\<rparr>)"
| mock_shut_tcp: "ml_pc y = MockShutTCP \<Longrightarrow> mock_step y (y\<lparr>ml_pc := MockExit\<rparr>)"

inductive mock_reach :: "mock_life \<Rightarrow> bool" where
  mock_start: "mock_reach mock_init"
| mock_more: "mock_reach y \<Longrightarrow> mock_env y y' \<or> mock_step y y' \<Longrightarrow> mock_reach y'"

inductive_cases mock_stepE: "mock_step y y'"
inductive_cases mock_envE: "mock_env y y'"

section \<open>What holds\<close>

text \<open>The channel holds a result per listener that has ended, less the one that \<open>main\<close> took, so a
  send never blocks; \<open>main\<close> is past a wait only when that listener has started.\<close>

definition mock_inv :: "mock_life \<Rightarrow> bool" where
  "mock_inv y \<longleftrightarrow> length (ml_errCh y) \<le> of_bool (ml_udp y = LsDown) + of_bool (ml_tcp y = LsDown)
     \<and> (ml_pc y \<noteq> MockWaitUDP \<longrightarrow> ml_udpReady y) \<and> (ml_pc y \<notin> {MockWaitUDP, MockWaitTCP} \<longrightarrow> ml_tcpReady y)
     \<and> (ml_udp y = LsUp \<longrightarrow> ml_udpReady y) \<and> (ml_tcp y = LsUp \<longrightarrow> ml_tcpReady y)
     \<and> (ml_udp y = LsInit \<longrightarrow> \<not> ml_udpReady y) \<and> (ml_tcp y = LsInit \<longrightarrow> \<not> ml_tcpReady y)"

lemma mock_env_inv: "mock_env y y' \<Longrightarrow> mock_inv y \<Longrightarrow> mock_inv y'"
  by (erule mock_envE) (auto simp: mock_inv_def)

lemma mock_step_inv: "mock_step y y' \<Longrightarrow> mock_inv y \<Longrightarrow> mock_inv y'"
  by (erule mock_stepE) (auto simp: mock_inv_def)

lemma mock_reach_inv: "mock_reach y \<Longrightarrow> mock_inv y"
proof (induction rule: mock_reach.induct)
  case mock_start
  show ?case by (simp add: mock_inv_def mock_init_def)
next
  case (mock_more y y')
  then show ?case using mock_env_inv mock_step_inv by blast
qed

lemma mock_stuck:
  assumes "\<nexists>y'. mock_step y y'"
  shows "ml_pc y = MockExit \<or> (ml_pc y = MockWaitUDP \<and> \<not> ml_udpReady y)
    \<or> (ml_pc y = MockWaitTCP \<and> \<not> ml_tcpReady y) \<or> (ml_pc y = MockSelect \<and> \<not> ml_sig y \<and> ml_errCh y = [])"
proof (cases "ml_pc y")
  case MockSelect
  then show ?thesis using assms mock_on_signal [of y] mock_on_result [of y] by (cases "ml_errCh y") auto
qed (use assms mock_wait_udp mock_wait_tcp mock_shut_udp mock_shut_tcp in blast)+

section \<open>Properties\<close>

text \<open>C35: The mock upstream ends when a listener has ended only if both listeners had started: with a
  result in the channel, \<open>main\<close> comes to a stop either at its end, having seen both start, or
  waiting for a listener that never started. The wait does not look at the channel, so a listener
  that fails during its start leaves the process hanging; the channel never holds more than its two
  places.\<close>

theorem mock_main_ends_iff_started:
  assumes "mock_reach y" and "\<nexists>y'. mock_step y y'" and "ml_errCh y \<noteq> []"
  shows "(ml_pc y = MockExit \<longleftrightarrow> ml_udpReady y \<and> ml_tcpReady y) \<and> length (ml_errCh y) \<le> 2"
proof
  note inv = mock_reach_inv [OF assms(1), unfolded mock_inv_def]
  show "ml_pc y = MockExit \<longleftrightarrow> ml_udpReady y \<and> ml_tcpReady y"
    using mock_stuck [OF assms(2)] inv assms(3) by auto
  have "of_bool (ml_udp y = LsDown) + of_bool (ml_tcp y = LsDown) \<le> (2 :: nat)" by simp
  then show "length (ml_errCh y) \<le> 2" using inv by linarith
qed

theorem mock_main_ends_iff_started_witness:
  "\<exists>y. mock_reach y \<and> ml_errCh y = [Some (ErrNew ''listen'')] \<and> ml_pc y \<noteq> MockExit \<and> \<not> (\<exists>y'. mock_step y y')"
proof -
  let ?y = "mock_init\<lparr>ml_udp := LsDown, ml_errCh := ml_errCh mock_init @ [Some (ErrNew ''listen'')]\<rparr>"
  have "mock_env mock_init ?y" by (rule mock_udp_end) (simp add: mock_init_def)
  then have r: "mock_reach ?y" using mock_more [OF mock_start] by blast
  have s: "\<nexists>y'. mock_step ?y y'" by (auto simp: mock_init_def elim: mock_stepE)
  from mock_main_ends_iff_started [OF r s] r s show ?thesis by (fastforce simp: mock_init_def)
qed

end
