(* ===== verification/Test_Servers.thy ===== *)
theory Test_Servers
  imports Serve_Lifecycle Go_Net
begin

text \<open>
  The helpers with which the tests of the upstream clients run against real sockets
  (\<open>internal/upstream/testutil\<close>): a DNS server on one loopback port for UDP and TCP
  (\<open>server.go\<close>), and a self-signed certificate for a DoH server (\<open>tlscert.go\<close>). A failed
  \<open>require.NoError\<close> ends the test and is an error here; sockets, listeners and cryptography are
  parameters.
\<close>

section \<open>Spawn: sockets and handler\<close>

text \<open>Both calls give the local address of what they opened.\<close>

record test_net =
  tn_ListenPacket :: "string \<Rightarrow> string \<Rightarrow> goerror + string"
  tn_Listen :: "string \<Rightarrow> string \<Rightarrow> goerror + string"

text \<open>The addresses of the two sockets; \<open>Spawn\<close> returns the first.\<close>

definition spawn_bind :: "test_net \<Rightarrow> goerror + string \<times> string" where
  "spawn_bind N =
     (case tn_ListenPacket N ''udp'' ''127.0.0.1:0'' of
        Inl e \<Rightarrow> Inl e
      | Inr addr \<Rightarrow>
          (case SplitHostPort addr of
             Inl e \<Rightarrow> Inl e
           | Inr (host, port) \<Rightarrow>
               (case tn_Listen N ''tcp'' (JoinHostPort host port) of
                  Inl e \<Rightarrow> Inl e
                | Inr tcp \<Rightarrow> Inr (addr, tcp))))"

text \<open>What is written for a query: the answer of the test's function, unless it does not pack.\<close>

definition spawn_handler :: "(msg \<Rightarrow> bool) \<Rightarrow> (msg \<Rightarrow> msg) \<Rightarrow> msg \<Rightarrow> msg option" where
  "spawn_handler packs h req = (let resp = h req in if packs resp then Some resp else None)"

section \<open>Spawn: goroutines and cleanup\<close>

datatype spawn_pc = SpawnWaitUDP | SpawnWaitTCP | SpawnReturned | SpawnCleanup | SpawnCleaned

record spawn_life =
  sl_udp :: listener
  sl_tcp :: listener
  sl_udpReady :: bool
  sl_tcpReady :: bool
  sl_udpTold :: bool
  sl_tcpTold :: bool
  sl_pc :: spawn_pc

definition spawn_init :: spawn_life where
  "spawn_init = \<lparr>sl_udp = LsInit, sl_tcp = LsInit, sl_udpReady = False, sl_tcpReady = False,
     sl_udpTold = False, sl_tcpTold = False, sl_pc = SpawnWaitUDP\<rparr>"

text \<open>The goroutines of the listeners, whose results are dropped, the two waits of \<open>Spawn\<close>, and
  the two calls of the cleanup once the test has ended.\<close>

inductive spawn_step :: "spawn_life \<Rightarrow> spawn_life \<Rightarrow> bool" where
  spawn_udp_up: "sl_udp y = LsInit \<Longrightarrow> spawn_step y (y\<lparr>sl_udp := LsUp, sl_udpReady := True\<rparr>)"
| spawn_tcp_up: "sl_tcp y = LsInit \<Longrightarrow> spawn_step y (y\<lparr>sl_tcp := LsUp, sl_tcpReady := True\<rparr>)"
| spawn_udp_end: "sl_udp y \<noteq> LsDown \<Longrightarrow> spawn_step y (y\<lparr>sl_udp := LsDown\<rparr>)"
| spawn_tcp_end: "sl_tcp y \<noteq> LsDown \<Longrightarrow> spawn_step y (y\<lparr>sl_tcp := LsDown\<rparr>)"
| spawn_wait_udp: "sl_pc y = SpawnWaitUDP \<Longrightarrow> sl_udpReady y \<Longrightarrow> spawn_step y (y\<lparr>sl_pc := SpawnWaitTCP\<rparr>)"
| spawn_wait_tcp: "sl_pc y = SpawnWaitTCP \<Longrightarrow> sl_tcpReady y \<Longrightarrow> spawn_step y (y\<lparr>sl_pc := SpawnReturned\<rparr>)"
| spawn_shut_udp: "sl_pc y = SpawnReturned \<Longrightarrow> spawn_step y (y\<lparr>sl_udpTold := True, sl_pc := SpawnCleanup\<rparr>)"
| spawn_shut_tcp: "sl_pc y = SpawnCleanup \<Longrightarrow> spawn_step y (y\<lparr>sl_tcpTold := True, sl_pc := SpawnCleaned\<rparr>)"

inductive_cases spawn_stepE: "spawn_step y y'"

definition spawn_inv :: "spawn_life \<Rightarrow> bool" where
  "spawn_inv y \<longleftrightarrow> (sl_pc y \<noteq> SpawnWaitUDP \<longrightarrow> sl_udpReady y)
     \<and> (sl_pc y \<notin> {SpawnWaitUDP, SpawnWaitTCP} \<longrightarrow> sl_tcpReady y)
     \<and> (sl_udpReady y \<longrightarrow> sl_udp y \<noteq> LsInit) \<and> (sl_tcpReady y \<longrightarrow> sl_tcp y \<noteq> LsInit)
     \<and> (sl_udpTold y \<longrightarrow> sl_pc y \<in> {SpawnCleanup, SpawnCleaned}) \<and> (sl_tcpTold y \<longrightarrow> sl_pc y = SpawnCleaned)"

interpretation spawn_sys: step_invariant spawn_step spawn_inv
proof
  fix y y'
  assume "spawn_inv y" and "spawn_step y y'"
  then show "spawn_inv y'" by (elim spawn_stepE) (auto simp: spawn_inv_def)
qed

text \<open>The race that \<open>NotifyStartedFunc\<close> is there to remove: once \<open>Spawn\<close> has returned both
  servers have been initialised, so \<open>Shutdown\<close> is never called on one that is not.\<close>

lemma spawn_shuts_initialised:
  assumes "spawn_step\<^sup>*\<^sup>* spawn_init y"
  shows "sl_pc y \<notin> {SpawnWaitUDP, SpawnWaitTCP} \<Longrightarrow> sl_udp y \<noteq> LsInit \<and> sl_tcp y \<noteq> LsInit"
    and "sl_udpTold y \<or> sl_tcpTold y \<Longrightarrow> sl_udp y \<noteq> LsInit \<and> sl_tcp y \<noteq> LsInit"
  using spawn_sys.runs_keep [OF assms] by (auto simp: spawn_inv_def spawn_init_def)

text \<open>What a loopback interface does: port zero gives a free port, and a port asked for is the port
  that is opened.\<close>

definition loopback :: "test_net \<Rightarrow> bool" where
  "loopback N \<longleftrightarrow>
     (\<forall>a. tn_ListenPacket N ''udp'' ''127.0.0.1:0'' = Inr a \<longrightarrow> (\<exists>p < 65536. 0 < p \<and> a = JoinHostPort ''127.0.0.1'' (FormatUint p)))
     \<and> (\<forall>p a. 0 < p \<longrightarrow> tn_Listen N ''tcp'' (JoinHostPort ''127.0.0.1'' (FormatUint p)) = Inr a \<longrightarrow>
          a = JoinHostPort ''127.0.0.1'' (FormatUint p))"

lemma digits_plain: "set (FormatUint n) \<inter> set '':[]'' = {}"
  using FormatUint_digits [of n] by (auto simp: list_all_iff is_digit_def)

text \<open>Both servers listen on the address that \<open>Spawn\<close> returns.\<close>

lemma spawn_one_address:
  assumes "loopback N" and "spawn_bind N = Inr (addr, tcp)"
  shows "tcp = addr \<and> (\<exists>p. 0 < p \<and> p < 65536 \<and> addr = ''127.0.0.1:'' @ FormatUint p)"
proof -
  from assms(2) obtain host port where u: "tn_ListenPacket N ''udp'' ''127.0.0.1:0'' = Inr addr"
    and s: "SplitHostPort addr = Inr (host, port)" and t: "tn_Listen N ''tcp'' (JoinHostPort host port) = Inr tcp"
    by (auto simp: spawn_bind_def split: sum.splits)
  from assms(1) u obtain p where p: "0 < p" "p < 65536" "addr = JoinHostPort ''127.0.0.1'' (FormatUint p)"
    by (auto simp: loopback_def)
  have "SplitHostPort addr = Inr (''127.0.0.1'', FormatUint p)"
    using digits_plain [of p] unfolding p(3) by (intro SplitHostPort_JoinHostPort) auto
  then have "tcp = addr" using s t p(1,3) assms(1) by (auto simp: loopback_def)
  then show ?thesis using p by (auto simp: JoinHostPort_def)
qed

section \<open>NewTLSCert\<close>

text \<open>A certificate; addresses are kept as the literals they were parsed from.\<close>

datatype key_usage = DigitalSignature | KeyEncipherment
datatype ext_key_usage = ServerAuth

record x509_Certificate =
  xc_SerialNumber :: int
  xc_CommonName :: string
  xc_NotBefore :: int
  xc_NotAfter :: int
  xc_KeyUsage :: "key_usage list"
  xc_ExtKeyUsage :: "ext_key_usage list"
  xc_BasicConstraintsValid :: bool
  xc_IPAddresses :: "string list"
  xc_DNSNames :: "string list"

record 'k crypto =
  cy_GenerateKey :: "goerror + 'k"
  cy_Int :: "int \<Rightarrow> goerror + int"
  cy_CreateCertificate :: "x509_Certificate \<Rightarrow> x509_Certificate \<Rightarrow> 'k \<Rightarrow> goerror + string"
  cy_ParseCertificate :: "string \<Rightarrow> goerror + x509_Certificate"

record 'k tls_Certificate =
  tc_Certificate :: "string list"
  tc_PrivateKey :: 'k
  tc_Leaf :: x509_Certificate

fun add_hosts :: "string list \<Rightarrow> x509_Certificate \<Rightarrow> x509_Certificate" where
  "add_hosts [] tmpl = tmpl"
| "add_hosts (h # hosts) tmpl =
     add_hosts hosts
       (if ParseIP_ok h then tmpl\<lparr>xc_IPAddresses := xc_IPAddresses tmpl @ [h]\<rparr>
        else tmpl\<lparr>xc_DNSNames := xc_DNSNames tmpl @ [h]\<rparr>)"

text \<open>\<open>t1\<close> and \<open>t2\<close> are the two readings of the clock.\<close>

definition NewTLSCert :: "'k crypto \<Rightarrow> int \<Rightarrow> int \<Rightarrow> string list \<Rightarrow> goerror + 'k tls_Certificate" where
  "NewTLSCert Y t1 t2 hosts =
     (case cy_GenerateKey Y of
        Inl e \<Rightarrow> Inl e
      | Inr key \<Rightarrow>
          (case cy_Int Y (2 ^ 128) of
             Inl e \<Rightarrow> Inl e
           | Inr serial \<Rightarrow>
               let tmpl = add_hosts hosts
                     \<lparr>xc_SerialNumber = serial, xc_CommonName = ''bns-test'', xc_NotBefore = t1 - time_Minute,
                      xc_NotAfter = t2 + time_Hour, xc_KeyUsage = [DigitalSignature, KeyEncipherment],
                      xc_ExtKeyUsage = [ServerAuth], xc_BasicConstraintsValid = True, xc_IPAddresses = [],
                      xc_DNSNames = []\<rparr>
               in case cy_CreateCertificate Y tmpl tmpl key of
                    Inl e \<Rightarrow> Inl e
                  | Inr der \<Rightarrow>
                      (case cy_ParseCertificate Y der of
                         Inl e \<Rightarrow> Inl e
                       | Inr leaf \<Rightarrow> Inr \<lparr>tc_Certificate = [der], tc_PrivateKey = key, tc_Leaf = leaf\<rparr>)))"

lemma add_hosts_split:
  "xc_IPAddresses (add_hosts hosts t) = xc_IPAddresses t @ filter ParseIP_ok hosts"
  "xc_DNSNames (add_hosts hosts t) = xc_DNSNames t @ filter (\<lambda>h. \<not> ParseIP_ok h) hosts"
  by (induction hosts t rule: add_hosts.induct) simp_all

text \<open>With a certificate format that keeps the alternative names, the leaf has every host in the slot
  its form asks for, in the order given, and in no other.\<close>

lemma NewTLSCert_hosts:
  assumes "\<And>t p k d c. cy_CreateCertificate Y t p k = Inr d \<Longrightarrow> cy_ParseCertificate Y d = Inr c \<Longrightarrow>
      xc_IPAddresses c = xc_IPAddresses t \<and> xc_DNSNames c = xc_DNSNames t"
    and "NewTLSCert Y t1 t2 hosts = Inr cert"
  shows "xc_IPAddresses (tc_Leaf cert) = filter ParseIP_ok hosts"
    and "xc_DNSNames (tc_Leaf cert) = filter (\<lambda>h. \<not> ParseIP_ok h) hosts"
  using assms(2) by (auto simp: NewTLSCert_def Let_def add_hosts_split dest!: assms(1) split: sum.splits)

end
