(* ===== verification/Spec2Isabelle.thy ===== *)
theory Spec2Isabelle
  imports Cache_Alias Serve_Concurrent Bns_Command Logging Metric_Labels Mock_Main Test_Servers
begin

text \<open>
  BNS, a blocking, caching DNS forwarder, and its stress harness.

  \<^bold>\<open>The program.\<close> A query arrives at the UDP or TCP listener (\<open>internal/server\<close>) and goes through
  the handler (\<open>internal/resolver/handler.go\<close>) into the chain of stages metrics, query log, block,
  cache, coalesce and forward (\<open>internal/resolver/chain\<close>), which ends in a pool of upstream clients
  over UDP/TCP or DNS-over-HTTPS (\<open>internal/upstream\<close>). The blocklist is built from local files and
  from bodies a background fetcher keeps in a cache directory (\<open>internal/blocklist\<close>); an atomic
  holder lets the stages read it while SIGHUP or the fetcher reload it. \<open>cmd/bns/serve.go\<close> assembles
  all this from a validated configuration (\<open>internal/config\<close>), with probes and metrics on an
  administrative HTTP server (\<open>internal/health\<close>, \<open>internal/admin\<close>, \<open>internal/metrics\<close>). The stress
  harness (\<open>internal/stress\<close>, \<open>cmd/bns-stress\<close>, \<open>cmd/mockupstream\<close>) starts a server against a mock
  upstream, loads it, scrapes its metrics before and after and writes a report.

  \<^bold>\<open>The theories.\<close>
  \<^item> \<open>BNS_Prelude\<close>, \<open>Go_Unicode\<close>, \<open>Go_Strings\<close>, \<open>Go_Net\<close>: errors, panics, durations, machine integers
    and the functions of Go's \<open>unicode\<close>, \<open>strings\<close>, \<open>strconv\<close>, \<open>bufio\<close>, \<open>net\<close> and \<open>netip\<close> that
    the source calls, written out on byte strings. \<open>Dns_Msg\<close>: messages, records and the cache key.
    The locale \<open>step_invariant\<close> of the prelude carries an invariant over the runs of a step relation.
  \<^item> \<open>Blocklist_Parse\<close>, \<open>Blocklist_Matcher\<close>: the line parser, the matcher with its walk over parent
    domains, the holder. The locale \<open>domain_matcher\<close> is the contract of a matcher.
  \<^item> \<open>Blocklist_Store\<close>, \<open>Blocklist_Loader\<close>, \<open>Blocklist_Fetcher\<close>: the cache directory with every state
    it passes through and a fault for every system call, the sources (locale \<open>blocklist_source\<close>) and
    the loader, one conditional fetch, a cycle and the fetcher's loop as a step relation.
  \<^item> \<open>Cache_LRU\<close>, \<open>Cache_Alias\<close>: the linked-list cache, its refinement to a list in order of use
    (locale \<open>dns_cache\<close>), and the same operations on a heap of pointers for the deep-copy rules.
  \<^item> \<open>Config\<close>, \<open>Config_Validate\<close>, \<open>Config_Load\<close>: schema, defaults, every check of the validation in
    order, the calls made on the configuration library and the flags of the serve command.
    \<open>Bns_Command\<close>: the commands and \<open>main\<close>. This theory joins loading and startup in \<open>serve_RunE\<close>.
  \<^item> \<open>Metrics\<close>, \<open>Resolver\<close>, \<open>Cache_Stage\<close>, \<open>Stages\<close>, \<open>Chain\<close>: the state of the server, the per-query
    markers, each stage (locale \<open>chain_stage\<close>, interpreted by every stage that wraps another), and
    their composition under the handler.
  \<^item> \<open>Chain_Steps\<close>, \<open>Chain_Concurrent\<close>: the same stages cut at every access to shared state, so that
    any number of queries and reloads of the list interleave; the locale \<open>cache_free\<close> collects what
    an invariant of the cache has to satisfy to survive every action.
  \<^item> \<open>Upstream\<close>, \<open>Dialers\<close>: the clients (locale \<open>upstream_contract\<close>), the pool and the round-robin
    dialers.
  \<^item> \<open>Admin\<close>, \<open>Serve\<close>, \<open>Serve_Reload\<close>, \<open>Logging\<close>: probes and routes, startup, the running server as a
    step relation over queries, fetch cycles, signals, file edits and listener events, and the
    interleavings of concurrent reloads. \<open>Serve_Concurrent\<close>: the server with all its goroutines
    interleaved, the actions of the queries, the fetcher target by target, reloads source by source,
    the SIGHUP loop and the wait for the listeners, related to the concurrent queries by the locale
    \<open>step_simulation\<close>. \<open>Serve_Lifecycle\<close>: the goroutines of the process from start to exit.
    \<open>Metric_Labels\<close>: the declared collectors and the label values in use.
  \<^item> \<open>Mock_Upstream\<close>, \<open>Stress_Metrics\<close>, \<open>Stress_Quantile\<close>, \<open>Stress_Report\<close>, \<open>Stress_Run\<close>,
    \<open>Stress_Orchestrate\<close>: the mock's answers, the metrics parser and differences, quantiles, the report,
    configuration and waiting loops, and the whole run as a list of events. \<open>Cli_Flags\<close>: the command
    lines of \<open>bns-stress\<close> and \<open>mockupstream\<close>. \<open>Mock_Main\<close>: the goroutines of the mock.
  \<^item> \<open>Test_Servers\<close>: the helpers of the upstream tests, a DNS server on a loopback port and a
    certificate.

  Definitions keep the names of the source; a prefix is added where a name occurs in several packages
  (\<open>cache_Resolve\<close>, \<open>udp_Exchange\<close>) and fields carry a prefix of their record.

  \<^bold>\<open>What is shown.\<close> Every query is answered, under the caller's ID, panics included; a blocked name is
  answered locally and only names the list covers are; each query is counted once. The cache refines
  a bounded list in order of use, its lifetimes have a closed form without overflow, entries age and
  expire, and callers cannot reach into it. Writes to the cache directory are atomic at every moment
  and under every failure, what was written is read back, the sweep removes exactly what is no longer
  configured, and a fetch replaces a list only by the whole body of a response that was read to its
  end and passes the checks. A load takes in everything each source holds. In every state that the
  running server reaches from startup, with all goroutines interleaved, these invariants hold
  together: the active list is the union of everything that the configured sources held, each at some
  moment of the run, readiness implies that both listeners have started, the query counters add up,
  and every answer is genuine. To the queries everything else the
  server does is one of the outside steps under which they were verified. Reloads are all or nothing
  and safe for readers under any interleaving; that two overlapping ones can leave an outdated list
  behind is proved as well.
  Of concurrent queries it is shown that every message a client receives, from the cache, from another
  query's exchange or from its own, is an answer to the question asked, under the ID asked with; that
  a question (the name in any spelling, the type and the class) has at most one coalesced exchange in
  flight, and queries wait only for one that asked the same; that every query started is finished and counted
  once; and that a query that runs alone does what the sequential chain does. A signal ends the
  process in an orderly way once both listeners have started; that a failed listener goes unreported
  while the other serves, and that a shutdown before the start can be lost, are proved as well. The
  collectors are only used with the labels they declare, and their values stay within sets fixed by
  the configuration. The administrative server's reply is given for every path. Validation is
  characterised exactly, the serve command fails to start only for
  outside reasons, and its flags fit the settings they are bound to.
  For the harness: the waiting loops and the whole run return, children are interrupted, killed if
  need be and reaped on every way out, files are closed except for the CPU profile on the two returns
  that do not wait for it, success is reported only when it was one and with the growth of the
  counters, the parser reads the counters that are on the page, a quantile in an unbounded bucket is
  no number (in a finite one it stays within the bucket, shown for exact arithmetic), the report does not depend on the
  order of Go's maps, a configuration written as flags is read back, and the mock does what its
  command line says and ends when it is told to, provided both its listeners have started.

  \<^bold>\<open>Parameters.\<close> Code outside the repository is an argument of the definitions that use it: the DNS
  library's exchange and codec, the HTTP client, the URL parser, \<open>singleflight\<close>, SHA-256 and JSON, the
  operating system's files and processes, clocks and contexts, \<open>float64\<close> arithmetic and its printing,
  the benchmark library. What is relied upon is a named hypothesis (\<open>singleflight\<close>, \<open>codec_ok\<close>,
  \<open>env_ok\<close>, \<open>lib_ok\<close>, \<open>binds_defined\<close>, \<open>deadline\<close>, \<open>sorts_by_key\<close>; \<open>sf_ok\<close>, \<open>sf_idle\<close> and
  \<open>conc_deps\<close> for concurrent queries; \<open>honest\<close> for a file system that does not report an existing
  file as missing; \<open>reads_back\<close> for the conversions of flag values; \<open>absorbing\<close> for infinities and
  NaN in \<open>float64\<close> arithmetic), and the
  witnesses instantiate them. Whether the DNS library remembers a shutdown of a listener that has
  not started is the argument \<open>early\<close>.

  \<^bold>\<open>Termination.\<close> All loops over data are total functions. The two polling loops, which may run for
  ever, are partial functions into \<open>option\<close>, and returning is proved from a deadline of their context.
  The loops of the server and the fetcher are step relations. No fuel is used.

  \<^bold>\<open>Bounds.\<close> Counters of 32 and 16 bits are words; durations and \<open>int64\<close> values are integers with the
  wrap-around written out; strings are byte lists.

  \<^bold>\<open>Not modelled.\<close> What \<open>viper\<close> merges from flags, file and environment and how \<open>cobra\<close> finds and
  runs a command, serving of sockets, HTTP and TLS by the libraries, the exposition of the metrics,
  the text of log lines and of usage messages: all of these are calls into libraries with no logic of
  the program. What is left of the sources beside them are constructors and accessors that only fill or
  read a structure, and doc comments. In the interleaved server one target of a fetch cycle is one
  action, as is the reading of one source; what a reader sees in the middle of a write to the cache
  directory is the subject of \<open>Blocklist_Store\<close>. What a machine that loses power keeps of a write is
  not modelled: the calls that flush a file or the directory can fail, but have no other effect. An
  exchange for a request without exactly one question, which bypasses the group, is one action.
  Signals that arrive before a process has registered for them are left out. Mutexes are not modelled where an operation runs entirely under one.
  Messages of errors omit values that the source quotes with \<open>%q\<close>. The goroutine that captures the CPU
  profile of a stress run takes its actions where a parameter places them; what it does after a run
  has returned without waiting for it is not followed.
\<close>

section \<open>The serve command\<close>

text \<open>\<open>RunE\<close> of the serve command up to the start of the goroutines.\<close>

definition serve_RunE :: "viper_lib \<Rightarrow> 'e env \<Rightarrow> string \<Rightarrow> ctx \<Rightarrow> disk \<Rightarrow> line_ctx \<Rightarrow> (nat \<Rightarrow> int) \<Rightarrow> 'e \<Rightarrow> fsys
    \<Rightarrow> (goerror + 'e service \<times> 'e fetch \<times> Readiness \<times> blocklist_log) go" where
  "serve_RunE V E cfgPath c dk ce clk net f =
     (case fst (Load V (lb_ParseURL (ev_lib E)) (serve_options V cfgPath)) of
        Inl e \<Rightarrow> Ret (Inl (ErrWrap ''load config'' e))
      | Inr cfg \<Rightarrow> startup E c cfg dk ce clk net f)"

text \<open>C19: Starting the server can end in an error only for a cause outside the program's own wiring:
  the configuration could not be read, decoded or validated, a blocklist file could not be read, or
  an address could not be bound. Binding the flags, building the sources and building the upstream
  clients never fail once the configuration is accepted.\<close>

theorem serve_command_errors:
  assumes "binds_defined V" "lib_ok (ev_lib E)"
    and "serve_RunE V E cfgPath c dk ce clk net f = Ret (Inl e)"
  shows "(\<exists>e' what. e = ErrWrap ''load config'' (ErrWrap what e')
        \<and> what \<in> {''read config'', ''decode config'', ''validate config''})
    \<or> (\<exists>cfg. fst (Load V (lb_ParseURL (ev_lib E)) (serve_options V cfgPath)) = Inr cfg
        \<and> ((\<exists>e'. e = ErrWrap ''load blocklist'' e') \<or> bind_listeners E cfg = Some e))"
proof (cases "fst (Load V (lb_ParseURL (ev_lib E)) (serve_options V cfgPath))")
  case (Inl e1)
  then have "\<exists>e' what. e1 = ErrWrap what e' \<and> what \<in> {''read config'', ''decode config'', ''validate config''}"
    by (auto simp: Load_serve [OF assms(1)] decode_def Let_def split: if_splits option.splits sum.splits)
  then show ?thesis using Inl assms(3) by (auto simp: serve_RunE_def)
next
  case (Inr cfg)
  then have "Validate (lb_ParseURL (ev_lib E)) cfg = None" by (metis Load_validated prod.collapse)
  moreover have "startup E c cfg dk ce clk net f = Ret (Inl e)" using Inr assms(3) by (simp add: serve_RunE_def)
  ultimately show ?thesis using Inr validated_config_starts [OF _ assms(2)] by blast
qed

definition sample_viper :: viper_lib where
  "sample_viper = \<lparr>vl_BindPFlag = (\<lambda>v k f. if f = None then Some (ErrNew ''flag is nil'') else None),
     vl_ReadInConfig = (\<lambda>v. None), vl_Unmarshal = (\<lambda>v d. Inr sample_config)\<rparr>"

theorem serve_command_errors_witness:
  "\<exists>e. serve_RunE sample_viper (sample_env\<lparr>ev_Listen := (\<lambda>n a. Some (ErrNew ''address in use''))\<rparr>) ''bns.yaml'' Background
       sample_disk no_ctx_err int () (sample_fs (\<lambda>_. None)) = Ret (Inl e)
     \<and> bind_listeners (sample_env\<lparr>ev_Listen := (\<lambda>n a. Some (ErrNew ''address in use''))\<rparr>) sample_config = Some e"
proof -
  let ?E = "sample_env\<lparr>ev_Listen := (\<lambda>n a. Some (ErrNew ''address in use''))\<rparr>"
  let ?e = "ErrWrap ''bind udp :53'' (ErrNew ''address in use'')"
  have v: "binds_defined sample_viper" by (simp add: binds_defined_def sample_viper_def)
  have l: "fst (Load sample_viper (lb_ParseURL (ev_lib ?E)) (serve_options sample_viper ''bns.yaml'')) = Inr sample_config"
    using sample_config_valid unfolding Load_serve [OF v] by (simp add: decode_def Let_def sample_viper_def)
  then have r: "serve_RunE sample_viper ?E ''bns.yaml'' Background sample_disk no_ctx_err int () (sample_fs (\<lambda>_. None))
      = Ret (Inl ?e)"
    by (simp add: serve_RunE_def startup_def sample_config_def Default_def Loader_Load_def upstream_New_def
        bind_listeners_def sample_env_def)
  have "lib_ok (ev_lib ?E)" using sample_lib_ok by (simp add: sample_env_def)
  from serve_command_errors [OF v this r] l r show ?thesis by auto
qed

section \<open>The harness and the serve command\<close>

text \<open>C38: Whatever the configuration of a stress run, the command line with which it spawns the
  server contains a flag that the serve command does not define.\<close>

theorem spawned_server_gets_unknown_flag:
  "\<exists>flag. ''--'' @ flag \<in> set (bns_args cfg) \<and> lookup_flag flag = None"
  by (rule exI [of _ "''upstream''"]) (simp add: bns_args_def lookup_flag_def serve_flag_defs_def)

end
